(* ===== verification/Prelude.thy ===== *)
theory Prelude
  imports Main "HOL-Library.Word"
begin

unbundle bit_operations_syntax

text \<open>
  The shared base of the development: the machine types of \<^verbatim>\<open>include/types.h\<close>, byte buffers
  (reads, writes and their frame lemmas), little- and big-endian integers, C strings kept in
  buffers, and the result type of computations that may be undefined or may not return.

  A buffer is a list of bytes.  \<open>get_at off n xs\<close> is the \<open>n\<close> bytes at \<open>off\<close>;
  \<open>put_at off bs xs\<close> stores \<open>bs\<close> at \<open>off\<close>, filling a gap behind the end with
  zero bytes as a POSIX file does.  Integers that the C code reads and writes through a cast
  pointer have the byte order of the target, which is little-endian (x86-64).
\<close>

section \<open>Machine types\<close>

type_synonym byte = "8 word"
type_synonym u8 = "8 word"
type_synonym u16 = "16 word"
type_synonym u32 = "32 word"
type_synonym u64 = "64 word"
type_synonym bytes = "8 word list"

text \<open>\<^verbatim>\<open>PAGE_SIZE\<close> and \<^verbatim>\<open>MAX_COLUMNS\<close> of \<^verbatim>\<open>include/types.h\<close>.\<close>

definition PAGE_SIZE :: nat where
  "PAGE_SIZE = 4096"

definition MAX_COLUMNS :: nat where
  "MAX_COLUMNS = 64"

text \<open>Collections of rewrite rules used by several theories.\<close>

named_theorems buf_simps \<open>lengths, reads and writes of byte buffers\<close>
named_theorems enc_simps \<open>encoding and decoding of integers and records\<close>

section \<open>Outcomes\<close>

text \<open>
  A C computation ends with a value, runs into undefined behaviour (an access outside an
  object, a dereference of freed memory), or does not end.  The last is \<open>None\<close> of
  the option type around an outcome.
\<close>

datatype 'a outcome = Done 'a | UB

type_synonym 'a comp = "'a outcome option"

definition ret :: "'a \<Rightarrow> 'a comp" where
  "ret x = Some (Done x)"

definition undef :: "'a comp" where
  "undef = Some UB"

definition bindc :: "'a comp \<Rightarrow> ('a \<Rightarrow> 'b comp) \<Rightarrow> 'b comp" where
  "bindc m f = (case m of None \<Rightarrow> None | Some UB \<Rightarrow> Some UB | Some (Done x) \<Rightarrow> f x)"

text \<open>An access that is undefined when the option is empty.\<close>

definition ofopt :: "'a option \<Rightarrow> 'a comp" where
  "ofopt m = (case m of None \<Rightarrow> Some UB | Some x \<Rightarrow> Some (Done x))"

lemma bindc_simps [simp]:
  "bindc (ret x) f = f x"
  "bindc undef f = undef"
  "bindc None f = None"
  "bindc (Some (Done x)) f = f x"
  "bindc (Some UB) f = undef"
  by (simp_all add: bindc_def ret_def undef_def)

lemma ofopt_simps [simp]:
  "ofopt (Some x) = ret x"
  "ofopt None = undef"
  by (simp_all add: ofopt_def ret_def undef_def)

lemma ret_inject [simp]: "ret x = ret y \<longleftrightarrow> x = y"
  and ret_neq_undef [simp]: "ret x \<noteq> undef" "undef \<noteq> ret x"
  and ret_neq_None [simp]: "ret x \<noteq> None" "None \<noteq> ret x"
  and undef_neq_None [simp]: "(undef :: 'a comp) \<noteq> None" "None \<noteq> (undef :: 'a comp)"
  by (simp_all add: ret_def undef_def)

lemma bindc_eq_ret: "bindc m f = ret y \<longleftrightarrow> (\<exists>x. m = ret x \<and> f x = ret y)"
  by (auto simp: bindc_def ret_def split: option.splits outcome.splits)

lemma bindc_assoc: "bindc (bindc m f) g = bindc m (\<lambda>x. bindc (f x) g)"
  by (auto simp: bindc_def split: option.splits outcome.splits)

lemma bindc_ret_right [simp]: "bindc m ret = m"
  by (auto simp: bindc_def ret_def split: option.splits outcome.splits)

text \<open>A computation that ends, with a value or in undefined behaviour.\<close>

definition halts :: "'a comp \<Rightarrow> bool" where
  "halts m \<longleftrightarrow> m \<noteq> None"

lemma halts_simps [simp]: "halts (ret x)" "halts undef" "halts (ofopt r)"
  by (simp_all add: halts_def ofopt_def split: option.split)

lemma halts_bind: "halts m \<Longrightarrow> (\<And>x. halts (f x)) \<Longrightarrow> halts (bindc m f)"
  by (auto simp: halts_def bindc_def undef_def split: option.splits outcome.splits)

text \<open>Loops over computations may be defined by \<^theory_text>\<open>partial_function\<close>.\<close>

lemma bindc_mono [partial_function_mono]:
  fixes B :: "('a \<Rightarrow> 'b option) \<Rightarrow> 'c comp" and C :: "'c \<Rightarrow> ('a \<Rightarrow> 'b option) \<Rightarrow> 'd comp"
  assumes B: "mono_option B" and C: "\<And>y. mono_option (\<lambda>f. C y f)"
  shows "mono_option (\<lambda>f. bindc (B f) (\<lambda>y. C y f))"
proof (rule monotoneI)
  fix f g :: "'a \<Rightarrow> 'b option"
  assume fg: "fun_ord option_ord f g"
  have B': "option_ord (B f) (B g)" by (rule monotoneD[OF B]) (rule fg)
  have C': "option_ord (C y f) (C y g)" for y by (rule monotoneD[OF C]) (rule fg)
  show "option_ord (bindc (B f) (\<lambda>y. C y f)) (bindc (B g) (\<lambda>y. C y g))"
  proof (cases "B f")
    case (Some x)
    with B' have "B g = Some x" by (simp add: flat_ord_def)
    with Some C' show ?thesis by (cases x) (simp_all add: flat_ord_def)
  qed (simp add: flat_ord_def)
qed

section \<open>Byte buffers\<close>

definition get_at :: "nat \<Rightarrow> nat \<Rightarrow> 'a list \<Rightarrow> 'a list" where
  "get_at off n xs = take n (drop off xs)"

definition put_at :: "nat \<Rightarrow> bytes \<Rightarrow> bytes \<Rightarrow> bytes" where
  "put_at off bs xs =
     take off (xs @ replicate (off - length xs) 0) @ bs @ drop (off + length bs) xs"

lemma length_get_at [buf_simps]: "length (get_at off n xs) = min n (length xs - off)"
  by (simp add: get_at_def)

lemma get_at_full [simp]: "get_at 0 (length xs) xs = xs"
  by (simp add: get_at_def)

lemma nth_get_at: "i < n \<Longrightarrow> off + i < length xs \<Longrightarrow> get_at off n xs ! i = xs ! (off + i)"
  by (simp add: get_at_def)

lemma get_at_append_left: "off + n \<le> length xs \<Longrightarrow> get_at off n (xs @ ys) = get_at off n xs"
  by (simp add: get_at_def)

lemma get_at_get_at: "i + m \<le> n \<Longrightarrow> get_at i m (get_at off n xs) = get_at (off + i) m xs"
  by (simp add: get_at_def take_drop add.commute min_def)

lemma get_at_append_split:
  "get_at off (m + n) xs = get_at off m xs @ get_at (off + m) n xs"
  by (simp add: get_at_def take_add drop_drop add.commute)

lemma length_put_at [buf_simps]: "length (put_at off bs xs) = max (length xs) (off + length bs)"
  by (auto simp: put_at_def)

lemma nth_put_at_eq: "i < length bs \<Longrightarrow> put_at off bs xs ! (off + i) = bs ! i"
  by (auto simp: put_at_def nth_append min_def)

lemma nth_put_at_neq:
  assumes "i < length xs" and "i < off \<or> off + length bs \<le> i"
  shows "put_at off bs xs ! i = xs ! i"
  using assms by (auto simp: put_at_def nth_append min_def)

lemma get_at_put_at_same: "get_at off (length bs) (put_at off bs xs) = bs"
  by (simp add: put_at_def get_at_def)

lemma get_at_put_at_inside:
  assumes "i + n \<le> length bs"
  shows "get_at (off + i) n (put_at off bs xs) = get_at i n bs"
proof -
  have "get_at (off + i) n (put_at off bs xs) = get_at i n (get_at off (length bs) (put_at off bs xs))"
    using assms by (simp add: get_at_get_at)
  then show ?thesis by (simp add: get_at_put_at_same)
qed

lemma get_at_put_at_disjoint:
  assumes "off2 + n \<le> length xs" and "off2 + n \<le> off \<or> off + length bs \<le> off2"
  shows "get_at off2 n (put_at off bs xs) = get_at off2 n xs"
proof (rule nth_equalityI)
  show "length (get_at off2 n (put_at off bs xs)) = length (get_at off2 n xs)"
    using assms by (auto simp: buf_simps)
next
  fix i assume "i < length (get_at off2 n (put_at off bs xs))"
  then have "i < n" by (simp add: buf_simps)
  moreover have "off2 + i < length (put_at off bs xs)"
    using assms(1) \<open>i < n\<close> by (simp add: buf_simps)
  ultimately show "get_at off2 n (put_at off bs xs) ! i = get_at off2 n xs ! i"
    using assms by (auto simp: nth_get_at nth_put_at_neq)
qed

lemma put_at_end: "put_at (length xs) bs xs = xs @ bs"
  by (simp add: put_at_def)

lemma put_at_within:
  "off + length bs \<le> length xs \<Longrightarrow> put_at off bs xs = take off xs @ bs @ drop (off + length bs) xs"
  by (simp add: put_at_def)

text \<open>A copy out of a buffer and a copy into it, of bytes that lie within it.\<close>

definition mem_read :: "bytes \<Rightarrow> nat \<Rightarrow> nat \<Rightarrow> bytes comp" where
  "mem_read d off n = (if off + n \<le> length d then ret (get_at off n d) else undef)"

definition mem_write :: "bytes \<Rightarrow> nat \<Rightarrow> bytes \<Rightarrow> bytes comp" where
  "mem_write d off bs = (if off + length bs \<le> length d then ret (put_at off bs d) else undef)"

section \<open>Integers in buffers\<close>

text \<open>
  \<open>le_bytes n w\<close> is the \<open>n\<close> low bytes of \<open>w\<close>, least significant first, and
  \<open>le_val\<close> reads such a list back; the big-endian forms are their reversals.
\<close>

fun le_bytes :: "nat \<Rightarrow> 'a::len word \<Rightarrow> bytes" where
  "le_bytes 0 w = []"
| "le_bytes (Suc n) w = ucast w # le_bytes n (drop_bit 8 w)"

fun le_val :: "bytes \<Rightarrow> 'a::len word" where
  "le_val [] = 0"
| "le_val (b # bs) = ucast b OR push_bit 8 (le_val bs)"

definition be_bytes :: "nat \<Rightarrow> 'a::len word \<Rightarrow> bytes" where
  "be_bytes n w = rev (le_bytes n w)"

definition be_val :: "bytes \<Rightarrow> 'a::len word" where
  "be_val bs = le_val (rev bs)"

lemma length_le_bytes [buf_simps, simp]: "length (le_bytes n w) = n"
  by (induction n arbitrary: w) simp_all

lemma length_be_bytes [buf_simps, simp]: "length (be_bytes n w) = n"
  by (simp add: be_bytes_def)

lemma ucast_or_push_drop:
  fixes w :: "'a::len word"
  shows "ucast (ucast w :: 8 word) OR push_bit 8 (take_bit m (drop_bit 8 w)) = take_bit (8 + m) w"
  by (rule bit_word_eqI) (auto simp: bit_simps)

lemma le_val_le_bytes: "le_val (le_bytes n w) = take_bit (8 * n) w"
  by (induction n arbitrary: w) (simp_all add: ucast_or_push_drop)

lemma take_bit_full: "LENGTH('a) \<le> n \<Longrightarrow> take_bit n (w :: 'a::len word) = w"
  by (rule bit_word_eqI) (auto simp: bit_simps)

lemma le_roundtrip [enc_simps]:
  "LENGTH('a) \<le> 8 * n \<Longrightarrow> le_val (le_bytes n (w :: 'a::len word)) = w"
  by (simp add: le_val_le_bytes take_bit_full)

lemma be_roundtrip [enc_simps]:
  "LENGTH('a) \<le> 8 * n \<Longrightarrow> be_val (be_bytes n (w :: 'a::len word)) = w"
  by (simp add: be_val_def be_bytes_def le_roundtrip)

end
