(* ===== verification/Posix_File.thy ===== *)
theory Posix_File
  imports Prelude
begin

text \<open>
  The part of POSIX file I/O that the storage engine uses, and the two retry loops
  \<^verbatim>\<open>read_exact\<close> and \<^verbatim>\<open>write_exact\<close> that \<^verbatim>\<open>src/storage/pager.c\<close> and
  \<^verbatim>\<open>src/storage/wal.c\<close> both define.

  A file descriptor is a record of the file's bytes, the offset, whether it was opened for
  writing, and a schedule: what the kernel decides for the next calls (the empty schedule
  lets every call succeed in full).  A read or write may be interrupted, may fail, and may
  transfer fewer bytes than asked, but at least one when it transfers at all.
\<close>

section \<open>System calls\<close>

datatype sysdec = SysOk | SysShort nat | SysIntr | SysFail

record fdesc =
  fbytes :: bytes
  fpos :: nat
  fwritable :: bool
  fsched :: "sysdec list"

datatype 'a sysres = Got 'a | Intr | Fail

definition next_dec :: "fdesc \<Rightarrow> sysdec \<times> fdesc" where
  "next_dec f = (case fsched f of [] \<Rightarrow> (SysOk, f) | d # ds \<Rightarrow> (d, f\<lparr>fsched := ds\<rparr>))"

definition sys_read :: "nat \<Rightarrow> fdesc \<Rightarrow> bytes sysres \<times> fdesc" where
  "sys_read n f =
     (case next_dec f of (d, f') \<Rightarrow>
        let avail = get_at (fpos f') n (fbytes f') in
        (case d of
           SysOk \<Rightarrow> (Got avail, f'\<lparr>fpos := fpos f' + length avail\<rparr>)
         | SysShort k \<Rightarrow>
             let bs = take (max 1 k) avail in (Got bs, f'\<lparr>fpos := fpos f' + length bs\<rparr>)
         | SysIntr \<Rightarrow> (Intr, f')
         | SysFail \<Rightarrow> (Fail, f')))"

definition sys_write :: "bytes \<Rightarrow> fdesc \<Rightarrow> nat sysres \<times> fdesc" where
  "sys_write bs f =
     (case next_dec f of (d, f') \<Rightarrow>
        if \<not> fwritable f' then (Fail, f') else
        (case d of
           SysOk \<Rightarrow>
             (Got (length bs),
              f'\<lparr>fbytes := put_at (fpos f') bs (fbytes f'), fpos := fpos f' + length bs\<rparr>)
         | SysShort k \<Rightarrow>
             let cs = take (max 1 k) bs in
             (Got (length cs),
              f'\<lparr>fbytes := put_at (fpos f') cs (fbytes f'), fpos := fpos f' + length cs\<rparr>)
         | SysIntr \<Rightarrow> (Intr, f')
         | SysFail \<Rightarrow> (Fail, f')))"

text \<open>
  The calls below return whether they succeeded.  \<^verbatim>\<open>lseek\<close> on a regular file is not
  interruptible; \<^verbatim>\<open>ftruncate\<close> and \<^verbatim>\<open>fsync\<close> are, and the code does not retry them.
\<close>

definition sys_lseek :: "nat \<Rightarrow> fdesc \<Rightarrow> bool \<times> fdesc" where
  "sys_lseek off f =
     (case next_dec f of (d, f') \<Rightarrow>
        if d = SysFail then (False, f') else (True, f'\<lparr>fpos := off\<rparr>))"

definition sys_ftruncate :: "nat \<Rightarrow> fdesc \<Rightarrow> bool \<times> fdesc" where
  "sys_ftruncate n f =
     (case next_dec f of (d, f') \<Rightarrow>
        if d = SysFail \<or> d = SysIntr \<or> \<not> fwritable f' then (False, f')
        else (True, f'\<lparr>fbytes := take n (fbytes f') @ replicate (n - length (fbytes f')) 0\<rparr>))"

definition sys_fsync :: "fdesc \<Rightarrow> bool \<times> fdesc" where
  "sys_fsync f =
     (case next_dec f of (d, f') \<Rightarrow> (\<not> (d = SysFail \<or> d = SysIntr), f'))"

definition sys_fstat :: "fdesc \<Rightarrow> nat option \<times> fdesc" where
  "sys_fstat f =
     (case next_dec f of (d, f') \<Rightarrow>
        (if d = SysFail then None else Some (length (fbytes f')), f'))"

lemmas sys_defs =
  next_dec_def sys_read_def sys_write_def sys_lseek_def sys_ftruncate_def sys_fsync_def
  sys_fstat_def Let_def

section \<open>The retry loops\<close>

text \<open>
  \<^verbatim>\<open>read_exact\<close>: read again until \<open>count\<close> bytes are there; an interrupted call is
  repeated, end of file and any other error give up (\<open>None\<close>).
\<close>

function read_exact :: "nat \<Rightarrow> fdesc \<Rightarrow> bytes option \<times> fdesc" where
  "read_exact count f =
     (if count = 0 then (Some [], f) else
      case sys_read count f of
        (Intr, f') \<Rightarrow> read_exact count f'
      | (Fail, f') \<Rightarrow> (None, f')
      | (Got bs, f') \<Rightarrow>
          if bs = [] then (None, f') else
          (case read_exact (count - length bs) f' of
             (None, f'') \<Rightarrow> (None, f'')
           | (Some rest, f'') \<Rightarrow> (Some (bs @ rest), f'')))"
  by pat_completeness auto
termination
  by (relation "measure (\<lambda>(count, f). count + length (fsched f))")
    (auto simp: sys_defs get_at_def split: list.splits sysdec.splits)

text \<open>\<^verbatim>\<open>write_exact\<close>: write again until every byte is out.\<close>

function write_exact :: "bytes \<Rightarrow> fdesc \<Rightarrow> bool \<times> fdesc" where
  "write_exact bs f =
     (if bs = [] then (True, f) else
      case sys_write bs f of
        (Intr, f') \<Rightarrow> write_exact bs f'
      | (Fail, f') \<Rightarrow> (False, f')
      | (Got n, f') \<Rightarrow> write_exact (drop n bs) f')"
  by pat_completeness auto
termination
  by (relation "measure (\<lambda>(bs, f). length bs + length (fsched f))")
    (auto simp: sys_defs split: list.splits sysdec.splits if_splits)

declare read_exact.simps [simp del] write_exact.simps [simp del]

section \<open>What the calls keep\<close>

text \<open>
  \<open>nofail\<close>: the kernel reports no error but may interrupt and may transfer less;
  \<open>calm\<close>: it does not interrupt either.
\<close>

definition nofail :: "fdesc \<Rightarrow> bool" where
  "nofail f \<longleftrightarrow> SysFail \<notin> set (fsched f)"

definition calm :: "fdesc \<Rightarrow> bool" where
  "calm f \<longleftrightarrow> SysFail \<notin> set (fsched f) \<and> SysIntr \<notin> set (fsched f)"

definition same_env :: "fdesc \<Rightarrow> fdesc \<Rightarrow> bool" where
  "same_env f f' \<longleftrightarrow> fwritable f' = fwritable f \<and> set (fsched f') \<subseteq> set (fsched f)"

lemma calm_nofail [simp]: "calm f \<Longrightarrow> nofail f"
  by (simp add: calm_def nofail_def)

lemma same_env_refl [simp]: "same_env f f"
  by (simp add: same_env_def)

lemma same_env_trans [trans]: "same_env f g \<Longrightarrow> same_env g h \<Longrightarrow> same_env f h"
  by (auto simp: same_env_def)

lemma same_env_calm: "same_env f f' \<Longrightarrow> calm f \<Longrightarrow> calm f'"
  and same_env_nofail: "same_env f f' \<Longrightarrow> nofail f \<Longrightarrow> nofail f'"
  and same_env_writable: "same_env f f' \<Longrightarrow> fwritable f' = fwritable f"
  by (auto simp: same_env_def calm_def nofail_def)

lemma sys_lseek_ok:
  assumes "nofail f"
  shows "\<exists>f'. sys_lseek off f = (True, f') \<and> fpos f' = off \<and> fbytes f' = fbytes f \<and> same_env f f'"
  using assms by (auto simp: sys_defs nofail_def same_env_def split: list.splits)

lemma sys_ftruncate_ok:
  assumes "calm f" "fwritable f"
  shows "\<exists>f'. sys_ftruncate n f = (True, f') \<and> fpos f' = fpos f \<and>
    fbytes f' = take n (fbytes f) @ replicate (n - length (fbytes f)) 0 \<and> same_env f f'"
  using assms by (auto simp: sys_defs calm_def same_env_def split: list.splits)

lemma sys_fsync_ok:
  assumes "calm f"
  shows "\<exists>f'. sys_fsync f = (True, f') \<and> fpos f' = fpos f \<and> fbytes f' = fbytes f \<and> same_env f f'"
  using assms by (auto simp: sys_defs calm_def same_env_def split: list.splits)

lemma sys_fstat_ok:
  assumes "nofail f"
  shows "\<exists>f'. sys_fstat f = (Some (length (fbytes f)), f') \<and> fpos f' = fpos f \<and>
    fbytes f' = fbytes f \<and> same_env f f'"
  using assms by (auto simp: sys_defs nofail_def same_env_def split: list.splits)

section \<open>The loops are exact\<close>

text \<open>
  Under any schedule without an error, however often a call is interrupted or cut short,
  \<^verbatim>\<open>read_exact\<close> delivers exactly the bytes asked for if the file has them and
  \<^verbatim>\<open>write_exact\<close> stores exactly the bytes given.
\<close>

lemma sys_read_step:
  assumes "nofail f" "0 < n" "fpos f + n \<le> length (fbytes f)"
  shows "(\<exists>f'. sys_read n f = (Intr, f') \<and> fpos f' = fpos f \<and> fbytes f' = fbytes f \<and> same_env f f') \<or>
    (\<exists>k f'. 0 < k \<and> k \<le> n \<and> sys_read n f = (Got (get_at (fpos f) k (fbytes f)), f') \<and>
       fpos f' = fpos f + k \<and> fbytes f' = fbytes f \<and> same_env f f')"
proof -
  have *: "take j (get_at (fpos f) n (fbytes f)) = get_at (fpos f) (min j n) (fbytes f)" for j
    by (simp add: get_at_def)
  have l: "length (get_at (fpos f) n (fbytes f)) = n"
    using assms(3) by (simp add: buf_simps)
  show ?thesis
  proof (cases "fsched f")
    case Nil
    with assms(2) l show ?thesis by (auto simp: sys_defs same_env_def)
  next
    case (Cons d ds)
    with assms(1) have "d \<noteq> SysFail" "nofail (f\<lparr>fsched := ds\<rparr>)" by (auto simp: nofail_def)
    then show ?thesis
    proof (cases d)
      case (SysShort k)
      with Cons assms(2,3) l show ?thesis
        by (auto simp: sys_defs * same_env_def buf_simps min.commute intro!: exI[of _ "min n (max (Suc 0) k)"])
    qed (use Cons assms(2) l in \<open>auto simp: sys_defs same_env_def\<close>)
  qed
qed

lemma get_at_Some_append:
  "k \<le> n \<Longrightarrow> get_at off k xs @ get_at (off + k) (n - k) xs = get_at off n xs"
  using get_at_append_split[of off k "n - k" xs] by simp

lemma read_exact_ok:
  assumes "nofail f" "fpos f + n \<le> length (fbytes f)"
  shows "\<exists>f'. read_exact n f = (Some (get_at (fpos f) n (fbytes f)), f') \<and>
    fpos f' = fpos f + n \<and> fbytes f' = fbytes f \<and> same_env f f'"
  using assms
proof (induction n f rule: read_exact.induct)
  case (1 n f)
  show ?case
  proof (cases "n = 0")
    case True
    then show ?thesis by (simp add: read_exact.simps[of 0 f] get_at_def)
  next
    case False
    then consider
        (intr) f' where "sys_read n f = (Intr, f')" "fpos f' = fpos f" "fbytes f' = fbytes f"
          "same_env f f'"
      | (got) k f' where "0 < k" "k \<le> n" "sys_read n f = (Got (get_at (fpos f) k (fbytes f)), f')"
          "fpos f' = fpos f + k" "fbytes f' = fbytes f" "same_env f f'"
      using sys_read_step[of f n] "1.prems" by blast
    then show ?thesis
    proof cases
      case intr
      with "1.IH"(2)[OF False intr(1)[symmetric] refl] "1.prems" False show ?thesis
        by (auto simp: read_exact.simps[of n f] same_env_nofail intro: same_env_trans[OF intr(4)])
    next
      case got
      let ?bs = "get_at (fpos f) k (fbytes f)"
      have l: "length ?bs = k" "?bs \<noteq> []"
        using "1.prems"(2) got(1,2) by (auto simp: buf_simps get_at_def)
      from "1.IH"(1)[OF False got(3)[symmetric] refl l(2)] got "1.prems" l
      obtain f'' where "read_exact (n - k) f' = (Some (get_at (fpos f + k) (n - k) (fbytes f)), f'')"
        "fpos f'' = fpos f + n" "fbytes f'' = fbytes f" "same_env f' f''"
        by (auto simp: same_env_nofail)
      with got l False show ?thesis
        by (auto simp: read_exact.simps[of n f] get_at_Some_append intro: same_env_trans[OF got(6)])
    qed
  qed
qed

text \<open>A read past the end of the file fails, whatever the schedule.\<close>

lemma sys_read_got:
  assumes "sys_read n f = (Got bs, f')"
  shows "length bs \<le> n \<and> length bs \<le> length (fbytes f) - fpos f \<and> fbytes f' = fbytes f \<and>
    fpos f' = fpos f + length bs"
  using assms by (auto simp: sys_defs get_at_def split: list.splits sysdec.splits)

lemma sys_read_intr:
  "sys_read n f = (Intr, f') \<Longrightarrow> fbytes f' = fbytes f \<and> fpos f' = fpos f"
  by (auto simp: sys_defs split: list.splits sysdec.splits)

lemma read_exact_eof:
  "0 < n \<Longrightarrow> length (fbytes f) < fpos f + n \<Longrightarrow> fst (read_exact n f) = None"
proof (induction n f rule: read_exact.induct)
  case (1 n f)
  show ?case
  proof (cases "sys_read n f")
    case (Pair r f')
    show ?thesis
    proof (cases r)
      case (Got bs)
      with Pair have b: "length bs \<le> n" "length bs \<le> length (fbytes f) - fpos f"
        "fbytes f' = fbytes f" "fpos f' = fpos f + length bs"
        using sys_read_got[of n f bs f'] by simp_all
      show ?thesis
      proof (cases "bs = []")
        case True
        with Pair Got "1.prems" show ?thesis by (simp add: read_exact.simps[of n f])
      next
        case False
        have "fst (read_exact (n - length bs) f') = None"
          using "1.IH"(1)[OF _ Pair[symmetric] Got False] "1.prems" b by (cases "length bs = n") auto
        with Pair Got False "1.prems" show ?thesis
          by (auto simp: read_exact.simps[of n f] split: prod.splits option.splits)
      qed
    next
      case Intr
      with Pair "1.IH"(2)[OF _ Pair[symmetric] Intr] "1.prems" sys_read_intr[of n f f'] show ?thesis
        by (simp add: read_exact.simps[of n f])
    next
      case Fail
      with Pair "1.prems" show ?thesis by (simp add: read_exact.simps[of n f])
    qed
  qed
qed

lemma sys_read_env: "sys_read n f = (r, f') \<Longrightarrow> fbytes f' = fbytes f \<and> same_env f f'"
  by (auto simp: sys_defs same_env_def split: list.splits sysdec.splits)

lemma read_exact_keeps:
  assumes "read_exact n f = (r, f')"
  shows "fbytes f' = fbytes f \<and> same_env f f'"
  using assms
proof (induction n f arbitrary: r f' rule: read_exact.induct)
  case (1 n f)
  obtain x g where s: "sys_read n f = (x, g)" by (cases "sys_read n f")
  have g: "fbytes g = fbytes f" and e: "same_env f g" using sys_read_env[OF s] by simp_all
  note unf = "1.prems"[unfolded read_exact.simps[of n f] s prod.case]
  show ?case
  proof (cases "n = 0 \<or> x = Fail \<or> x = Got []")
    case True
    with unf g e show ?thesis by (auto split: if_splits)
  next
    case False
    then consider (intr) "x = Intr" | (got) bs where "x = Got bs" "bs \<noteq> []"
      by (cases x) auto
    then show ?thesis
    proof cases
      case intr
      with False unf have "read_exact n g = (r, f')" by simp
      from "1.IH"(2)[OF _ s[symmetric] intr this] False g show ?thesis
        using same_env_trans[OF e, of f'] by simp
    next
      case got
      obtain r' h where h: "read_exact (n - length bs) g = (r', h)" by fastforce
      with got False unf have "f' = h" by (auto split: option.splits)
      with "1.IH"(1)[OF _ s[symmetric] got h] False g show ?thesis
        using same_env_trans[OF e, of f'] by simp
    qed
  qed
qed

lemma sys_write_step:
  assumes "nofail f" "fwritable f" "bs \<noteq> []"
  shows "(\<exists>f'. sys_write bs f = (Intr, f') \<and> fpos f' = fpos f \<and> fbytes f' = fbytes f \<and> same_env f f') \<or>
    (\<exists>k f'. 0 < k \<and> k \<le> length bs \<and> sys_write bs f = (Got k, f') \<and>
       fpos f' = fpos f + k \<and> fbytes f' = put_at (fpos f) (take k bs) (fbytes f) \<and> same_env f f')"
proof (cases "fsched f")
  case Nil
  with assms show ?thesis by (auto simp: sys_defs same_env_def)
next
  case (Cons d ds)
  with assms(1) have "d \<noteq> SysFail" by (auto simp: nofail_def)
  then show ?thesis
  proof (cases d)
    case (SysShort k)
    have "take (max (Suc 0) k) bs = take (min (max (Suc 0) k) (length bs)) bs"
      using take_take[of "max (Suc 0) k" "length bs" bs] by simp
    with SysShort Cons assms(2,3) show ?thesis
      by (auto simp: sys_defs same_env_def min.commute
          intro!: exI[of _ "min (max (Suc 0) k) (length bs)"])
  qed (use Cons assms(2,3) in \<open>auto simp: sys_defs same_env_def\<close>)
qed

lemma put_at_put_at_append:
  "put_at (off + length as) bs (put_at off as xs) = put_at off (as @ bs) xs"
  by (auto simp: put_at_def min_def ac_simps)

lemma write_exact_ok:
  assumes "nofail f" "fwritable f"
  shows "\<exists>f'. write_exact bs f = (True, f') \<and> fpos f' = fpos f + length bs \<and>
    fbytes f' = (if bs = [] then fbytes f else put_at (fpos f) bs (fbytes f)) \<and> same_env f f'"
  using assms
proof (induction bs f rule: write_exact.induct)
  case (1 bs f)
  show ?case
  proof (cases "bs = []")
    case True
    then show ?thesis by (simp add: write_exact.simps[of "[]" f])
  next
    case False
    then consider
        (intr) f' where "sys_write bs f = (Intr, f')" "fpos f' = fpos f" "fbytes f' = fbytes f"
          "same_env f f'"
      | (got) k f' where "0 < k" "k \<le> length bs" "sys_write bs f = (Got k, f')"
          "fpos f' = fpos f + k" "fbytes f' = put_at (fpos f) (take k bs) (fbytes f)" "same_env f f'"
      using sys_write_step[of f bs] "1.prems" by blast
    then show ?thesis
    proof cases
      case intr
      have "nofail f'" "fwritable f'"
        using "1.prems" intr(4) by (auto simp: same_env_nofail same_env_writable)
      from "1.IH"(2)[OF False intr(1)[symmetric] refl this] obtain f'' where
        "write_exact bs f' = (True, f'')" "fpos f'' = fpos f' + length bs"
        "fbytes f'' = put_at (fpos f') bs (fbytes f')" "same_env f' f''" using False by auto
      with intr False show ?thesis
        using same_env_trans[OF intr(4), of f''] by (simp add: write_exact.simps[of bs f])
    next
      case got
      have e: "nofail f'" "fwritable f'"
        using "1.prems" got(6) by (auto simp: same_env_nofail same_env_writable)
      have l: "length (take k bs) = k" using got(2) by simp
      have p: "put_at (fpos f + k) (drop k bs) (put_at (fpos f) (take k bs) (fbytes f)) =
          put_at (fpos f) bs (fbytes f)"
        using put_at_put_at_append[of "fpos f" "take k bs" "drop k bs" "fbytes f"] l by simp
      from "1.IH"(1)[OF False got(3)[symmetric] refl e] obtain f'' where f'':
        "write_exact (drop k bs) f' = (True, f'')" "fpos f'' = fpos f' + length (drop k bs)"
        "fbytes f'' = (if drop k bs = [] then fbytes f' else put_at (fpos f') (drop k bs) (fbytes f'))"
        "same_env f' f''" by blast
      have "fbytes f'' = put_at (fpos f) bs (fbytes f)"
        using f''(3) got(4,5) p by (cases "drop k bs = []") auto
      moreover have "fpos f'' = fpos f + length bs"
        using f''(2) got(2,4) by simp
      moreover have "write_exact bs f = (True, f'')"
        using False got(3) f''(1) by (simp add: write_exact.simps[of bs f])
      ultimately show ?thesis
        using same_env_trans[OF got(6) f''(4)] False by (intro exI[of _ f'']) simp
    qed
  qed
qed


text \<open>The two sequences every client performs: position, then transfer.\<close>

lemma seek_read_ok:
  assumes "nofail f" "off + n \<le> length (fbytes f)"
  obtains g f' where "sys_lseek off f = (True, g)"
    "read_exact n g = (Some (get_at off n (fbytes f)), f')"
    "fbytes f' = fbytes f" "same_env f f'"
proof -
  obtain g where g: "sys_lseek off f = (True, g)" "fpos g = off" "fbytes g = fbytes f" "same_env f g"
    using sys_lseek_ok[OF assms(1)] by blast
  have "nofail g" by (rule same_env_nofail[OF g(4) assms(1)])
  from read_exact_ok[OF this, of n] obtain f' where
    "read_exact n g = (Some (get_at off n (fbytes f)), f')" "fbytes f' = fbytes f" "same_env g f'"
    using g assms(2) by auto
  then show thesis by (rule that[OF g(1) _ _ same_env_trans[OF g(4)]])
qed

lemma seek_write_ok:
  assumes "nofail f" "fwritable f" "bs \<noteq> []"
  obtains g f' where "sys_lseek off f = (True, g)" "write_exact bs g = (True, f')"
    "fbytes f' = put_at off bs (fbytes f)" "same_env f f'"
proof -
  obtain g where g: "sys_lseek off f = (True, g)" "fpos g = off" "fbytes g = fbytes f" "same_env f g"
    using sys_lseek_ok[OF assms(1)] by blast
  have "nofail g" "fwritable g"
    using same_env_nofail[OF g(4) assms(1)] same_env_writable[OF g(4)] assms(2) by auto
  from write_exact_ok[OF this, of bs] obtain f' where
    "write_exact bs g = (True, f')" "fbytes f' = put_at off bs (fbytes f)" "same_env g f'"
    using g assms(3) by auto
  then show thesis by (rule that[OF g(1) _ _ same_env_trans[OF g(4)]])
qed

end
