(* ===== verification/Page_Store.thy ===== *)
theory Page_Store
  imports Prelude
begin

text \<open>
  The interface between the pager and its clients: a store of fixed-size pages in which a
  page read returns what was last written to that page.  The pager provides it (theory
  \<open>Pager\<close>); the page cache relies on it.
\<close>

text \<open>Writing a list of pages, stopping at the first failure.\<close>

fun write_all :: "(u32 \<Rightarrow> bytes \<Rightarrow> 's \<Rightarrow> bool \<times> 's) \<Rightarrow> (u32 \<times> bytes) list \<Rightarrow> 's \<Rightarrow> bool \<times> 's" where
  "write_all wr [] s = (True, s)"
| "write_all wr ((p, b) # ps) s =
     (case wr p b s of (False, s) \<Rightarrow> (False, s) | (True, s) \<Rightarrow> write_all wr ps s)"

locale page_store =
  fixes ready :: "'s \<Rightarrow> bool"
    and valid :: "'s \<Rightarrow> u32 \<Rightarrow> bool"
    and page_of :: "'s \<Rightarrow> u32 \<Rightarrow> bytes"
    and rd :: "u32 \<Rightarrow> 's \<Rightarrow> bytes option \<times> 's"
    and wr :: "u32 \<Rightarrow> bytes \<Rightarrow> 's \<Rightarrow> bool \<times> 's"
  assumes page_len: "ready s \<Longrightarrow> valid s p \<Longrightarrow> length (page_of s p) = PAGE_SIZE"
    and rd_law: "ready s \<Longrightarrow> valid s p \<Longrightarrow>
      \<exists>s'. rd p s = (Some (page_of s p), s') \<and> ready s' \<and> valid s' = valid s \<and>
           (\<forall>q. valid s q \<longrightarrow> page_of s' q = page_of s q)"
    and wr_law: "ready s \<Longrightarrow> valid s p \<Longrightarrow> length b = PAGE_SIZE \<Longrightarrow>
      \<exists>s'. wr p b s = (True, s') \<and> ready s' \<and> valid s' = valid s \<and>
           (\<forall>q. valid s q \<longrightarrow> page_of s' q = (if q = p then b else page_of s q))"
begin

lemma rd_after_wr:
  assumes "ready s" "valid s p" "valid s q" "length b = PAGE_SIZE"
  shows "\<exists>s' s''. wr p b s = (True, s') \<and>
    rd q s' = (Some (if q = p then b else page_of s q), s'')"
proof -
  obtain s' where w: "wr p b s = (True, s')" "ready s'" "valid s' = valid s"
    "\<forall>r. valid s r \<longrightarrow> page_of s' r = (if r = p then b else page_of s r)"
    using wr_law[OF assms(1,2,4)] by blast
  then obtain s'' where "rd q s' = (Some (page_of s' q), s'')"
    using rd_law[of s' q] assms(3) by auto
  with w assms(3) show ?thesis by auto
qed

lemma write_all_law:
  assumes "ready s" "\<forall>(p, b) \<in> set ps. valid s p \<and> length b = PAGE_SIZE"
  shows "\<exists>s'. write_all wr ps s = (True, s') \<and> ready s' \<and> valid s' = valid s \<and>
    (\<forall>q. valid s q \<longrightarrow>
       page_of s' q = (case map_of (rev ps) q of Some b \<Rightarrow> b | None \<Rightarrow> page_of s q))"
  using assms
proof (induction ps arbitrary: s)
  case (Cons pb ps)
  obtain p b where pb: "pb = (p, b)" by force
  obtain t where t: "wr p b s = (True, t)" "ready t" "valid t = valid s"
    "\<forall>r. valid s r \<longrightarrow> page_of t r = (if r = p then b else page_of s r)"
    using wr_law[of s p b] Cons.prems pb by auto
  then obtain s' where "write_all wr ps t = (True, s')" "ready s'" "valid s' = valid t"
    "\<forall>q. valid t q \<longrightarrow>
       page_of s' q = (case map_of (rev ps) q of Some b \<Rightarrow> b | None \<Rightarrow> page_of t q)"
    using Cons.IH[of t] Cons.prems by auto
  with t pb show ?case
    by (intro exI[of _ s']) (auto simp: map_add_def split: option.splits)
qed simp

end

end
