(* ===== verification/Pager.thy ===== *)
theory Pager
  imports Posix_File Page_Store
begin

text \<open>
  The pager, \<^verbatim>\<open>src/storage/pager.c\<close>: page-granular I/O on the database file, the header
  page, and the list of free pages that is threaded through the free pages themselves.

  A \<open>Pager\<close> record is \<^verbatim>\<open>struct Pager\<close> without the path (never read after opening) and
  the mutex (every operation runs under it from its first access to the file to its last).
  An operation returns its result, \<open>None\<close> or \<open>False\<close> for the C result
  \<^verbatim>\<open>-1\<close>, and the pager after the call: the state also changes on some error paths.
  A pager handle is never \<^verbatim>\<open>NULL\<close> here, and a buffer that is written holds at least a page.  The lemmas show that page reads and writes
  implement the interface \<open>page_store\<close>, and that freeing and allocating pages is a
  stack kept in the file.
\<close>

section \<open>The database header\<close>

record DatabaseHeader =
  dh_magic :: u32
  dh_version :: u32
  dh_format_version :: u32
  dh_reserved :: u32
  dh_page_count :: u32
  dh_first_free_page :: u32
  dh_free_page_count :: u32
  dh_schema_root :: u32
  dh_wal_frame_count :: u32
  dh_wal_checksum_1 :: u32
  dh_wal_checksum_2 :: u32
  dh_database_size :: u32

definition PAGER_MAGIC :: u32 where
  "PAGER_MAGIC = 0x54494E59"

definition HEADER_SIZE :: nat where
  "HEADER_SIZE = 48"

text \<open>The first \<^verbatim>\<open>HEADER_SIZE\<close> bytes of the packed structure, and their reading.\<close>

definition header_bytes :: "DatabaseHeader \<Rightarrow> bytes" where
  "header_bytes h = concat (map (le_bytes 4)
     [dh_magic h, dh_version h, dh_format_version h, dh_reserved h, dh_page_count h,
      dh_first_free_page h, dh_free_page_count h, dh_schema_root h, dh_wal_frame_count h,
      dh_wal_checksum_1 h, dh_wal_checksum_2 h, dh_database_size h])"

definition header_of_bytes :: "bytes \<Rightarrow> DatabaseHeader" where
  "header_of_bytes bs =
     \<lparr>dh_magic = le_val (get_at 0 4 bs), dh_version = le_val (get_at 4 4 bs),
      dh_format_version = le_val (get_at 8 4 bs), dh_reserved = le_val (get_at 12 4 bs),
      dh_page_count = le_val (get_at 16 4 bs), dh_first_free_page = le_val (get_at 20 4 bs),
      dh_free_page_count = le_val (get_at 24 4 bs), dh_schema_root = le_val (get_at 28 4 bs),
      dh_wal_frame_count = le_val (get_at 32 4 bs), dh_wal_checksum_1 = le_val (get_at 36 4 bs),
      dh_wal_checksum_2 = le_val (get_at 40 4 bs), dh_database_size = le_val (get_at 44 4 bs)\<rparr>"

text \<open>\<^verbatim>\<open>get_page_offset\<close>: the product is taken in the 64-bit type \<^verbatim>\<open>off_t\<close>.\<close>

definition get_page_offset :: "u32 \<Rightarrow> nat" where
  "get_page_offset page_num = unat page_num * PAGE_SIZE"

definition read_header :: "fdesc \<Rightarrow> DatabaseHeader option \<times> fdesc" where
  "read_header f =
     (case sys_lseek 0 f of
        (False, f) \<Rightarrow> (None, f)
      | (True, f) \<Rightarrow>
          (case read_exact HEADER_SIZE f of
             (None, f) \<Rightarrow> (None, f)
           | (Some bs, f) \<Rightarrow> (Some (header_of_bytes bs), f)))"

definition write_header :: "DatabaseHeader \<Rightarrow> fdesc \<Rightarrow> bool \<times> fdesc" where
  "write_header h f =
     (case sys_lseek 0 f of
        (False, f) \<Rightarrow> (False, f)
      | (True, f) \<Rightarrow> write_exact (header_bytes h) f)"

definition init_header :: DatabaseHeader where
  "init_header =
     \<lparr>dh_magic = PAGER_MAGIC, dh_version = 1, dh_format_version = 1, dh_reserved = 0,
      dh_page_count = 1, dh_first_free_page = 0, dh_free_page_count = 0, dh_schema_root = 0,
      dh_wal_frame_count = 0, dh_wal_checksum_1 = 0, dh_wal_checksum_2 = 0,
      dh_database_size = 1\<rparr>"

section \<open>The pager and its life cycle\<close>

record Pager =
  p_fd :: fdesc
  p_page_count :: u32
  p_first_free_page :: u32
  p_free_page_count :: u32
  p_file_size :: nat
  p_is_open :: bool

text \<open>
  \<^verbatim>\<open>pager_open\<close>: the arguments are the results of \<^verbatim>\<open>open(path, O_RDWR)\<close> and, should
  that fail, of \<^verbatim>\<open>open(path, O_RDONLY)\<close>.
\<close>

definition pager_open :: "fdesc option \<Rightarrow> fdesc option \<Rightarrow> Pager option" where
  "pager_open rdwr rdonly =
     (case (case rdwr of Some f \<Rightarrow> Some f | None \<Rightarrow> rdonly) of
        None \<Rightarrow> None
      | Some f \<Rightarrow>
          (case sys_fstat f of
             (None, f) \<Rightarrow> None
           | (Some st_size, f) \<Rightarrow>
               (case read_header f of
                  (None, f) \<Rightarrow> None
                | (Some header, f) \<Rightarrow>
                    if dh_magic header \<noteq> PAGER_MAGIC then None
                    else Some \<lparr>p_fd = f, p_page_count = dh_page_count header,
                               p_first_free_page = dh_first_free_page header,
                               p_free_page_count = dh_free_page_count header,
                               p_file_size = st_size, p_is_open = True\<rparr>)))"

text \<open>\<^verbatim>\<open>pager_create\<close>: the argument is the result of opening with \<^verbatim>\<open>O_CREAT | O_TRUNC\<close>.\<close>

definition pager_create :: "fdesc option \<Rightarrow> Pager option" where
  "pager_create created =
     (case created of
        None \<Rightarrow> None
      | Some f \<Rightarrow>
          (case write_header init_header f of
             (False, f) \<Rightarrow> None
           | (True, f) \<Rightarrow>
               (case sys_fsync f of
                  (False, f) \<Rightarrow> None
                | (True, f) \<Rightarrow>
                    Some \<lparr>p_fd = f, p_page_count = 1, p_first_free_page = 0,
                          p_free_page_count = 0, p_file_size = PAGE_SIZE, p_is_open = True\<rparr>)))"

text \<open>\<^verbatim>\<open>pager_close\<close> returns the file as it leaves it; the result of \<^verbatim>\<open>fsync\<close> is ignored.\<close>

definition pager_close :: "Pager \<Rightarrow> fdesc" where
  "pager_close pg =
     (if p_is_open pg \<and> 0 < p_file_size pg then snd (sys_fsync (p_fd pg)) else p_fd pg)"

definition pager_flush :: "Pager \<Rightarrow> bool \<times> Pager" where
  "pager_flush pg = (case sys_fsync (p_fd pg) of (ok, f) \<Rightarrow> (ok, pg\<lparr>p_fd := f\<rparr>))"

record PagerStats =
  ps_page_count :: u32
  ps_first_free_page :: u32
  ps_free_page_count :: u32
  ps_file_size :: nat

definition pager_stats :: "Pager \<Rightarrow> PagerStats" where
  "pager_stats pg =
     \<lparr>ps_page_count = p_page_count pg, ps_first_free_page = p_first_free_page pg,
      ps_free_page_count = p_free_page_count pg, ps_file_size = p_file_size pg\<rparr>"

section \<open>Page I/O\<close>

definition pager_read_page :: "u32 \<Rightarrow> Pager \<Rightarrow> bytes option \<times> Pager" where
  "pager_read_page page_num pg =
     (if p_page_count pg \<le> page_num \<and> page_num \<noteq> 0 then (None, pg) else
      case sys_lseek (get_page_offset page_num) (p_fd pg) of
        (False, f) \<Rightarrow> (None, pg\<lparr>p_fd := f\<rparr>)
      | (True, f) \<Rightarrow>
          (case read_exact PAGE_SIZE f of (r, f) \<Rightarrow> (r, pg\<lparr>p_fd := f\<rparr>)))"

definition pager_write_page :: "u32 \<Rightarrow> bytes \<Rightarrow> Pager \<Rightarrow> bool \<times> Pager" where
  "pager_write_page page_num buf pg =
     (let offset = get_page_offset page_num in
      case sys_lseek offset (p_fd pg) of
        (False, f) \<Rightarrow> (False, pg\<lparr>p_fd := f\<rparr>)
      | (True, f) \<Rightarrow>
          (case write_exact (take PAGE_SIZE buf) f of
             (False, f) \<Rightarrow> (False, pg\<lparr>p_fd := f\<rparr>)
           | (True, f) \<Rightarrow>
               let new_size = offset + PAGE_SIZE in
               (True, pg\<lparr>p_fd := f,
                         p_file_size := if new_size > p_file_size pg then new_size
                                        else p_file_size pg\<rparr>)))"

text \<open>
  \<^verbatim>\<open>pager_allocate_page\<close>: the head of the free list if there is one, else a new page at
  the end of the file.  The page counter is advanced before the header is rewritten, and
  stays advanced when that fails.
\<close>

definition pager_allocate_page :: "Pager \<Rightarrow> u32 option \<times> Pager" where
  "pager_allocate_page pg =
     (if p_first_free_page pg \<noteq> 0 then
        (let new_page = p_first_free_page pg in
         case sys_lseek (get_page_offset new_page) (p_fd pg) of
           (False, f) \<Rightarrow> (None, pg\<lparr>p_fd := f\<rparr>)
         | (True, f) \<Rightarrow>
             (case read_exact PAGE_SIZE f of
                (None, f) \<Rightarrow> (None, pg\<lparr>p_fd := f\<rparr>)
              | (Some buf, f) \<Rightarrow>
                  (Some new_page,
                   pg\<lparr>p_fd := f, p_first_free_page := le_val (get_at 0 4 buf),
                      p_free_page_count := p_free_page_count pg - 1\<rparr>)))
      else
        (let new_page = p_page_count pg; pg = pg\<lparr>p_page_count := new_page + 1\<rparr> in
         case read_header (p_fd pg) of
           (None, f) \<Rightarrow> (None, pg\<lparr>p_fd := f\<rparr>)
         | (Some header, f) \<Rightarrow>
             (case write_header (header\<lparr>dh_page_count := p_page_count pg\<rparr>) f of
                (False, f) \<Rightarrow> (None, pg\<lparr>p_fd := f\<rparr>)
              | (True, f) \<Rightarrow>
                  let new_size = get_page_offset (new_page + 1) in
                  (case sys_ftruncate new_size f of
                     (False, f) \<Rightarrow> (None, pg\<lparr>p_fd := f\<rparr>)
                   | (True, f) \<Rightarrow> (Some new_page, pg\<lparr>p_fd := f, p_file_size := new_size\<rparr>)))))"

definition pager_free_page :: "u32 \<Rightarrow> Pager \<Rightarrow> bool \<times> Pager" where
  "pager_free_page page_num pg =
     (if page_num = 0 then (False, pg) else
      let buf = le_bytes 4 (p_first_free_page pg) @ replicate (PAGE_SIZE - 4) 0 in
      case sys_lseek (get_page_offset page_num) (p_fd pg) of
        (False, f) \<Rightarrow> (False, pg\<lparr>p_fd := f\<rparr>)
      | (True, f) \<Rightarrow>
          (case write_exact buf f of
             (False, f) \<Rightarrow> (False, pg\<lparr>p_fd := f\<rparr>)
           | (True, f) \<Rightarrow>
               let pg = pg\<lparr>p_first_free_page := page_num,
                           p_free_page_count := p_free_page_count pg + 1\<rparr> in
               (case read_header f of
                  (None, f) \<Rightarrow> (False, pg\<lparr>p_fd := f\<rparr>)
                | (Some header, f) \<Rightarrow>
                    (case write_header
                            (header\<lparr>dh_first_free_page := p_first_free_page pg,
                                    dh_free_page_count := p_free_page_count pg\<rparr>) f of
                       (ok, f) \<Rightarrow> (ok, pg\<lparr>p_fd := f\<rparr>)))))"

definition pager_sync :: "Pager \<Rightarrow> bool \<times> Pager" where
  "pager_sync pg = (case sys_fsync (p_fd pg) of (ok, f) \<Rightarrow> (ok, pg\<lparr>p_fd := f\<rparr>))"

section \<open>Header page operations and utilities\<close>

definition pager_read_header :: "Pager \<Rightarrow> bytes option \<times> Pager" where
  "pager_read_header pg = pager_read_page 0 pg"

definition pager_write_header :: "bytes \<Rightarrow> Pager \<Rightarrow> bool \<times> Pager" where
  "pager_write_header buf pg = pager_write_page 0 buf pg"

definition pager_validate_magic :: "Pager \<Rightarrow> bool \<times> Pager" where
  "pager_validate_magic pg =
     (case read_header (p_fd pg) of
        (None, f) \<Rightarrow> (False, pg\<lparr>p_fd := f\<rparr>)
      | (Some header, f) \<Rightarrow> (dh_magic header = PAGER_MAGIC, pg\<lparr>p_fd := f\<rparr>))"

definition pager_update_page_count :: "u32 \<Rightarrow> Pager \<Rightarrow> bool \<times> Pager" where
  "pager_update_page_count count pg =
     (case read_header (p_fd pg) of
        (None, f) \<Rightarrow> (False, pg\<lparr>p_fd := f\<rparr>)
      | (Some header, f) \<Rightarrow>
          (case write_header (header\<lparr>dh_page_count := count\<rparr>) f of
             (ok, f) \<Rightarrow> (ok, pg\<lparr>p_fd := f, p_page_count := count\<rparr>)))"

definition pager_update_freelist :: "u32 \<Rightarrow> u32 \<Rightarrow> Pager \<Rightarrow> bool \<times> Pager" where
  "pager_update_freelist first_free count pg =
     (case read_header (p_fd pg) of
        (None, f) \<Rightarrow> (False, pg\<lparr>p_fd := f\<rparr>)
      | (Some header, f) \<Rightarrow>
          (case write_header
                  (header\<lparr>dh_first_free_page := first_free, dh_free_page_count := count\<rparr>) f of
             (ok, f) \<Rightarrow>
               (ok, pg\<lparr>p_fd := f, p_first_free_page := first_free, p_free_page_count := count\<rparr>)))"

definition pager_is_valid_page :: "Pager \<Rightarrow> u32 \<Rightarrow> bool" where
  "pager_is_valid_page pg page_num \<longleftrightarrow> page_num < p_page_count pg \<or> page_num = 0"

definition pager_get_page_offset :: "u32 \<Rightarrow> nat" where
  "pager_get_page_offset page_num = get_page_offset page_num"

definition pager_truncate :: "nat \<Rightarrow> Pager \<Rightarrow> bool \<times> Pager" where
  "pager_truncate sz pg =
     (case sys_ftruncate sz (p_fd pg) of
        (False, f) \<Rightarrow> (False, pg\<lparr>p_fd := f\<rparr>)
      | (True, f) \<Rightarrow> (True, pg\<lparr>p_fd := f, p_file_size := sz\<rparr>))"

section \<open>The header on disk\<close>

lemma length_header_bytes [simp]: "length (header_bytes h) = HEADER_SIZE"
  by (simp add: header_bytes_def HEADER_SIZE_def)

lemma header_roundtrip: "header_of_bytes (header_bytes h) = h"
  by (cases h) (simp add: header_bytes_def header_of_bytes_def get_at_def enc_simps)

lemma read_header_ok:
  assumes "nofail f" "HEADER_SIZE \<le> length (fbytes f)"
  obtains f' where "read_header f = (Some (header_of_bytes (get_at 0 HEADER_SIZE (fbytes f))), f')"
    "fbytes f' = fbytes f" "same_env f f'"
proof -
  have "0 + HEADER_SIZE \<le> length (fbytes f)" using assms(2) by simp
  then obtain g f' where "sys_lseek 0 f = (True, g)"
    "read_exact HEADER_SIZE g = (Some (get_at 0 HEADER_SIZE (fbytes f)), f')"
    and "fbytes f' = fbytes f" "same_env f f'"
    by (rule seek_read_ok[OF assms(1)])
  then show thesis by (intro that[of f']) (simp_all add: read_header_def)
qed

lemma write_header_ok:
  assumes "nofail f" "fwritable f"
  obtains f' where "write_header h f = (True, f')"
    "fbytes f' = put_at 0 (header_bytes h) (fbytes f)" "same_env f f'"
proof -
  have "header_bytes h \<noteq> []"
    by (metis length_header_bytes HEADER_SIZE_def list.size(3) zero_neq_numeral)
  then obtain g f' where "sys_lseek 0 f = (True, g)" "write_exact (header_bytes h) g = (True, f')"
    and "fbytes f' = put_at 0 (header_bytes h) (fbytes f)" "same_env f f'"
    by (rule seek_write_ok[OF assms])
  then show thesis by (intro that[of f']) (simp_all add: write_header_def)
qed

section \<open>The pager is a page store\<close>

definition pager_ready :: "Pager \<Rightarrow> bool" where
  "pager_ready pg \<longleftrightarrow> nofail (p_fd pg) \<and> fwritable (p_fd pg)"

text \<open>A page the pager accepts and that lies within the file.\<close>

definition pager_valid :: "Pager \<Rightarrow> u32 \<Rightarrow> bool" where
  "pager_valid pg p \<longleftrightarrow>
     pager_is_valid_page pg p \<and> get_page_offset p + PAGE_SIZE \<le> length (fbytes (p_fd pg))"

definition pager_page :: "Pager \<Rightarrow> u32 \<Rightarrow> bytes" where
  "pager_page pg p = get_at (get_page_offset p) PAGE_SIZE (fbytes (p_fd pg))"

lemma page_offset_inj:
  assumes "p \<noteq> q"
  shows "get_page_offset p + PAGE_SIZE \<le> get_page_offset q \<or>
    get_page_offset q + PAGE_SIZE \<le> get_page_offset p"
proof -
  have "unat p < unat q \<or> unat q < unat p"
    using assms word_unat_eq_iff linorder_neq_iff by metis
  then show ?thesis by (auto simp: get_page_offset_def PAGE_SIZE_def)
qed

lemma PAGE_SIZE_pos [simp]: "0 < PAGE_SIZE"
  by (simp add: PAGE_SIZE_def)

lemma pager_read_page_ok:
  assumes "nofail (p_fd pg)" "pager_valid pg p"
  obtains f' where "pager_read_page p pg = (Some (pager_page pg p), pg\<lparr>p_fd := f'\<rparr>)"
    "fbytes f' = fbytes (p_fd pg)" "same_env (p_fd pg) f'"
proof -
  have "get_page_offset p + PAGE_SIZE \<le> length (fbytes (p_fd pg))"
    using assms(2) by (simp add: pager_valid_def)
  then obtain g f' where "sys_lseek (get_page_offset p) (p_fd pg) = (True, g)"
    "read_exact PAGE_SIZE g = (Some (pager_page pg p), f')"
    and "fbytes f' = fbytes (p_fd pg)" "same_env (p_fd pg) f'"
    unfolding pager_page_def by (rule seek_read_ok[OF assms(1)])
  moreover have "\<not> (p_page_count pg \<le> p \<and> p \<noteq> 0)"
    using assms(2) by (auto simp: pager_valid_def pager_is_valid_page_def)
  ultimately show thesis by (intro that[of f']) (simp_all add: pager_read_page_def)
qed

lemma pager_write_page_ok:
  assumes "pager_ready pg" "length b = PAGE_SIZE"
  obtains f' n where "pager_write_page p b pg = (True, pg\<lparr>p_fd := f', p_file_size := n\<rparr>)"
    "fbytes f' = put_at (get_page_offset p) b (fbytes (p_fd pg))" "same_env (p_fd pg) f'"
proof -
  have "nofail (p_fd pg)" "fwritable (p_fd pg)" "b \<noteq> []"
    using assms PAGE_SIZE_pos by (auto simp: pager_ready_def simp del: PAGE_SIZE_pos)
  then obtain g f' where "sys_lseek (get_page_offset p) (p_fd pg) = (True, g)"
    "write_exact b g = (True, f')"
    and "fbytes f' = put_at (get_page_offset p) b (fbytes (p_fd pg))" "same_env (p_fd pg) f'"
    by (rule seek_write_ok)
  with assms(2) show thesis
    by (intro that[where f' = f' and n = "if get_page_offset p + PAGE_SIZE > p_file_size pg
          then get_page_offset p + PAGE_SIZE else p_file_size pg"])
      (simp_all add: pager_write_page_def Let_def)
qed

lemma pager_page_put_at:
  assumes "length b = PAGE_SIZE" "get_page_offset q + PAGE_SIZE \<le> length d"
  shows "get_at (get_page_offset q) PAGE_SIZE (put_at (get_page_offset p) b d) =
    (if q = p then b else get_at (get_page_offset q) PAGE_SIZE d)"
proof (cases "q = p")
  case True
  then show ?thesis using get_at_put_at_same[of "get_page_offset p" b d] assms(1) by simp
next
  case False
  then show ?thesis
    using get_at_put_at_disjoint[OF assms(2)] page_offset_inj[OF False] assms(1) by simp
qed

interpretation pager: page_store pager_ready pager_valid pager_page pager_read_page pager_write_page
proof (unfold_locales, goal_cases)
  case (1 s p)
  then show ?case by (auto simp: pager_valid_def pager_page_def length_get_at min_def)
next
  case (2 s p)
  then have "nofail (p_fd s)" by (simp add: pager_ready_def)
  then obtain f' where f': "pager_read_page p s = (Some (pager_page s p), s\<lparr>p_fd := f'\<rparr>)"
    "fbytes f' = fbytes (p_fd s)" "same_env (p_fd s) f'"
    using 2(2) by (rule pager_read_page_ok)
  have "pager_ready (s\<lparr>p_fd := f'\<rparr>)"
    using 2(1) f'(3) same_env_nofail same_env_writable by (simp add: pager_ready_def)
  with f' show ?case
    by (simp add: pager_valid_def pager_page_def pager_is_valid_page_def fun_eq_iff)
next
  case (3 s p b)
  obtain f' n where f': "pager_write_page p b s = (True, s\<lparr>p_fd := f', p_file_size := n\<rparr>)"
    "fbytes f' = put_at (get_page_offset p) b (fbytes (p_fd s))" "same_env (p_fd s) f'"
    using 3(1,3) by (rule pager_write_page_ok)
  have "pager_ready (s\<lparr>p_fd := f', p_file_size := n\<rparr>)"
    using 3(1) f'(3) same_env_nofail same_env_writable by (simp add: pager_ready_def)
  moreover have "length (fbytes f') = length (fbytes (p_fd s))"
    using 3(2,3) f'(2) by (simp add: pager_valid_def length_put_at)
  ultimately show ?case
    using f' 3(3) by (auto simp: pager_valid_def pager_page_def pager_is_valid_page_def fun_eq_iff
        pager_page_put_at)
qed

section \<open>The free list\<close>

text \<open>
  \<open>free_chain d x ps\<close>: following the links in the first four bytes of the free pages of the
  file contents \<open>d\<close> from page \<open>x\<close> visits exactly \<open>ps\<close> and ends at page \<open>0\<close>.
\<close>

fun free_chain :: "bytes \<Rightarrow> u32 \<Rightarrow> u32 list \<Rightarrow> bool" where
  "free_chain d x [] \<longleftrightarrow> x = 0"
| "free_chain d x (p # ps) \<longleftrightarrow> x = p \<and> p \<noteq> 0 \<and> get_page_offset p + PAGE_SIZE \<le> length d \<and>
     free_chain d (le_val (get_at (get_page_offset p) 4 d)) ps"

definition pager_free_list :: "Pager \<Rightarrow> u32 list \<Rightarrow> bool" where
  "pager_free_list pg ps \<longleftrightarrow>
     free_chain (fbytes (p_fd pg)) (p_first_free_page pg) ps \<and> distinct ps \<and>
     p_free_page_count pg = of_nat (length ps)"

definition pager_inv :: "Pager \<Rightarrow> u32 list \<Rightarrow> bool" where
  "pager_inv pg ps \<longleftrightarrow>
     calm (p_fd pg) \<and> fwritable (p_fd pg) \<and> 0 < p_page_count pg \<and>
     HEADER_SIZE \<le> length (fbytes (p_fd pg)) \<and>
     (p_page_count pg \<noteq> 1 \<longrightarrow> get_page_offset (p_page_count pg) \<le> length (fbytes (p_fd pg))) \<and>
     pager_free_list pg ps \<and> (\<forall>p \<in> set ps. p < p_page_count pg)"

definition live_pages :: "Pager \<Rightarrow> u32 list \<Rightarrow> u32 set" where
  "live_pages pg ps = {p. 0 < p \<and> p < p_page_count pg \<and> p \<notin> set ps}"

text \<open>The header as the file holds it, and whether it says what the pager has in memory.\<close>

definition disk_header :: "Pager \<Rightarrow> DatabaseHeader" where
  "disk_header pg = header_of_bytes (get_at 0 HEADER_SIZE (fbytes (p_fd pg)))"

definition header_synced :: "Pager \<Rightarrow> bool" where
  "header_synced pg \<longleftrightarrow> dh_magic (disk_header pg) = PAGER_MAGIC \<and>
     dh_page_count (disk_header pg) = p_page_count pg \<and>
     dh_first_free_page (disk_header pg) = p_first_free_page pg \<and>
     dh_free_page_count (disk_header pg) = p_free_page_count pg"

lemma free_chain_mem:
  "free_chain d x ps \<Longrightarrow> p \<in> set ps \<Longrightarrow> p \<noteq> 0 \<and> get_page_offset p + PAGE_SIZE \<le> length d"
  by (induction ps arbitrary: x) auto

lemma free_chain_cong:
  assumes "\<And>p. p \<in> set ps \<Longrightarrow> get_page_offset p + PAGE_SIZE \<le> length d' \<and>
    get_at (get_page_offset p) PAGE_SIZE d' = get_at (get_page_offset p) PAGE_SIZE d"
  shows "free_chain d x ps \<Longrightarrow> free_chain d' x ps"
  using assms
proof (induction ps arbitrary: x)
  case (Cons p ps)
  have "get_at 0 4 (get_at (get_page_offset p) PAGE_SIZE d') = get_at 0 4 (get_at (get_page_offset p) PAGE_SIZE d)"
    using Cons.prems(2)[of p] by simp
  then have "get_at (get_page_offset p) 4 d' = get_at (get_page_offset p) 4 d"
    by (simp add: get_at_get_at PAGE_SIZE_def)
  with Cons show ?case by simp
qed simp

lemma page_offset_mono: "p < q \<Longrightarrow> get_page_offset p + PAGE_SIZE \<le> get_page_offset q"
proof -
  assume "p < q"
  then have "Suc (unat p) \<le> unat q" by (simp add: word_less_nat_alt)
  then have "Suc (unat p) * PAGE_SIZE \<le> unat q * PAGE_SIZE" by (rule mult_le_mono1)
  then show ?thesis by (simp add: get_page_offset_def)
qed

lemma header_below_page:
  assumes "0 < p"
  shows "HEADER_SIZE \<le> get_page_offset p"
  using page_offset_mono[OF assms] by (simp add: get_page_offset_def PAGE_SIZE_def HEADER_SIZE_def)

lemma header_put_frame:
  assumes "q \<noteq> 0" "get_page_offset q + PAGE_SIZE \<le> length d"
  shows "get_at (get_page_offset q) PAGE_SIZE (put_at 0 (header_bytes h) d) =
    get_at (get_page_offset q) PAGE_SIZE d"
proof -
  have "HEADER_SIZE \<le> get_page_offset q"
    using assms(1) by (intro header_below_page) (simp add: word_gt_0)
  then show ?thesis using assms(2) by (intro get_at_put_at_disjoint) auto
qed

lemma pager_inv_page_in_file:
  assumes "pager_inv pg ps" "0 < p" "p < p_page_count pg"
  shows "get_page_offset p + PAGE_SIZE \<le> length (fbytes (p_fd pg))"
proof -
  have "p_page_count pg \<noteq> 1" using assms(2,3) by (auto simp: word_less_nat_alt)
  then have "get_page_offset (p_page_count pg) \<le> length (fbytes (p_fd pg))"
    using assms(1) by (simp add: pager_inv_def)
  with page_offset_mono[OF assms(3)] show ?thesis by simp
qed

text \<open>Allocation takes the head of a non-empty list and leaves the file alone.\<close>

lemma pager_allocate_pop:
  assumes "pager_inv pg (p # ps)"
  obtains pg' where "pager_allocate_page pg = (Some p, pg')" "pager_inv pg' ps"
    "fbytes (p_fd pg') = fbytes (p_fd pg)" "p_page_count pg' = p_page_count pg"
proof -
  let ?d = "fbytes (p_fd pg)"
  have c: "calm (p_fd pg)" and fl: "pager_free_list pg (p # ps)"
    using assms by (auto simp: pager_inv_def)
  then have ff: "p_first_free_page pg = p" "p \<noteq> 0" "get_page_offset p + PAGE_SIZE \<le> length ?d"
    "free_chain ?d (le_val (get_at (get_page_offset p) 4 ?d)) ps"
    by (auto simp: pager_free_list_def)
  have hd: "get_at 0 4 (get_at (get_page_offset p) PAGE_SIZE ?d) = get_at (get_page_offset p) 4 ?d"
    by (simp add: get_at_get_at PAGE_SIZE_def)
  obtain g f' where io: "sys_lseek (get_page_offset p) (p_fd pg) = (True, g)"
    "read_exact PAGE_SIZE g = (Some (get_at (get_page_offset p) PAGE_SIZE ?d), f')"
    "fbytes f' = ?d" "same_env (p_fd pg) f'"
    by (rule seek_read_ok[OF calm_nofail[OF c] ff(3)])
  let ?pg = "pg\<lparr>p_fd := f', p_first_free_page := le_val (get_at (get_page_offset p) 4 ?d),
               p_free_page_count := p_free_page_count pg - 1\<rparr>"
  have "pager_inv ?pg ps"
    using assms io(3) ff(4) same_env_calm[OF io(4) c] same_env_writable[OF io(4)]
    by (auto simp: pager_inv_def pager_free_list_def)
  moreover have "pager_allocate_page pg = (Some p, ?pg)"
    using ff(1,2) io(1,2) by (simp add: pager_allocate_page_def hd)
  ultimately show thesis using io(3) by (intro that[of ?pg]) simp_all
qed

text \<open>With an empty list the file grows by one zeroed page, behind every page in use.\<close>

lemma resized_page:
  assumes "get_page_offset p + PAGE_SIZE \<le> length d" "get_page_offset p + PAGE_SIZE \<le> n"
  shows "get_at (get_page_offset p) PAGE_SIZE (take n d @ replicate m 0) =
    get_at (get_page_offset p) PAGE_SIZE d"
  using assms by (simp add: get_at_def drop_take min_def)

lemma unat_Suc_word: "x + 1 \<noteq> 0 \<Longrightarrow> unat (x + 1) = Suc (unat x)" for x :: "'a::len word"
  by (simp add: unatSuc add.commute)

lemma Suc_page_offset: "x + 1 \<noteq> 0 \<Longrightarrow> get_page_offset (x + 1) = get_page_offset x + PAGE_SIZE"
  by (simp add: get_page_offset_def unatSuc add.commute)

lemma rewrite_header_ok:
  assumes "nofail f" "fwritable f" "HEADER_SIZE \<le> length (fbytes f)"
  obtains h f1 f2 where "h = header_of_bytes (get_at 0 HEADER_SIZE (fbytes f))"
    "read_header f = (Some h, f1)" "write_header (upd h) f1 = (True, f2)"
    "fbytes f2 = put_at 0 (header_bytes (upd h)) (fbytes f)" "same_env f f2"
proof -
  let ?h = "header_of_bytes (get_at 0 HEADER_SIZE (fbytes f))"
  obtain f1 where f1: "read_header f = (Some ?h, f1)" "fbytes f1 = fbytes f" "same_env f f1"
    by (rule read_header_ok[OF assms(1,3)])
  have "nofail f1" "fwritable f1"
    using same_env_nofail[OF f1(3) assms(1)] same_env_writable[OF f1(3)] assms(2) by auto
  then obtain f2 where f2: "write_header (upd ?h) f1 = (True, f2)"
    "fbytes f2 = put_at 0 (header_bytes (upd ?h)) (fbytes f1)" "same_env f1 f2"
    by (rule write_header_ok)
  show thesis
    by (rule that[OF refl f1(1) f2(1) f2(2)[unfolded f1(2)] same_env_trans[OF f1(3) f2(3)]])
qed

lemma get_header_put:
  "header_of_bytes (get_at 0 HEADER_SIZE (put_at 0 (header_bytes h) d)) = h"
  using get_at_put_at_same[of 0 "header_bytes h" d] by (simp add: header_roundtrip)

lemma get_header_resized:
  "header_of_bytes (get_at 0 HEADER_SIZE (take (n + PAGE_SIZE) (put_at 0 (header_bytes h) d) @ r)) = h"
proof -
  have "get_at 0 HEADER_SIZE (take (n + PAGE_SIZE) (put_at 0 (header_bytes h) d) @ r) =
      get_at 0 HEADER_SIZE (put_at 0 (header_bytes h) d)"
    by (simp add: get_at_def length_put_at HEADER_SIZE_def PAGE_SIZE_def min_def max_def)
  then show ?thesis by (simp add: get_header_put)
qed

lemma pager_allocate_grow:
  assumes inv: "pager_inv pg []" and room: "p_page_count pg + 1 \<noteq> 0"
  obtains pg' where "pager_allocate_page pg = (Some (p_page_count pg), pg')" "pager_inv pg' []"
    "p_page_count pg' = p_page_count pg + 1"
    "\<And>q. 0 < q \<Longrightarrow> q < p_page_count pg \<Longrightarrow> pager_page pg' q = pager_page pg q"
    "header_synced pg \<Longrightarrow> header_synced pg'"
proof -
  let ?f = "p_fd pg" and ?n = "p_page_count pg"
  let ?new = "get_page_offset (?n + 1)" and ?u = "\<lambda>h. h\<lparr>dh_page_count := ?n + 1\<rparr>"
  have c: "calm ?f" "fwritable ?f" "HEADER_SIZE \<le> length (fbytes ?f)" "p_first_free_page pg = 0"
    using inv by (auto simp: pager_inv_def pager_free_list_def)
  obtain h f1 f2 where h: "h = disk_header pg"
    and f2: "read_header ?f = (Some h, f1)" "write_header (?u h) f1 = (True, f2)"
    "fbytes f2 = put_at 0 (header_bytes (?u h)) (fbytes ?f)" "same_env ?f f2"
    unfolding disk_header_def
    by (rule rewrite_header_ok[OF calm_nofail[OF c(1)] c(2,3), of ?u])
  have e2: "calm f2" "fwritable f2"
    using same_env_calm[OF f2(4) c(1)] same_env_writable[OF f2(4)] c(2) by auto
  obtain f3 where f3: "sys_ftruncate ?new f2 = (True, f3)"
    "fbytes f3 = take ?new (fbytes f2) @ replicate (?new - length (fbytes f2)) 0" "same_env f2 f3"
    using sys_ftruncate_ok[OF e2, of ?new] by blast
  let ?pg = "pg\<lparr>p_page_count := ?n + 1, p_fd := f3, p_file_size := ?new\<rparr>"
  have new: "?new = get_page_offset ?n + PAGE_SIZE" using room by (rule Suc_page_offset)
  have len: "length (fbytes f3) = ?new" by (simp add: f3(2))
  have "calm f3" "fwritable f3"
    using same_env_calm[OF f3(3) e2(1)] same_env_writable[OF f3(3)] e2(2) by auto
  moreover have "HEADER_SIZE \<le> ?new" by (simp add: new HEADER_SIZE_def PAGE_SIZE_def)
  moreover have "0 < ?n + 1" using room by (simp add: word_gt_0)
  ultimately have "pager_inv ?pg []"
    using inv len by (simp add: pager_inv_def pager_free_list_def)
  moreover have "pager_allocate_page pg = (Some ?n, ?pg)"
    using c(4) f2(1,2) f3(1) by (simp add: pager_allocate_page_def Let_def)
  moreover have "pager_page ?pg q = pager_page pg q" if "0 < q" "q < ?n" for q
  proof -
    have "get_page_offset q + PAGE_SIZE \<le> length (fbytes ?f)"
      by (rule pager_inv_page_in_file[OF inv that])
    moreover have "get_page_offset q + PAGE_SIZE \<le> ?new"
      using page_offset_mono[OF that(2)] new by simp
    moreover have "get_page_offset q + PAGE_SIZE \<le> length (fbytes f2)"
      using calculation(1) by (simp add: f2(3) length_put_at)
    ultimately show ?thesis
      using that(1) by (simp add: pager_page_def f3(2) resized_page)
        (simp add: f2(3) header_put_frame word_gt_0)
  qed
  moreover have "disk_header ?pg = ?u h"
    using new by (simp add: disk_header_def f3(2) f2(3) get_header_resized)
  ultimately show thesis by (intro that[of ?pg]) (simp_all add: header_synced_def h)
qed

text \<open>Freeing a page pushes it, rewrites it and the header page, and no other page.\<close>

definition free_page_bytes :: "u32 \<Rightarrow> bytes" where
  "free_page_bytes next = le_bytes 4 next @ replicate (PAGE_SIZE - 4) 0"

lemma length_free_page_bytes [simp]: "length (free_page_bytes x) = PAGE_SIZE"
  by (simp add: free_page_bytes_def PAGE_SIZE_def)

lemma free_page_bytes_link: "le_val (get_at 0 4 (free_page_bytes x)) = x"
  by (simp add: free_page_bytes_def get_at_def enc_simps)

lemma free_page_bytes_ne [simp]: "free_page_bytes x \<noteq> []"
  using length_free_page_bytes[of x] PAGE_SIZE_pos by fastforce

lemma pager_free_push:
  assumes inv: "pager_inv pg ps" and p: "p \<in> live_pages pg ps"
  obtains pg' where "pager_free_page p pg = (True, pg')" "pager_inv pg' (p # ps)"
    "p_page_count pg' = p_page_count pg"
    "\<And>q. 0 < q \<Longrightarrow> q < p_page_count pg \<Longrightarrow> q \<noteq> p \<Longrightarrow> pager_page pg' q = pager_page pg q"
    "header_synced pg \<Longrightarrow> header_synced pg'"
proof -
  let ?f = "p_fd pg" and ?n = "p_page_count pg" and ?b = "free_page_bytes (p_first_free_page pg)"
  let ?o = "get_page_offset p" and ?u = "\<lambda>h. h\<lparr>dh_first_free_page := p,
    dh_free_page_count := p_free_page_count pg + 1\<rparr>"
  have c: "calm ?f" "fwritable ?f" "HEADER_SIZE \<le> length (fbytes ?f)" and p': "0 < p" "p < ?n"
    using inv p by (auto simp: pager_inv_def live_pages_def)
  have po: "?o + PAGE_SIZE \<le> length (fbytes ?f)" by (rule pager_inv_page_in_file[OF inv p'])
  obtain g f0 where f0: "sys_lseek ?o ?f = (True, g)" "write_exact ?b g = (True, f0)"
    "fbytes f0 = put_at ?o ?b (fbytes ?f)" "same_env ?f f0"
    by (rule seek_write_ok[OF calm_nofail[OF c(1)] c(2) free_page_bytes_ne])
  have e0: "calm f0" "fwritable f0" and len0: "length (fbytes f0) = length (fbytes ?f)"
    using same_env_calm[OF f0(4) c(1)] same_env_writable[OF f0(4)] c(2) po
    by (auto simp: f0(3) length_put_at)
  then obtain h f1 f2 where h: "h = header_of_bytes (get_at 0 HEADER_SIZE (fbytes f0))"
    and f2: "read_header f0 = (Some h, f1)" "write_header (?u h) f1 = (True, f2)"
    "fbytes f2 = put_at 0 (header_bytes (?u h)) (fbytes f0)" "same_env f0 f2"
    using rewrite_header_ok[OF calm_nofail[OF e0(1)] e0(2), of ?u] c(3) by metis
  let ?pg = "pg\<lparr>p_first_free_page := p, p_free_page_count := p_free_page_count pg + 1, p_fd := f2\<rparr>"
  have len: "length (fbytes f2) = length (fbytes ?f)"
    using c(3) by (simp add: f2(3) length_put_at len0)
  have page: "get_at (get_page_offset q) PAGE_SIZE (fbytes f2) =
      (if q = p then ?b else get_at (get_page_offset q) PAGE_SIZE (fbytes ?f))"
    if "0 < q" "q < ?n" for q
    using that pager_inv_page_in_file[OF inv that]
    by (simp add: f2(3) header_put_frame len0 word_gt_0) (auto simp: f0(3) pager_page_put_at)
  have "pager_free_page p pg = (True, ?pg)"
    using p' f0(1,2) f2(1,2) by (simp add: pager_free_page_def Let_def free_page_bytes_def word_gt_0)
  moreover have "pager_inv ?pg (p # ps)"
  proof -
    have "get_at 0 4 (get_at ?o PAGE_SIZE (fbytes f2)) = get_at 0 4 ?b" using page[OF p'] by simp
    then have link: "le_val (get_at ?o 4 (fbytes f2)) = p_first_free_page pg"
      using free_page_bytes_link[of "p_first_free_page pg"] by (simp add: get_at_get_at PAGE_SIZE_def)
    have ch: "free_chain (fbytes ?f) (p_first_free_page pg) ps"
      and lt: "\<And>q. q \<in> set ps \<Longrightarrow> q < ?n" and np: "p \<notin> set ps"
      using inv p by (auto simp: pager_inv_def pager_free_list_def live_pages_def)
    have "free_chain (fbytes f2) (p_first_free_page pg) ps"
      using free_chain_mem[OF ch] lt np
      by (intro free_chain_cong[OF _ ch]) (auto simp: len page word_gt_0)
    then show ?thesis
      using inv p' np po link same_env_calm[OF f2(4) e0(1)] same_env_writable[OF f2(4)] e0(2)
      by (auto simp: pager_inv_def pager_free_list_def len)
  qed
  moreover have "disk_header ?pg = ?u (disk_header pg)"
    using header_below_page[OF p'(1)]
    by (simp add: disk_header_def f2(3) h f0(3) get_header_put get_at_put_at_disjoint c(3))
  ultimately show thesis
    using page by (intro that[of ?pg]) (simp_all add: pager_page_def header_synced_def)
qed

lemma pager_inv_ready: "pager_inv pg ps \<Longrightarrow> pager_ready pg"
  by (simp add: pager_inv_def pager_ready_def)

lemma pager_inv_valid:
  assumes "pager_inv pg ps" "p \<in> live_pages pg ps"
  shows "pager_valid pg p"
  using assms pager_inv_page_in_file[OF assms(1), of p]
  by (simp add: pager_valid_def pager_is_valid_page_def live_pages_def)

lemma pager_write_live:
  assumes inv: "pager_inv pg ps" and p: "p \<in> live_pages pg ps" and b: "length b = PAGE_SIZE"
  obtains pg' where "pager_write_page p b pg = (True, pg')" "pager_inv pg' ps"
    "p_page_count pg' = p_page_count pg"
    "\<And>q. 0 < q \<Longrightarrow> q < p_page_count pg \<Longrightarrow> pager_page pg' q = (if q = p then b else pager_page pg q)"
proof -
  obtain f' n where f': "pager_write_page p b pg = (True, pg\<lparr>p_fd := f', p_file_size := n\<rparr>)"
    "fbytes f' = put_at (get_page_offset p) b (fbytes (p_fd pg))" "same_env (p_fd pg) f'"
    by (rule pager_write_page_ok[OF pager_inv_ready[OF inv] b])
  have page: "get_at (get_page_offset q) PAGE_SIZE (fbytes f') =
      (if q = p then b else get_at (get_page_offset q) PAGE_SIZE (fbytes (p_fd pg)))"
    if "0 < q" "q < p_page_count pg" for q
    using pager_page_put_at[OF b pager_inv_page_in_file[OF inv that]] by (simp add: f'(2))
  have len: "length (fbytes f') = length (fbytes (p_fd pg))"
    using pager_inv_valid[OF inv p] b by (simp add: f'(2) length_put_at pager_valid_def)
  have ch: "free_chain (fbytes (p_fd pg)) (p_first_free_page pg) ps"
    and lt: "\<And>q. q \<in> set ps \<Longrightarrow> q < p_page_count pg" and np: "p \<notin> set ps"
    using inv p by (auto simp: pager_inv_def pager_free_list_def live_pages_def)
  have "free_chain (fbytes f') (p_first_free_page pg) ps"
    using free_chain_mem[OF ch] lt np
    by (intro free_chain_cong[OF _ ch]) (auto simp: len page word_gt_0)
  then have "pager_inv (pg\<lparr>p_fd := f', p_file_size := n\<rparr>) ps"
    using inv same_env_calm[OF f'(3)] same_env_writable[OF f'(3)]
    by (auto simp: pager_inv_def pager_free_list_def len)
  with f'(1) page show thesis
    by (intro that[of "pg\<lparr>p_fd := f', p_file_size := n\<rparr>"]) (simp_all add: pager_page_def)
qed

lemma pager_read_live:
  assumes inv: "pager_inv pg ps" and p: "p \<in> live_pages pg ps"
  obtains f' where "pager_read_page p pg = (Some (pager_page pg p), pg\<lparr>p_fd := f'\<rparr>)"
    "pager_inv (pg\<lparr>p_fd := f'\<rparr>) ps" "fbytes f' = fbytes (p_fd pg)"
proof -
  obtain f' where f': "pager_read_page p pg = (Some (pager_page pg p), pg\<lparr>p_fd := f'\<rparr>)"
    "fbytes f' = fbytes (p_fd pg)" "same_env (p_fd pg) f'"
    using pager_read_page_ok[OF _ pager_inv_valid[OF inv p]] inv
    by (auto simp: pager_inv_def)
  moreover have "pager_inv (pg\<lparr>p_fd := f'\<rparr>) ps"
    using inv f' same_env_calm[OF f'(3)] same_env_writable[OF f'(3)]
    by (auto simp: pager_inv_def pager_free_list_def)
  ultimately show thesis by (intro that[of f']) simp_all
qed

section \<open>Traces of the pager\<close>

text \<open>What a client of the pager does and sees, and the traces the code produces.\<close>

datatype page_event = Alloc u32 | Free u32 | Write u32 bytes | Read u32 bytes

inductive pager_step :: "Pager \<Rightarrow> page_event \<Rightarrow> Pager \<Rightarrow> bool" where
  step_alloc: "pager_allocate_page pg = (Some p, pg') \<Longrightarrow> pager_step pg (Alloc p) pg'"
| step_free: "pager_free_page p pg = (True, pg') \<Longrightarrow> pager_step pg (Free p) pg'"
| step_write: "length b = PAGE_SIZE \<Longrightarrow> pager_write_page p b pg = (True, pg') \<Longrightarrow>
    pager_step pg (Write p b) pg'"
| step_read: "pager_read_page p pg = (Some b, pg') \<Longrightarrow> pager_step pg (Read p b) pg'"

inductive_simps pager_step_simps:
  "pager_step pg (Alloc p) pg'" "pager_step pg (Free p) pg'"
  "pager_step pg (Write p b) pg'" "pager_step pg (Read p b) pg'"

inductive pager_trace :: "Pager \<Rightarrow> page_event list \<Rightarrow> Pager \<Rightarrow> bool" where
  trace_nil: "pager_trace pg [] pg"
| trace_cons: "pager_step pg e pg' \<Longrightarrow> pager_trace pg' es pg'' \<Longrightarrow> pager_trace pg (e # es) pg''"

text \<open>
  The specification: \<open>L\<close> is the set of allocated pages and \<open>m\<close> holds what was written to them
  since their allocation.  \<open>uses_live\<close> is the client's side: it touches only pages it has
  allocated and not freed.  \<open>spec_ok\<close> is the pager's side: an allocation returns a page that
  is not allocated, and a read returns what was written last.
\<close>

fun uses_live :: "page_event list \<Rightarrow> u32 set \<Rightarrow> bool" where
  "uses_live [] L \<longleftrightarrow> True"
| "uses_live (Alloc p # es) L \<longleftrightarrow> uses_live es (insert p L)"
| "uses_live (Free p # es) L \<longleftrightarrow> p \<in> L \<and> uses_live es (L - {p})"
| "uses_live (Write p b # es) L \<longleftrightarrow> p \<in> L \<and> uses_live es L"
| "uses_live (Read p b # es) L \<longleftrightarrow> p \<in> L \<and> uses_live es L"

fun live_after :: "page_event list \<Rightarrow> u32 set \<Rightarrow> u32 set" where
  "live_after [] L = L"
| "live_after (Alloc p # es) L = live_after es (insert p L)"
| "live_after (Free p # es) L = live_after es (L - {p})"
| "live_after (Write p b # es) L = live_after es L"
| "live_after (Read p b # es) L = live_after es L"

fun spec_ok :: "page_event list \<Rightarrow> u32 set \<Rightarrow> (u32 \<rightharpoonup> bytes) \<Rightarrow> bool" where
  "spec_ok [] L m \<longleftrightarrow> True"
| "spec_ok (Alloc p # es) L m \<longleftrightarrow> p \<noteq> 0 \<and> p \<notin> L \<and> spec_ok es (insert p L) (m(p := None))"
| "spec_ok (Free p # es) L m \<longleftrightarrow> spec_ok es (L - {p}) m"
| "spec_ok (Write p b # es) L m \<longleftrightarrow> spec_ok es L (m(p \<mapsto> b))"
| "spec_ok (Read p b # es) L m \<longleftrightarrow> (\<forall>c. m p = Some c \<longrightarrow> b = c) \<and> spec_ok es L m"

text \<open>The simulation relation between a pager and the specification's state.\<close>

definition pager_sim :: "Pager \<Rightarrow> u32 list \<Rightarrow> u32 set \<Rightarrow> (u32 \<rightharpoonup> bytes) \<Rightarrow> bool" where
  "pager_sim pg ps L m \<longleftrightarrow> pager_inv pg ps \<and> L = live_pages pg ps \<and>
     (\<forall>p \<in> L. \<forall>c. m p = Some c \<longrightarrow> pager_page pg p = c)"

lemma pager_sim_alloc:
  assumes "pager_sim pg ps L m" "p_page_count pg + 1 \<noteq> 0"
  obtains p pg' ps' where "pager_allocate_page pg = (Some p, pg')" "p \<noteq> 0" "p \<notin> L"
    "pager_sim pg' ps' (insert p L) (m(p := None))"
    "unat (p_page_count pg') \<le> Suc (unat (p_page_count pg))"
proof (cases ps)
  case (Cons p qs)
  then obtain pg' where pg': "pager_allocate_page pg = (Some p, pg')" "pager_inv pg' qs"
    "fbytes (p_fd pg') = fbytes (p_fd pg)" "p_page_count pg' = p_page_count pg"
    using assms(1) pager_allocate_pop[of pg p qs] by (auto simp: pager_sim_def)
  moreover have "p \<noteq> 0" "p < p_page_count pg" "p \<notin> set qs"
    using assms(1) Cons by (auto simp: pager_sim_def pager_inv_def pager_free_list_def)
  ultimately show thesis
    using assms(1) Cons
    by (intro that[of p pg' qs])
      (auto simp: pager_sim_def live_pages_def pager_page_def word_gt_0)
next
  case Nil
  then have "pager_inv pg []" using assms(1) by (simp add: pager_sim_def)
  then obtain pg' where pg': "pager_allocate_page pg = (Some (p_page_count pg), pg')"
    "pager_inv pg' []" "p_page_count pg' = p_page_count pg + 1"
    "\<And>q. 0 < q \<Longrightarrow> q < p_page_count pg \<Longrightarrow> pager_page pg' q = pager_page pg q"
    using pager_allocate_grow[OF _ assms(2)] by blast
  have "x < p_page_count pg + 1 \<longleftrightarrow> x = p_page_count pg \<or> x < p_page_count pg" for x
    using assms(2) by (auto simp: word_less_nat_alt unat_Suc_word less_Suc_eq word_unat_eq_iff)
  moreover have "p_page_count pg \<noteq> 0"
    using assms(1) by (auto simp: pager_sim_def pager_inv_def)
  ultimately show thesis
    using assms Nil pg'
    by (intro that[of "p_page_count pg" pg' "[]"])
      (auto simp: pager_sim_def live_pages_def word_gt_0 unat_Suc_word)
qed

lemma pager_sim_step:
  assumes sim: "pager_sim pg ps L m" and step: "pager_step pg e pg'"
    and room: "p_page_count pg + 1 \<noteq> 0" and live: "uses_live (e # es) L"
  obtains ps' L' m' where "pager_sim pg' ps' L' m'" "uses_live es L'"
    "live_after es L' = live_after (e # es) L"
    "spec_ok es L' m' \<longrightarrow> spec_ok (e # es) L m"
    "unat (p_page_count pg') \<le> Suc (unat (p_page_count pg))"
proof (cases e)
  case (Alloc p)
  obtain p' pg1 ps' where "pager_allocate_page pg = (Some p', pg1)" "p' \<noteq> 0" "p' \<notin> L"
    "pager_sim pg1 ps' (insert p' L) (m(p' := None))"
    "unat (p_page_count pg1) \<le> Suc (unat (p_page_count pg))"
    by (rule pager_sim_alloc[OF sim room])
  with step live Alloc show thesis by (intro that) (auto simp: pager_step_simps)
next
  case (Free p)
  have p: "p \<in> live_pages pg ps" and inv: "pager_inv pg ps"
    using sim live Free by (auto simp: pager_sim_def)
  obtain pg1 where "pager_free_page p pg = (True, pg1)" "pager_inv pg1 (p # ps)"
    "p_page_count pg1 = p_page_count pg"
    "\<And>q. 0 < q \<Longrightarrow> q < p_page_count pg \<Longrightarrow> q \<noteq> p \<Longrightarrow> pager_page pg1 q = pager_page pg q"
    using pager_free_push[OF inv p] by blast
  with sim step live Free show thesis
    by (intro that[of "p # ps" "L - {p}" m])
      (auto simp: pager_step_simps pager_sim_def live_pages_def)
next
  case (Write p b)
  have p: "p \<in> live_pages pg ps" and inv: "pager_inv pg ps" and b: "length b = PAGE_SIZE"
    using sim live step Write by (auto simp: pager_sim_def pager_step_simps)
  obtain pg1 where "pager_write_page p b pg = (True, pg1)" "pager_inv pg1 ps"
    "p_page_count pg1 = p_page_count pg"
    "\<And>q. 0 < q \<Longrightarrow> q < p_page_count pg \<Longrightarrow> pager_page pg1 q = (if q = p then b else pager_page pg q)"
    using pager_write_live[OF inv p b] by blast
  with sim step live Write show thesis
    by (intro that[of ps L "m(p \<mapsto> b)"])
      (auto simp: pager_step_simps pager_sim_def live_pages_def)
next
  case (Read p b)
  have p: "p \<in> live_pages pg ps" and inv: "pager_inv pg ps"
    using sim live Read by (auto simp: pager_sim_def)
  obtain f' where "pager_read_page p pg = (Some (pager_page pg p), pg\<lparr>p_fd := f'\<rparr>)"
    "pager_inv (pg\<lparr>p_fd := f'\<rparr>) ps" "fbytes f' = fbytes (p_fd pg)"
    by (rule pager_read_live[OF inv p])
  with sim step live Read p show thesis
    by (intro that[of ps L m])
      (auto simp: pager_step_simps pager_sim_def live_pages_def pager_page_def)
qed

lemma pager_trace_sim:
  assumes "pager_trace pg es pg'" "pager_sim pg ps L m" "uses_live es L"
    "unat (p_page_count pg) + length es < 2 ^ 32"
  shows "spec_ok es L m \<and> (\<exists>ps' m'. pager_sim pg' ps' (live_after es L) m') \<and>
    unat (p_page_count pg') \<le> unat (p_page_count pg) + length es"
  using assms
proof (induction arbitrary: ps L m rule: pager_trace.induct)
  case (trace_cons pg e pg' es pg'')
  have room: "p_page_count pg + 1 \<noteq> 0"
    using trace_cons.prems(3) by (auto simp: unat_eq_zero[symmetric] unat_word_ariths)
  obtain ps' L' m' where "pager_sim pg' ps' L' m'" "uses_live es L'"
    "live_after es L' = live_after (e # es) L" "spec_ok es L' m' \<longrightarrow> spec_ok (e # es) L m"
    "unat (p_page_count pg') \<le> Suc (unat (p_page_count pg))"
    by (rule pager_sim_step[OF trace_cons.prems(1) trace_cons.hyps(1) room trace_cons.prems(2)])
  with trace_cons.IH[of ps' L' m'] trace_cons.prems(3) show ?case by auto
qed auto

lemma pager_create_inv:
  assumes "calm f" "fwritable f" "fbytes f = []"
  obtains pg where "pager_create (Some f) = Some pg" "pager_inv pg []" "p_page_count pg = 1"
    "fbytes (p_fd pg) = header_bytes init_header" "p_is_open pg"
proof -
  obtain f1 where f1: "write_header init_header f = (True, f1)"
    "fbytes f1 = put_at 0 (header_bytes init_header) []" "same_env f f1"
    using write_header_ok[OF calm_nofail[OF assms(1)] assms(2)] assms(3) by metis
  have "calm f1" "fwritable f1"
    using same_env_calm[OF f1(3) assms(1)] same_env_writable[OF f1(3)] assms(2) by auto
  moreover from this(1) obtain f2 where f2: "sys_fsync f1 = (True, f2)" "fbytes f2 = fbytes f1"
    "same_env f1 f2"
    using sys_fsync_ok by blast
  ultimately have "calm f2" "fwritable f2"
    using same_env_calm[OF f2(3)] same_env_writable[OF f2(3)] by auto
  with f1 f2 show thesis
    by (intro that[of "\<lparr>p_fd = f2, p_page_count = 1, p_first_free_page = 0,
        p_free_page_count = 0, p_file_size = PAGE_SIZE, p_is_open = True\<rparr>"])
      (simp_all add: pager_create_def pager_inv_def pager_free_list_def put_at_def HEADER_SIZE_def)
qed

lemma pager_create_sim:
  assumes "calm f" "fwritable f" "fbytes f = []" "pager_create (Some f) = Some pg"
  shows "pager_sim pg [] {} Map.empty" "p_page_count pg = 1" "header_synced pg"
proof -
  obtain pg0 where pg0: "pager_create (Some f) = Some pg0" "pager_inv pg0 []" "p_page_count pg0 = 1"
    "fbytes (p_fd pg0) = header_bytes init_header"
    by (rule pager_create_inv[OF assms(1-3)])
  moreover have "disk_header pg0 = init_header"
    using get_at_full[of "header_bytes init_header"]
    by (simp add: disk_header_def pg0(4) header_roundtrip)
  moreover have "p_first_free_page pg0 = 0" "p_free_page_count pg0 = 0"
    using pg0(2) by (auto simp: pager_inv_def pager_free_list_def)
  ultimately show "pager_sim pg [] {} Map.empty" "p_page_count pg = 1" "header_synced pg"
    using assms(4)
    by (auto simp: pager_sim_def live_pages_def header_synced_def init_header_def word_less_nat_alt)
qed

lemma pager_open_synced:
  assumes "nofail f" "fbytes f = fbytes (p_fd pg)" "header_synced pg"
    "HEADER_SIZE \<le> length (fbytes f)"
  obtains f' where "pager_open (Some f) None = Some (pg\<lparr>p_fd := f',
      p_file_size := length (fbytes f), p_is_open := True\<rparr>)" "fbytes f' = fbytes f" "same_env f f'"
proof -
  obtain f1 where f1: "sys_fstat f = (Some (length (fbytes f)), f1)" "fbytes f1 = fbytes f"
    "same_env f f1"
    using sys_fstat_ok[OF assms(1)] by blast
  have "nofail f1" "HEADER_SIZE \<le> length (fbytes f1)"
    using same_env_nofail[OF f1(3) assms(1)] assms(4) f1(2) by auto
  then obtain f2 where f2: "read_header f1 = (Some (disk_header pg), f2)" "fbytes f2 = fbytes f1"
    "same_env f1 f2"
    unfolding disk_header_def using assms(2) f1(2) read_header_ok by metis
  show thesis
    using f1 f2 assms(3) same_env_trans[OF f1(3) f2(3)]
    by (intro that[of f2]) (simp_all add: pager_open_def header_synced_def)
qed

section \<open>What the pager guarantees\<close>

definition fresh_file :: fdesc where
  "fresh_file = \<lparr>fbytes = [], fpos = 0, fwritable = True, fsched = [SysShort 5, SysOk, SysShort 9]\<rparr>"

lemma fresh_file_ok: "calm fresh_file" "fwritable fresh_file" "fbytes fresh_file = []"
  by (simp_all add: fresh_file_def calm_def)

text \<open>
  C1: Take any trace of page allocations, frees, writes and reads that the pager completes on a
  freshly created database, in which the client touches only pages it has allocated and not
  freed. Then the trace is one of the specification: no allocation ever returns the header page
  or a page that is still allocated, and each read returns what was last written to that page
  since its allocation, whatever is allocated, freed or written in between.
\<close>

theorem pager_refines_spec:
  assumes "calm f" "fwritable f" "fbytes f = []" "pager_create (Some f) = Some pg"
    and "pager_trace pg es pg'" "uses_live es {}" "length es + 1 < 2 ^ 32"
  shows "spec_ok es {} Map.empty"
  using pager_trace_sim[OF assms(5) pager_create_sim(1)[OF assms(1-4)] assms(6)]
    pager_create_sim(2)[OF assms(1-4)] assms(7) by simp

lemma demo_trace:
  assumes "pager_create (Some fresh_file) = Some pg"
  obtains pg' where "pager_trace pg [Alloc 1, Write 1 (replicate PAGE_SIZE 7), Free 1, Alloc 1] pg'"
proof -
  note c = pager_create_sim[OF fresh_file_ok assms]
  have i0: "pager_inv pg []" using c(1) by (simp add: pager_sim_def)
  have "p_page_count pg + 1 \<noteq> 0" by (simp add: c(2))
  with i0 obtain pg1 where "pager_allocate_page pg = (Some (p_page_count pg), pg1)"
    "pager_inv pg1 []" "p_page_count pg1 = p_page_count pg + 1"
    using pager_allocate_grow by blast
  then have s1: "pager_allocate_page pg = (Some 1, pg1)" "pager_inv pg1 []" "p_page_count pg1 = 2"
    by (simp_all add: c(2))
  have l1: "1 \<in> live_pages pg1 []" by (simp add: live_pages_def s1(3))
  obtain pg2 where s2: "pager_write_page 1 (replicate PAGE_SIZE 7) pg1 = (True, pg2)"
    "pager_inv pg2 []" "p_page_count pg2 = 2"
    unfolding s1(3)[symmetric] by (rule pager_write_live[OF s1(2) l1 length_replicate])
  have l2: "1 \<in> live_pages pg2 []" by (simp add: live_pages_def s2(3))
  obtain pg3 where s3: "pager_free_page 1 pg2 = (True, pg3)" "pager_inv pg3 [1]"
    using pager_free_push[OF s2(2) l2] by blast
  obtain pg4 where s4: "pager_allocate_page pg3 = (Some 1, pg4)"
    using pager_allocate_pop[OF s3(2)] by blast
  show thesis
    by (rule that, rule trace_cons[OF step_alloc[OF s1(1)]
          trace_cons[OF step_write[OF length_replicate s2(1)]
          trace_cons[OF step_free[OF s3(1)] trace_cons[OF step_alloc[OF s4] trace_nil]]]])
qed

theorem pager_refines_spec_witness:
  "\<exists>pg pg'. pager_create (Some fresh_file) = Some pg \<and>
     pager_trace pg [Alloc 1, Write 1 (replicate PAGE_SIZE 7), Free 1, Alloc 1] pg' \<and>
     spec_ok [Alloc 1, Write 1 (replicate PAGE_SIZE 7), Free 1, Alloc 1] {} Map.empty"
proof -
  obtain pg where pg: "pager_create (Some fresh_file) = Some pg"
    using pager_create_inv[OF fresh_file_ok] by blast
  moreover obtain pg' where
    "pager_trace pg [Alloc 1, Write 1 (replicate PAGE_SIZE 7), Free 1, Alloc 1] pg'"
    by (rule demo_trace[OF pg])
  ultimately show ?thesis
    using pager_refines_spec[OF fresh_file_ok pg] by (intro exI[of _ pg] exI[of _ pg']) simp
qed

text \<open>
  C20: The pager never gets stuck. After any such trace a further allocation succeeds, and so does
  freeing, reading or overwriting any page that is allocated at that point.
\<close>

theorem pager_progress:
  assumes "calm f" "fwritable f" "fbytes f = []" "pager_create (Some f) = Some pg"
    and "pager_trace pg es pg'" "uses_live es {}" "length es + 2 < 2 ^ 32"
  shows "(\<exists>p pg''. pager_step pg' (Alloc p) pg'') \<and>
    (\<forall>p \<in> live_after es {}. (\<exists>pg''. pager_step pg' (Free p) pg'') \<and>
       (\<exists>b pg''. pager_step pg' (Read p b) pg'') \<and>
       (\<forall>b. length b = PAGE_SIZE \<longrightarrow> (\<exists>pg''. pager_step pg' (Write p b) pg'')))"
proof -
  note c = pager_create_sim[OF assms(1-4)]
  obtain ps' m' where sim: "pager_sim pg' ps' (live_after es {}) m'"
    and cnt: "unat (p_page_count pg') \<le> 1 + length es"
    using pager_trace_sim[OF assms(5) c(1) assms(6)] c(2) assms(7) by auto
  have room: "p_page_count pg' + 1 \<noteq> 0"
    using cnt assms(7) by (auto simp: unat_eq_zero[symmetric] unat_word_ariths)
  have inv: "pager_inv pg' ps'" and live: "live_after es {} = live_pages pg' ps'"
    using sim by (auto simp: pager_sim_def)
  have "\<exists>p pg''. pager_step pg' (Alloc p) pg''"
    using pager_sim_alloc[OF sim room] step_alloc by metis
  moreover have "\<exists>pg''. pager_step pg' (Free p) pg''" if "p \<in> live_pages pg' ps'" for p
    using pager_free_push[OF inv that] step_free by metis
  moreover have "\<exists>b pg''. pager_step pg' (Read p b) pg''" if "p \<in> live_pages pg' ps'" for p
    using pager_read_live[OF inv that] step_read by metis
  moreover have "\<exists>pg''. pager_step pg' (Write p b) pg''"
    if "p \<in> live_pages pg' ps'" "length b = PAGE_SIZE" for p b
    using pager_write_live[OF inv that] step_write[OF that(2)] by metis
  ultimately show ?thesis by (simp add: live)
qed

theorem pager_progress_witness:
  "\<exists>pg pg'. pager_create (Some fresh_file) = Some pg \<and>
     pager_trace pg [Alloc 1, Write 1 (replicate PAGE_SIZE 7), Free 1, Alloc 1] pg' \<and>
     (\<exists>b pg''. pager_step pg' (Read 1 b) pg'')"
proof -
  obtain pg where pg: "pager_create (Some fresh_file) = Some pg"
    using pager_create_inv[OF fresh_file_ok] by blast
  moreover obtain pg' where
    "pager_trace pg [Alloc 1, Write 1 (replicate PAGE_SIZE 7), Free 1, Alloc 1] pg'"
    by (rule demo_trace[OF pg])
  ultimately show ?thesis
    using pager_progress[OF fresh_file_ok pg] by (intro exI[of _ pg] exI[of _ pg']) simp
qed

text \<open>
  Pages are independent: after a successful write of page \<open>p\<close> a read of any page \<open>q\<close> of the
  file returns the bytes just written if \<open>q = p\<close> and the old contents of \<open>q\<close> otherwise, in spite
  of interrupted and short system calls.
\<close>

theorem pager_write_read:
  assumes "pager_ready pg" "pager_valid pg p" "pager_valid pg q" "length b = PAGE_SIZE"
  shows "\<exists>pg' pg''. pager_write_page p b pg = (True, pg') \<and>
    pager_read_page q pg' = (Some (if q = p then b else pager_page pg q), pg'')"
  by (rule pager.rd_after_wr[OF assms])

definition two_page_pager :: Pager where
  "two_page_pager = \<lparr>p_fd = \<lparr>fbytes = replicate (2 * PAGE_SIZE) 3, fpos = 17, fwritable = True,
       fsched = [SysIntr, SysShort 1, SysOk, SysIntr]\<rparr>,
     p_page_count = 2, p_first_free_page = 0, p_free_page_count = 0,
     p_file_size = 2 * PAGE_SIZE, p_is_open = True\<rparr>"

theorem pager_write_read_witness:
  "\<exists>pg' pg''. pager_write_page 1 (replicate PAGE_SIZE 9) two_page_pager = (True, pg') \<and>
     pager_read_page 0 pg' = (Some (if 0 = (1::u32) then replicate PAGE_SIZE 9
       else pager_page two_page_pager 0), pg'')"
  by (rule pager_write_read)
    (simp_all add: two_page_pager_def pager_ready_def pager_valid_def pager_is_valid_page_def
      nofail_def get_page_offset_def)

text \<open>
  Counters survive a restart: whenever the header in the file agrees with the pager, closing
  the pager and opening the file again yields a pager with the same page count, free list head
  and free page count.
\<close>

theorem pager_close_open:
  assumes "nofail (p_fd pg)" "header_synced pg" "HEADER_SIZE \<le> length (fbytes (p_fd pg))"
  shows "\<exists>pg'. pager_open (Some (pager_close pg)) None = Some pg' \<and>
    (pager_stats pg')\<lparr>ps_file_size := 0\<rparr> = (pager_stats pg)\<lparr>ps_file_size := 0\<rparr> \<and>
    fbytes (p_fd pg') = fbytes (p_fd pg)"
proof -
  have cl: "nofail (pager_close pg)" "fbytes (pager_close pg) = fbytes (p_fd pg)"
    using assms(1) by (auto simp: pager_close_def sys_defs nofail_def split: list.splits)
  then obtain f' where "pager_open (Some (pager_close pg)) None = Some (pg\<lparr>p_fd := f',
      p_file_size := length (fbytes (pager_close pg)), p_is_open := True\<rparr>)"
    "fbytes f' = fbytes (pager_close pg)"
    using pager_open_synced[OF cl assms(2)] assms(3) by metis
  with cl show ?thesis by (auto simp: pager_stats_def)
qed

theorem pager_close_open_witness:
  "\<exists>pg pg'. pager_create (Some fresh_file) = Some pg \<and>
     pager_open (Some (pager_close pg)) None = Some pg' \<and>
     (pager_stats pg')\<lparr>ps_file_size := 0\<rparr> = (pager_stats pg)\<lparr>ps_file_size := 0\<rparr>"
proof -
  obtain pg where pg: "pager_create (Some fresh_file) = Some pg" "pager_inv pg []"
    using pager_create_inv[OF fresh_file_ok] by blast
  moreover have "header_synced pg" by (rule pager_create_sim(3)[OF fresh_file_ok pg(1)])
  ultimately show ?thesis
    using pager_close_open[of pg] by (auto simp: pager_inv_def)
qed

text \<open>
  Reusing a free page is not recorded in the file: \<^verbatim>\<open>pager_allocate_page\<close> takes the head
  of the free list without writing the header, so after a restart the same page, by now in use,
  is handed out a second time.
\<close>

theorem pager_reuse_lost_on_restart:
  assumes "pager_inv pg (p # ps)" "header_synced pg"
  shows "\<exists>pg1 pg2 pg3. pager_allocate_page pg = (Some p, pg1) \<and>
    pager_open (Some (pager_close pg1)) None = Some pg2 \<and>
    pager_allocate_page pg2 = (Some p, pg3)"
proof -
  obtain pg1 where pg1: "pager_allocate_page pg = (Some p, pg1)" "pager_inv pg1 ps"
    "fbytes (p_fd pg1) = fbytes (p_fd pg)" "p_page_count pg1 = p_page_count pg"
    by (rule pager_allocate_pop[OF assms(1)])
  have cl: "calm (pager_close pg1)" "fwritable (pager_close pg1)"
    "fbytes (pager_close pg1) = fbytes (p_fd pg)"
    using pg1(2,3) by (auto simp: pager_close_def pager_inv_def sys_defs calm_def split: list.splits)
  have len: "HEADER_SIZE \<le> length (fbytes (pager_close pg1))"
    using assms(1) by (simp add: cl(3) pager_inv_def)
  obtain f' where f': "pager_open (Some (pager_close pg1)) None = Some (pg\<lparr>p_fd := f',
      p_file_size := length (fbytes (pager_close pg1)), p_is_open := True\<rparr>)"
    "fbytes f' = fbytes (pager_close pg1)" "same_env (pager_close pg1) f'"
    by (rule pager_open_synced[OF calm_nofail[OF cl(1)] cl(3) assms(2) len])
  let ?pg2 = "pg\<lparr>p_fd := f', p_file_size := length (fbytes (pager_close pg1)), p_is_open := True\<rparr>"
  have "pager_inv ?pg2 (p # ps)"
    using assms(1) f'(2) cl same_env_calm[OF f'(3)] same_env_writable[OF f'(3)]
    by (auto simp: pager_inv_def pager_free_list_def)
  then obtain pg3 where "pager_allocate_page ?pg2 = (Some p, pg3)"
    using pager_allocate_pop by metis
  with pg1(1) f'(1) show ?thesis by blast
qed

lemma freed_page_state:
  obtains pg where "pager_inv pg [1]" "header_synced pg"
proof -
  obtain pg where pg: "pager_create (Some fresh_file) = Some pg"
    using pager_create_inv[OF fresh_file_ok] by blast
  note c = pager_create_sim[OF fresh_file_ok pg]
  have "pager_inv pg []" "p_page_count pg + 1 \<noteq> 0"
    using c(1,2) by (simp_all add: pager_sim_def)
  then obtain pg1 where "pager_inv pg1 []" "p_page_count pg1 = p_page_count pg + 1"
    "header_synced pg1"
    using pager_allocate_grow c(3) by metis
  moreover from this have "1 \<in> live_pages pg1 []" by (simp add: live_pages_def c(2))
  ultimately show thesis using pager_free_push that by metis
qed

theorem pager_reuse_lost_on_restart_witness:
  "\<exists>pg pg1 pg2 pg3. pager_allocate_page pg = (Some 1, pg1) \<and>
     pager_open (Some (pager_close pg1)) None = Some pg2 \<and>
     pager_allocate_page pg2 = (Some 1, pg3)"
proof -
  obtain pg where "pager_inv pg [1]" "header_synced pg" by (rule freed_page_state)
  then show ?thesis using pager_reuse_lost_on_restart by blast
qed

text \<open>
  \<^verbatim>\<open>pager_create\<close> writes the 48 bytes of the header, not a page: it reports a file of one
  whole page, yet reading the header page back fails at the end of the file.
\<close>

theorem pager_create_short_header:
  assumes "calm f" "fwritable f" "fbytes f = []"
  shows "\<exists>pg. pager_create (Some f) = Some pg \<and> ps_page_count (pager_stats pg) = 1 \<and>
    ps_file_size (pager_stats pg) = PAGE_SIZE \<and> length (fbytes (p_fd pg)) = HEADER_SIZE \<and>
    fst (pager_read_header pg) = None"
proof -
  obtain pg where pg: "pager_create (Some f) = Some pg" "pager_inv pg []" "p_page_count pg = 1"
    "fbytes (p_fd pg) = header_bytes init_header"
    by (rule pager_create_inv[OF assms])
  then have "nofail (p_fd pg)" by (simp add: pager_inv_def)
  then obtain g where g: "sys_lseek (get_page_offset 0) (p_fd pg) = (True, g)"
    "fpos g = get_page_offset 0" "fbytes g = fbytes (p_fd pg)"
    using sys_lseek_ok by blast
  have "fst (read_exact PAGE_SIZE g) = None"
    by (rule read_exact_eof) (simp_all add: g pg(4) HEADER_SIZE_def PAGE_SIZE_def)
  with g(1) have "fst (pager_read_header pg) = None"
    by (auto simp: pager_read_header_def pager_read_page_def split: prod.split)
  with pg show ?thesis
    by (auto simp: pager_stats_def pager_create_def split: option.splits prod.splits bool.splits)
qed

theorem pager_create_short_header_witness:
  "\<exists>pg. pager_create (Some fresh_file) = Some pg \<and> fst (pager_read_header pg) = None"
  using pager_create_short_header[OF fresh_file_ok] by blast

end
