(* ===== verification/Float64.thy ===== *)
theory Float64
  imports Prelude
begin

text \<open>
  IEEE 754 binary64 numbers, the C type \<^verbatim>\<open>double\<close>, as bit patterns of type \<^typ>\<open>64 word\<close>, and
  the conversions of the C library that the program uses: \<^verbatim>\<open>atof\<close>, \<^verbatim>\<open>atoll\<close>,
  \<^verbatim>\<open>printf\<close> of \<^verbatim>\<open>%lld\<close> and \<^verbatim>\<open>%.15g\<close>.

  Every finite value is an integer multiple of \<open>2 ^ -1074\<close>; \<open>fscaled\<close> is that integer.  All
  rounding goes through \<open>round_mag\<close>, round to nearest with ties to even.
\<close>

unbundle bit_operations_syntax

section \<open>Reading a bit pattern\<close>

definition fsign :: "u64 \<Rightarrow> bool" where
  "fsign w \<longleftrightarrow> bit w 63"

definition fcode :: "u64 \<Rightarrow> nat" where
  "fcode w = unat w mod 2 ^ 63"

definition FINF :: nat where
  "FINF = 0x7FF * 2 ^ 52"

definition is_nan :: "u64 \<Rightarrow> bool" where
  "is_nan w \<longleftrightarrow> FINF < fcode w"

definition is_inf :: "u64 \<Rightarrow> bool" where
  "is_inf w \<longleftrightarrow> fcode w = FINF"

text \<open>The magnitude of a finite code in units of \<open>2 ^ -1074\<close>.\<close>

definition code_mag :: "nat \<Rightarrow> nat" where
  "code_mag c = (let e = c div 2 ^ 52; m = c mod 2 ^ 52 in
     if e = 0 then m else (m + 2 ^ 52) * 2 ^ (e - 1))"

definition fscaled :: "u64 \<Rightarrow> int" where
  "fscaled w = (if fsign w then - int (code_mag (fcode w)) else int (code_mag (fcode w)))"

section \<open>Rounding\<close>

fun bitlen :: "nat \<Rightarrow> nat" where
  "bitlen n = (if n = 0 then 0 else Suc (bitlen (n div 2)))"

declare bitlen.simps [simp del]

text \<open>Round half to even of \<open>num / den\<close>.\<close>

definition div_even :: "nat \<Rightarrow> nat \<Rightarrow> nat" where
  "div_even num den = (let m = num div den; r = num mod den in
     if den < 2 * r \<or> (2 * r = den \<and> odd m) then m + 1 else m)"

text \<open>
  The code nearest to \<open>num / den\<close> units: keep 53 bits of the quotient, or all of them when it is
  subnormal.  A carry out of the significand moves to the next exponent by itself.
\<close>

definition round_mag :: "nat \<Rightarrow> nat \<Rightarrow> nat" where
  "round_mag num den =
     (let s = bitlen (num div den) - 53 in
      min FINF (s * 2 ^ 52 + div_even num (den * 2 ^ s)))"

definition fmake :: "bool \<Rightarrow> nat \<Rightarrow> u64" where
  "fmake neg c = word_of_nat (if neg then 2 ^ 63 + c else c)"

definition FNAN :: u64 where
  "FNAN = 0x7FF8000000000000"

definition fround :: "bool \<Rightarrow> nat \<Rightarrow> nat \<Rightarrow> u64" where
  "fround neg num den = fmake neg (round_mag num den)"

section \<open>Arithmetic and comparison\<close>

definition of_int64 :: "u64 \<Rightarrow> u64" where
  "of_int64 i = fround (sint i < 0) (nat \<bar>sint i\<bar> * 2 ^ 1074) 1"

definition fneg :: "u64 \<Rightarrow> u64" where
  "fneg w = w XOR push_bit 63 1"

definition fadd :: "u64 \<Rightarrow> u64 \<Rightarrow> u64" where
  "fadd a b =
     (if is_nan a \<or> is_nan b then FNAN
      else if is_inf a then (if is_inf b \<and> fsign a \<noteq> fsign b then FNAN else a)
      else if is_inf b then b
      else let v = fscaled a + fscaled b in
        if v = 0 then fmake (fsign a \<and> fsign b) 0 else fround (v < 0) (nat \<bar>v\<bar>) 1)"

definition fsub :: "u64 \<Rightarrow> u64 \<Rightarrow> u64" where
  "fsub a b = (if is_nan b then FNAN else fadd a (fneg b))"

definition fmul :: "u64 \<Rightarrow> u64 \<Rightarrow> u64" where
  "fmul a b =
     (let s = (fsign a \<noteq> fsign b) in
      if is_nan a \<or> is_nan b then FNAN
      else if is_inf a then (if fcode b = 0 then FNAN else fmake s FINF)
      else if is_inf b then (if fcode a = 0 then FNAN else fmake s FINF)
      else fround s (code_mag (fcode a) * code_mag (fcode b)) (2 ^ 1074))"

definition fdiv :: "u64 \<Rightarrow> u64 \<Rightarrow> u64" where
  "fdiv a b =
     (let s = (fsign a \<noteq> fsign b) in
      if is_nan a \<or> is_nan b then FNAN
      else if is_inf a then (if is_inf b then FNAN else fmake s FINF)
      else if is_inf b then fmake s 0
      else if fcode b = 0 then (if fcode a = 0 then FNAN else fmake s FINF)
      else fround s (code_mag (fcode a) * 2 ^ 1074) (code_mag (fcode b)))"

text \<open>Comparison: infinities compare like a magnitude beyond every finite one.\<close>

definition fkey :: "u64 \<Rightarrow> int" where
  "fkey w = (if fsign w then - int (fcode w) else int (fcode w))"

definition flt :: "u64 \<Rightarrow> u64 \<Rightarrow> bool" where
  "flt a b \<longleftrightarrow> \<not> is_nan a \<and> \<not> is_nan b \<and> fkey a < fkey b"

definition feq :: "u64 \<Rightarrow> u64 \<Rightarrow> bool" where
  "feq a b \<longleftrightarrow> \<not> is_nan a \<and> \<not> is_nan b \<and> fkey a = fkey b"

definition fle :: "u64 \<Rightarrow> u64 \<Rightarrow> bool" where
  "fle a b \<longleftrightarrow> flt a b \<or> feq a b"

text \<open>Truncation to a 64-bit integer; out of range (or not a number) it is undefined in C.\<close>

definition to_int64 :: "u64 \<Rightarrow> u64 option" where
  "to_int64 w =
     (if FINF \<le> fcode w then None else
      let m = int (code_mag (fcode w) div 2 ^ 1074); v = (if fsign w then - m else m) in
      if - (2 ^ 63) \<le> v \<and> v < 2 ^ 63 then Some (word_of_int v) else None)"

section \<open>Decimal text\<close>

definition digit_char :: "nat \<Rightarrow> char" where
  "digit_char d = char_of (48 + d)"

definition is_digit :: "char \<Rightarrow> bool" where
  "is_digit c \<longleftrightarrow> of_char c \<in> {48::nat..57}"

definition digit_val :: "char \<Rightarrow> nat" where
  "digit_val c = of_char c - 48"

definition dec_val :: "string \<Rightarrow> nat" where
  "dec_val ds = foldl (\<lambda>n c. 10 * n + digit_val c) 0 ds"

fun dec_digits :: "nat \<Rightarrow> string" where
  "dec_digits n =
     (if n < 10 then [digit_char n] else dec_digits (n div 10) @ [digit_char (n mod 10)])"

declare dec_digits.simps [simp del]

text \<open>\<^verbatim>\<open>printf("%lld", i)\<close>.\<close>

definition fmt_lld :: "u64 \<Rightarrow> string" where
  "fmt_lld i = (if sint i < 0 then ''-'' @ dec_digits (nat (- sint i)) else dec_digits (nat (sint i)))"

text \<open>\<^verbatim>\<open>atoll\<close> on a string of digits: glibc saturates at the largest integer.\<close>

definition atoll :: "string \<Rightarrow> u64" where
  "atoll s = word_of_nat (min (2 ^ 63 - 1) (dec_val (takeWhile is_digit s)))"

text \<open>\<^verbatim>\<open>atof\<close> on an unsigned decimal number with optional fraction and exponent.\<close>

definition exp_part :: "string \<Rightarrow> int" where
  "exp_part s =
     (case s of
        c # r \<Rightarrow>
          if c = CHR ''e'' \<or> c = CHR ''E'' then
            (case r of
               d # t \<Rightarrow>
                 if d = CHR ''+'' then int (dec_val (takeWhile is_digit t))
                 else if d = CHR ''-'' then - int (dec_val (takeWhile is_digit t))
                 else int (dec_val (takeWhile is_digit r))
             | [] \<Rightarrow> 0)
          else 0
      | [] \<Rightarrow> 0)"

definition atof :: "string \<Rightarrow> u64" where
  "atof s =
     (let ip = takeWhile is_digit s; r = dropWhile is_digit s;
          fp = (case r of c # t \<Rightarrow> if c = CHR ''.'' then takeWhile is_digit t else [] | [] \<Rightarrow> []);
          r2 = (case r of c # t \<Rightarrow> if c = CHR ''.'' then dropWhile is_digit t else r | [] \<Rightarrow> []);
          e = exp_part r2 - int (length fp); v = dec_val (ip @ fp)
      in if 0 \<le> e then fround False (v * 10 ^ nat e * 2 ^ 1074) 1
         else fround False (v * 2 ^ 1074) (10 ^ nat (- e)))"

text \<open>\<^verbatim>\<open>printf("%.15g", x)\<close>.\<close>

fun dec_scale :: "nat \<Rightarrow> nat \<Rightarrow> nat \<Rightarrow> nat" where
  "dec_scale 0 num den = 0"
| "dec_scale (Suc fuel) num den = (if den \<le> num then 0 else Suc (dec_scale fuel (10 * num) den))"

definition dec_exp :: "nat \<Rightarrow> nat \<Rightarrow> int" where
  "dec_exp num den =
     (if den \<le> num then int (length (dec_digits (num div den))) - 1
      else - int (dec_scale 400 num den))"

definition strip_zeros :: "string \<Rightarrow> string" where
  "strip_zeros s = rev (dropWhile (\<lambda>c. c = CHR ''0'') (rev s))"

definition with_point :: "string \<Rightarrow> string \<Rightarrow> string" where
  "with_point ip fp = (if strip_zeros fp = [] then ip else ip @ ''.'' @ strip_zeros fp)"

definition exp_digits :: "nat \<Rightarrow> string" where
  "exp_digits n = (if n < 10 then CHR ''0'' # dec_digits n else dec_digits n)"

definition fmt_mag_g15 :: "nat \<Rightarrow> string" where
  "fmt_mag_g15 c =
     (if c = 0 then ''0'' else
      let num = code_mag c; den = 2 ^ 1074; x0 = dec_exp num den;
          d0 = (if x0 \<le> 14 then div_even (num * 10 ^ nat (14 - x0)) den
                else div_even num (den * 10 ^ nat (x0 - 14)));
          (d, x) = (if d0 = 10 ^ 15 then (10 ^ 14, x0 + 1) else (d0, x0));
          ds = dec_digits d
      in if x < - 4 \<or> 15 \<le> x
         then with_point (take 1 ds) (drop 1 ds) @ ''e'' @ (if x < 0 then ''-'' else ''+'') @
              exp_digits (nat \<bar>x\<bar>)
         else if x < 0 then with_point ''0'' (replicate (nat (- x - 1)) CHR ''0'' @ ds)
         else with_point (take (nat (x + 1)) ds) (drop (nat (x + 1)) ds))"

definition fmt_g15 :: "u64 \<Rightarrow> string" where
  "fmt_g15 w =
     (if fsign w then ''-'' else '''') @
     (if is_nan w then ''nan'' else if is_inf w then ''inf'' else fmt_mag_g15 (fcode w))"

section \<open>Rounding is monotone\<close>

lemma bitlen_bounds: "0 < n \<Longrightarrow> 2 ^ (bitlen n - 1) \<le> n \<and> n < 2 ^ bitlen n"
proof (induction n rule: bitlen.induct)
  case (1 n)
  show ?case
  proof (cases "n = 1")
    case False
    then have h: "0 < n div 2" "n \<noteq> 0" using 1(2) by auto
    from 1(1)[OF h(2,1)] have b: "2 ^ (bitlen (n div 2) - 1) \<le> n div 2" "n div 2 < 2 ^ bitlen (n div 2)"
      by auto
    have "bitlen (n div 2) \<noteq> 0" using h(1) by (subst bitlen.simps) simp
    then obtain k where k: "bitlen (n div 2) = Suc k" by (cases "bitlen (n div 2)") auto
    have "bitlen n = Suc (Suc k)" using h(2) by (subst bitlen.simps) (simp add: k)
    with b show ?thesis by (simp add: k) linarith
  qed (simp add: bitlen.simps)
qed

lemma bitlen_mono: "m \<le> n \<Longrightarrow> bitlen m \<le> bitlen n"
proof (induction m arbitrary: n rule: bitlen.induct)
  case (1 m)
  show ?case
  proof (cases "m = 0")
    case False
    with 1(2) have "m div 2 \<le> n div 2" "n \<noteq> 0" by auto
    with 1(1)[OF False, of "n div 2"] False show ?thesis
      by (simp add: bitlen.simps[of m] bitlen.simps[of n])
  qed (simp add: bitlen.simps[of 0])
qed

lemma div_even_mono:
  assumes "m \<le> n" "0 < d"
  shows "div_even m d \<le> div_even n d"
proof (cases "m div d = n div d")
  case True
  moreover from this have "m mod d \<le> n mod d"
    using assms(1) by (metis div_mult_mod_eq nat_add_left_cancel_le)
  ultimately show ?thesis by (auto simp: div_even_def Let_def)
next
  case False
  with div_le_mono[OF assms(1), of d] have "m div d + 1 \<le> n div d" by simp
  then show ?thesis by (auto simp: div_even_def Let_def)
qed

lemma div_even_bounds:
  assumes "0 < d"
  shows "n < k * d \<Longrightarrow> div_even n d \<le> k" "k * d \<le> n \<Longrightarrow> k \<le> div_even n d"
proof -
  assume "n < k * d"
  then have "n div d < k" by (simp add: less_mult_imp_div_less)
  then show "div_even n d \<le> k" by (auto simp: div_even_def Let_def)
next
  assume "k * d \<le> n"
  then have "k \<le> n div d" using assms by (simp add: less_eq_div_iff_mult_less_eq)
  then show "k \<le> div_even n d" by (auto simp: div_even_def Let_def)
qed

lemma div_even_exact: "0 < d \<Longrightarrow> div_even (k * d) d = k"
  by (simp add: div_even_def)

text \<open>The code before the overflow check, with its bounds inside one exponent.\<close>

definition raw_code :: "nat \<Rightarrow> nat" where
  "raw_code n = (let s = bitlen n - 53 in s * 2 ^ 52 + div_even n (2 ^ s))"

lemma round_mag_1: "round_mag n 1 = min FINF (raw_code n)"
  by (simp add: round_mag_def raw_code_def Let_def)

lemma raw_code_upper: "raw_code n \<le> (bitlen n - 53 + 2) * 2 ^ 52"
proof (cases "n = 0")
  case False
  let ?s = "bitlen n - 53"
  have "n < 2 ^ bitlen n" using bitlen_bounds[of n] False by simp
  also have "(2::nat) ^ bitlen n \<le> 2 ^ (53 + ?s)" by (rule power_increasing) auto
  finally have "n < 2 ^ 53 * 2 ^ ?s" by (simp only: power_add)
  from div_even_bounds(1)[OF _ this] have "div_even n (2 ^ ?s) \<le> 2 ^ 53" by simp
  then show ?thesis by (simp add: raw_code_def Let_def algebra_simps)
qed (simp add: raw_code_def div_even_def bitlen.simps)

lemma raw_code_lower:
  assumes "53 < bitlen n"
  shows "(bitlen n - 53 + 1) * 2 ^ 52 \<le> raw_code n"
proof -
  let ?s = "bitlen n - 53"
  have "0 < n" using assms by (cases n) (auto simp: bitlen.simps)
  then have "2 ^ (bitlen n - 1) \<le> n" using bitlen_bounds by simp
  moreover have "(2::nat) ^ (bitlen n - 1) = 2 ^ 52 * 2 ^ ?s"
  proof -
    have "bitlen n - 1 = 52 + ?s" using assms by simp
    then show ?thesis by (simp only: power_add)
  qed
  ultimately have "2 ^ 52 * 2 ^ ?s \<le> n" by simp
  from div_even_bounds(2)[OF _ this] have "2 ^ 52 \<le> div_even n (2 ^ ?s)" by simp
  then show ?thesis by (simp add: raw_code_def Let_def algebra_simps)
qed

lemma raw_code_jump:
  assumes "m \<le> n" "bitlen m - 53 < bitlen n - 53"
  shows "(bitlen m - 53 + 2) * 2 ^ 52 \<le> raw_code n"
proof -
  have "bitlen m - 53 + 2 \<le> bitlen n - 53 + 1" using assms(2) by simp
  then have "(bitlen m - 53 + 2) * 2 ^ 52 \<le> (bitlen n - 53 + 1) * 2 ^ 52" by (rule mult_le_mono1)
  also have "\<dots> \<le> raw_code n" using assms(2) by (intro raw_code_lower) simp
  finally show ?thesis .
qed

lemma raw_code_mono:
  assumes "m \<le> n"
  shows "raw_code m \<le> raw_code n"
proof (cases "bitlen m - 53 = bitlen n - 53")
  case True
  with div_even_mono[OF assms, of "2 ^ (bitlen n - 53)"] show ?thesis
    by (simp add: raw_code_def Let_def)
next
  case False
  with bitlen_mono[OF assms] raw_code_jump[OF assms] raw_code_upper[of m] show ?thesis
    by linarith
qed

lemma raw_code_strict:
  assumes "m < n" "2 ^ (bitlen m - 53) dvd m" "2 ^ (bitlen n - 53) dvd n"
  shows "raw_code m < raw_code n"
proof -
  obtain a b where a: "m = a * 2 ^ (bitlen m - 53)" and b: "n = b * 2 ^ (bitlen n - 53)"
    using assms(2,3) by (metis dvd_def mult.commute)
  have ra: "raw_code m = (bitlen m - 53) * 2 ^ 52 + a"
    using div_even_exact[of "2 ^ (bitlen m - 53)" a] a[symmetric] by (simp add: raw_code_def Let_def)
  have rb: "raw_code n = (bitlen n - 53) * 2 ^ 52 + b"
    using div_even_exact[of "2 ^ (bitlen n - 53)" b] b[symmetric] by (simp add: raw_code_def Let_def)
  show ?thesis
  proof (cases "bitlen m - 53 = bitlen n - 53")
    case True
    have "a < b" using assms(1) a b True by (metis mult_less_cancel2)
    then show ?thesis by (simp add: ra rb True)
  next
    case False
    then have lt: "bitlen m - 53 < bitlen n - 53" using bitlen_mono[of m n] assms(1) by simp
    have "a < 2 ^ 53"
    proof (cases "m = 0")
      case False
      then have "m < 2 ^ bitlen m" using bitlen_bounds by simp
      also have "(2::nat) ^ bitlen m \<le> 2 ^ (53 + (bitlen m - 53))" by (rule power_increasing) auto
      finally have "a * 2 ^ (bitlen m - 53) < 2 ^ 53 * 2 ^ (bitlen m - 53)"
        using a by (simp only: power_add)
      then show ?thesis by simp
    qed (use a in auto)
    with raw_code_jump[OF _ lt] assms(1) ra show ?thesis by (simp add: algebra_simps)
  qed
qed

section \<open>Integers as floating point numbers\<close>

lemma FINF_lt: "FINF < 2 ^ 63"
  by (simp add: FINF_def)

lemma fmake_read:
  assumes "c < 2 ^ 63"
  shows "fcode (fmake neg c) = c" "fsign (fmake neg c) = neg"
proof -
  have u: "unat (fmake neg c) = (if neg then 2 ^ 63 + c else c)"
    using assms by (simp add: fmake_def unat_of_nat)
  show "fcode (fmake neg c) = c" using assms by (simp add: fcode_def u)
  have "bit (unat (fmake neg c)) 63 \<longleftrightarrow> bit (fmake neg c) 63" by (simp add: bit_unsigned_iff)
  then have "fsign (fmake neg c) \<longleftrightarrow> odd (unat (fmake neg c) div 2 ^ 63)"
    by (simp add: fsign_def bit_iff_odd)
  moreover have "(2 ^ 63 + c) div 2 ^ 63 = 1" "c div 2 ^ 63 = 0"
    using assms by (simp_all only: div_add_self1 div_less)
  ultimately show "fsign (fmake neg c) = neg" by (simp add: u)
qed

definition int_code :: "u64 \<Rightarrow> nat" where
  "int_code i = raw_code (nat \<bar>sint i\<bar> * 2 ^ 1074)"

lemma sint64_bounds: "- (2 ^ 63) \<le> sint (i :: u64)" "sint (i :: u64) < 2 ^ 63"
  using sint_greater_eq[of i] sint_lt[of i] by auto

lemma bitlen_le: "n < 2 ^ k \<Longrightarrow> bitlen n \<le> k"
proof (rule ccontr)
  assume n: "n < 2 ^ k" and "\<not> bitlen n \<le> k"
  then have "(2::nat) ^ k \<le> 2 ^ (bitlen n - 1)" by (intro power_increasing) auto
  moreover have "0 < n" using \<open>\<not> bitlen n \<le> k\<close> by (cases n) (auto simp: bitlen.simps)
  ultimately show False using bitlen_bounds[of n] n by linarith
qed

lemma mag_lt: "m < 2 ^ k \<Longrightarrow> m * 2 ^ 1074 < (2::nat) ^ (k + 1074)"
  by (simp only: power_add mult_less_cancel2) simp

lemma int_code_bound: "int_code i < FINF"
proof -
  let ?n = "nat \<bar>sint i\<bar> * 2 ^ 1074"
  have "\<bar>sint i\<bar> < 2 ^ 64" using sint64_bounds[of i] by simp
  then have "nat \<bar>sint i\<bar> < 2 ^ 64" by (simp add: nat_less_iff)
  then have "bitlen ?n \<le> 64 + 1074" by (intro bitlen_le mag_lt)
  then have "(bitlen ?n - 53 + 2) * 2 ^ 52 \<le> 1087 * 2 ^ 52" by (intro mult_le_mono1) simp
  with raw_code_upper[of ?n] have "int_code i \<le> 1087 * 2 ^ 52" by (simp add: int_code_def)
  then show ?thesis by (simp add: FINF_def)
qed

lemma of_int64_code:
  "fcode (of_int64 i) = int_code i" "fsign (of_int64 i) \<longleftrightarrow> sint i < 0"
proof -
  have "of_int64 i = fmake (sint i < 0) (int_code i)"
    using int_code_bound[of i]
    by (simp add: of_int64_def fround_def round_mag_1 int_code_def min_def del: One_nat_def)
  then show "fcode (of_int64 i) = int_code i" "fsign (of_int64 i) \<longleftrightarrow> sint i < 0"
    using fmake_read[of "int_code i"] int_code_bound[of i] FINF_lt by simp_all
qed

lemma of_int64_not_nan [simp]: "\<not> is_nan (of_int64 i)"
  using int_code_bound[of i] by (simp add: is_nan_def of_int64_code)

lemma of_int64_key: "fkey (of_int64 i) = (if sint i < 0 then - int (int_code i) else int (int_code i))"
  by (simp add: fkey_def of_int64_code)

text \<open>Conversion never reverses an order, and below \<open>2 ^ 53\<close> it keeps it.\<close>

lemma of_int64_mono:
  assumes "sint i \<le> sint j"
  shows "fkey (of_int64 i) \<le> fkey (of_int64 j)"
proof -
  have c: "int_code a \<le> int_code b" if "\<bar>sint a\<bar> \<le> \<bar>sint b\<bar>" for a b :: u64
    unfolding int_code_def using that by (intro raw_code_mono mult_le_mono1) simp
  consider "0 \<le> sint i" | "sint i < 0" "0 \<le> sint j" | "sint j < 0" using assms by linarith
  then show ?thesis
    by cases (use assms c[of i j] c[of j i] in \<open>auto simp: of_int64_key\<close>)
qed

lemma exact_dvd:
  assumes "k \<le> 2 ^ 53"
  shows "(2::nat) ^ (bitlen (k * 2 ^ 1074) - 53) dvd k * 2 ^ 1074"
proof (cases "k = 2 ^ 53")
  case True
  have "k * 2 ^ 1074 < (2::nat) ^ (54 + 1074)" by (intro mag_lt) (simp add: True)
  then have "bitlen (k * 2 ^ 1074) - 53 \<le> 53 + 1074" using bitlen_le by fastforce
  then have "(2::nat) ^ (bitlen (k * 2 ^ 1074) - 53) dvd 2 ^ (53 + 1074)" by (rule le_imp_power_dvd)
  then show ?thesis by (simp only: True power_add)
next
  case False
  then have "k * 2 ^ 1074 < (2::nat) ^ (53 + 1074)" using assms by (intro mag_lt) simp
  then have "bitlen (k * 2 ^ 1074) - 53 \<le> 1074" using bitlen_le by fastforce
  then have "(2::nat) ^ (bitlen (k * 2 ^ 1074) - 53) dvd 2 ^ 1074" by (rule le_imp_power_dvd)
  then show ?thesis by (rule dvd_mult)
qed

lemma of_int64_strict:
  assumes "sint i < sint j" "\<bar>sint i\<bar> \<le> 2 ^ 53" "\<bar>sint j\<bar> \<le> 2 ^ 53"
  shows "fkey (of_int64 i) < fkey (of_int64 j)"
proof -
  have c: "int_code a < int_code b"
    if "\<bar>sint a\<bar> < \<bar>sint b\<bar>" "\<bar>sint b\<bar> \<le> 2 ^ 53" for a b :: u64
  proof -
    have "nat \<bar>sint a\<bar> < nat \<bar>sint b\<bar>" "nat \<bar>sint a\<bar> \<le> 2 ^ 53" "nat \<bar>sint b\<bar> \<le> 2 ^ 53"
      using that by (simp_all add: nat_le_iff)
    then show ?thesis unfolding int_code_def by (intro raw_code_strict exact_dvd) simp_all
  qed
  consider "0 \<le> sint i" | "sint i < 0" "0 < sint j" | "sint i < 0" "sint j = 0" | "sint j < 0"
    using assms(1) by linarith
  then show ?thesis
  proof cases
    case 2
    then have "0 < int_code j" using c[of 0 j] assms(3) by fastforce
    with 2 show ?thesis by (simp add: of_int64_key)
  next
    case 3
    then have "int_code j < int_code i" using c[of j i] assms by auto
    with 3 show ?thesis by (simp add: of_int64_key)
  qed (use assms c[of i j] c[of j i] in \<open>auto simp: of_int64_key\<close>)
qed

lemma of_int64_cmp:
  assumes "\<bar>sint i\<bar> \<le> 2 ^ 53" "\<bar>sint j\<bar> \<le> 2 ^ 53"
  shows "flt (of_int64 i) (of_int64 j) \<longleftrightarrow> sint i < sint j"
    "feq (of_int64 i) (of_int64 j) \<longleftrightarrow> sint i = sint j"
proof -
  have "sint i < sint j \<or> sint i = sint j \<or> sint j < sint i" by linarith
  then show "flt (of_int64 i) (of_int64 j) \<longleftrightarrow> sint i < sint j"
    "feq (of_int64 i) (of_int64 j) \<longleftrightarrow> sint i = sint j"
    using of_int64_strict[of i j] of_int64_strict[of j i] assms
    by (auto simp: flt_def feq_def of_int64_key int_code_def)
qed

section \<open>Decimal round trip\<close>

lemma digit_char_read: "d < 10 \<Longrightarrow> digit_val (digit_char d) = d" "d < 10 \<Longrightarrow> is_digit (digit_char d)"
  by (simp_all add: digit_val_def digit_char_def is_digit_def)

lemma dec_val_snoc: "dec_val (ds @ [c]) = 10 * dec_val ds + digit_val c"
  by (simp add: dec_val_def)

lemma dec_val_digits: "dec_val (dec_digits n) = n"
  by (induction n rule: dec_digits.induct)
    (subst dec_digits.simps, auto simp: dec_val_snoc digit_char_read dec_val_def)

lemma dec_digits_digit: "c \<in> set (dec_digits n) \<Longrightarrow> is_digit c"
  by (induction n rule: dec_digits.induct)
    (subst (asm) (2) dec_digits.simps, auto simp: digit_char_read split: if_splits)

lemma dec_digits_ne [simp]: "dec_digits n \<noteq> []"
  by (simp add: dec_digits.simps)

lemma atoll_digits: "n < 2 ^ 63 \<Longrightarrow> atoll (dec_digits n) = word_of_nat n"
  using dec_digits_digit by (simp add: atoll_def takeWhile_eq_all_conv[THEN iffD2] dec_val_digits)

end
