(* ===== verification/Token.thy ===== *)
theory Token
  imports Float64
begin

text \<open>
  Tokens, \<^verbatim>\<open>src/sql/token.h\<close>.  The enumeration keeps its order; \<open>token_code\<close> is the integer
  value of an enumerator, which the expression tree stores as its operator.  The union of a
  token's value is the datatype \<open>TokenValue\<close>, empty when the token was only zeroed.
\<close>

datatype (plugins only: code size) TokenType =
    TOKEN_EOF | TOKEN_ERROR | TOKEN_IDENTIFIER | TOKEN_INTEGER | TOKEN_REAL | TOKEN_STRING
  | TOKEN_PLUS | TOKEN_MINUS | TOKEN_STAR | TOKEN_SLASH | TOKEN_PERCENT | TOKEN_EQ | TOKEN_NEQ
  | TOKEN_LT | TOKEN_GT | TOKEN_LTE | TOKEN_GTE | TOKEN_DOUBLE_EQ | TOKEN_LIKE_OP | TOKEN_IN_OP
  | TOKEN_BETWEEN_OP | TOKEN_SELECT | TOKEN_FROM | TOKEN_WHERE | TOKEN_AND | TOKEN_OR
  | TOKEN_NOT | TOKEN_IN | TOKEN_LIKE | TOKEN_BETWEEN | TOKEN_IS | TOKEN_NULL | TOKEN_INSERT
  | TOKEN_INTO | TOKEN_VALUES | TOKEN_UPDATE | TOKEN_SET | TOKEN_DELETE | TOKEN_CREATE
  | TOKEN_DROP | TOKEN_TABLE | TOKEN_INDEX | TOKEN_IF | TOKEN_EXISTS | TOKEN_BEGIN
  | TOKEN_COMMIT | TOKEN_ROLLBACK | TOKEN_TRANSACTION | TOKEN_ORDER | TOKEN_BY | TOKEN_ASC
  | TOKEN_DESC | TOKEN_LIMIT | TOKEN_OFFSET | TOKEN_DISTINCT | TOKEN_AS | TOKEN_ON
  | TOKEN_PRIMARY | TOKEN_KEY | TOKEN_UNIQUE | TOKEN_DEFAULT | TOKEN_AUTOINCREMENT
  | TOKEN_INTEGER_KW | TOKEN_REAL_KW | TOKEN_TEXT_KW | TOKEN_BLOB_KW | TOKEN_LPAREN
  | TOKEN_RPAREN | TOKEN_COMMA | TOKEN_DOT | TOKEN_SEMICOLON | TOKEN_QUESTION
  | TOKEN_PLACEHOLDER

text \<open>The enumerators in order, the inverse of \<open>token_code\<close> below.\<close>

definition token_types :: "TokenType list" where
  "token_types =
     [TOKEN_EOF, TOKEN_ERROR, TOKEN_IDENTIFIER, TOKEN_INTEGER, TOKEN_REAL, TOKEN_STRING,
      TOKEN_PLUS, TOKEN_MINUS, TOKEN_STAR, TOKEN_SLASH, TOKEN_PERCENT, TOKEN_EQ, TOKEN_NEQ,
      TOKEN_LT, TOKEN_GT, TOKEN_LTE, TOKEN_GTE, TOKEN_DOUBLE_EQ, TOKEN_LIKE_OP, TOKEN_IN_OP,
      TOKEN_BETWEEN_OP, TOKEN_SELECT, TOKEN_FROM, TOKEN_WHERE, TOKEN_AND, TOKEN_OR, TOKEN_NOT,
      TOKEN_IN, TOKEN_LIKE, TOKEN_BETWEEN, TOKEN_IS, TOKEN_NULL, TOKEN_INSERT, TOKEN_INTO,
      TOKEN_VALUES, TOKEN_UPDATE, TOKEN_SET, TOKEN_DELETE, TOKEN_CREATE, TOKEN_DROP, TOKEN_TABLE,
      TOKEN_INDEX, TOKEN_IF, TOKEN_EXISTS, TOKEN_BEGIN, TOKEN_COMMIT, TOKEN_ROLLBACK,
      TOKEN_TRANSACTION, TOKEN_ORDER, TOKEN_BY, TOKEN_ASC, TOKEN_DESC, TOKEN_LIMIT, TOKEN_OFFSET,
      TOKEN_DISTINCT, TOKEN_AS, TOKEN_ON, TOKEN_PRIMARY, TOKEN_KEY, TOKEN_UNIQUE, TOKEN_DEFAULT,
      TOKEN_AUTOINCREMENT, TOKEN_INTEGER_KW, TOKEN_REAL_KW, TOKEN_TEXT_KW, TOKEN_BLOB_KW,
      TOKEN_LPAREN, TOKEN_RPAREN, TOKEN_COMMA, TOKEN_DOT, TOKEN_SEMICOLON, TOKEN_QUESTION,
      TOKEN_PLACEHOLDER]"

primrec token_code :: "TokenType \<Rightarrow> int" where
  "token_code TOKEN_EOF = 0" | "token_code TOKEN_ERROR = 1" | "token_code TOKEN_IDENTIFIER = 2"
| "token_code TOKEN_INTEGER = 3" | "token_code TOKEN_REAL = 4" | "token_code TOKEN_STRING = 5"
| "token_code TOKEN_PLUS = 6" | "token_code TOKEN_MINUS = 7" | "token_code TOKEN_STAR = 8"
| "token_code TOKEN_SLASH = 9" | "token_code TOKEN_PERCENT = 10" | "token_code TOKEN_EQ = 11"
| "token_code TOKEN_NEQ = 12" | "token_code TOKEN_LT = 13" | "token_code TOKEN_GT = 14"
| "token_code TOKEN_LTE = 15" | "token_code TOKEN_GTE = 16" | "token_code TOKEN_DOUBLE_EQ = 17"
| "token_code TOKEN_LIKE_OP = 18" | "token_code TOKEN_IN_OP = 19"
| "token_code TOKEN_BETWEEN_OP = 20" | "token_code TOKEN_SELECT = 21"
| "token_code TOKEN_FROM = 22" | "token_code TOKEN_WHERE = 23" | "token_code TOKEN_AND = 24"
| "token_code TOKEN_OR = 25" | "token_code TOKEN_NOT = 26" | "token_code TOKEN_IN = 27"
| "token_code TOKEN_LIKE = 28" | "token_code TOKEN_BETWEEN = 29" | "token_code TOKEN_IS = 30"
| "token_code TOKEN_NULL = 31" | "token_code TOKEN_INSERT = 32" | "token_code TOKEN_INTO = 33"
| "token_code TOKEN_VALUES = 34" | "token_code TOKEN_UPDATE = 35" | "token_code TOKEN_SET = 36"
| "token_code TOKEN_DELETE = 37" | "token_code TOKEN_CREATE = 38" | "token_code TOKEN_DROP = 39"
| "token_code TOKEN_TABLE = 40" | "token_code TOKEN_INDEX = 41" | "token_code TOKEN_IF = 42"
| "token_code TOKEN_EXISTS = 43" | "token_code TOKEN_BEGIN = 44"
| "token_code TOKEN_COMMIT = 45" | "token_code TOKEN_ROLLBACK = 46"
| "token_code TOKEN_TRANSACTION = 47" | "token_code TOKEN_ORDER = 48"
| "token_code TOKEN_BY = 49" | "token_code TOKEN_ASC = 50" | "token_code TOKEN_DESC = 51"
| "token_code TOKEN_LIMIT = 52" | "token_code TOKEN_OFFSET = 53"
| "token_code TOKEN_DISTINCT = 54" | "token_code TOKEN_AS = 55" | "token_code TOKEN_ON = 56"
| "token_code TOKEN_PRIMARY = 57" | "token_code TOKEN_KEY = 58" | "token_code TOKEN_UNIQUE = 59"
| "token_code TOKEN_DEFAULT = 60" | "token_code TOKEN_AUTOINCREMENT = 61"
| "token_code TOKEN_INTEGER_KW = 62" | "token_code TOKEN_REAL_KW = 63"
| "token_code TOKEN_TEXT_KW = 64" | "token_code TOKEN_BLOB_KW = 65"
| "token_code TOKEN_LPAREN = 66" | "token_code TOKEN_RPAREN = 67"
| "token_code TOKEN_COMMA = 68" | "token_code TOKEN_DOT = 69"
| "token_code TOKEN_SEMICOLON = 70" | "token_code TOKEN_QUESTION = 71"
| "token_code TOKEN_PLACEHOLDER = 72"

datatype TokenValue = NoValue | IntegerValue u64 | FloatValue u64 | StringValue string

record Token =
  t_type :: TokenType
  t_lexeme :: "string option"
  t_lexeme_len :: nat
  t_line :: int
  t_column :: int
  t_value :: TokenValue

text \<open>\<^verbatim>\<open>token_get_text\<close>: the lexeme, or the empty string.\<close>

definition token_get_text :: "Token \<Rightarrow> string" where
  "token_get_text t = (case t_lexeme t of Some s \<Rightarrow> s | None \<Rightarrow> [])"

text \<open>\<^verbatim>\<open>token_type_name\<close>; \<^verbatim>\<open>TOKEN_DOUBLE_EQ\<close> has no case of its own.\<close>

primrec token_type_name :: "TokenType \<Rightarrow> string" where
  "token_type_name TOKEN_EOF = ''EOF''" | "token_type_name TOKEN_ERROR = ''ERROR''"
| "token_type_name TOKEN_IDENTIFIER = ''IDENTIFIER''"
| "token_type_name TOKEN_INTEGER = ''INTEGER''" | "token_type_name TOKEN_REAL = ''REAL''"
| "token_type_name TOKEN_STRING = ''STRING''" | "token_type_name TOKEN_PLUS = ''PLUS''"
| "token_type_name TOKEN_MINUS = ''MINUS''" | "token_type_name TOKEN_STAR = ''STAR''"
| "token_type_name TOKEN_SLASH = ''SLASH''" | "token_type_name TOKEN_PERCENT = ''PERCENT''"
| "token_type_name TOKEN_EQ = ''EQ''" | "token_type_name TOKEN_NEQ = ''NEQ''"
| "token_type_name TOKEN_LT = ''LT''" | "token_type_name TOKEN_GT = ''GT''"
| "token_type_name TOKEN_LTE = ''LTE''" | "token_type_name TOKEN_GTE = ''GTE''"
| "token_type_name TOKEN_DOUBLE_EQ = ''UNKNOWN''" | "token_type_name TOKEN_LIKE_OP = ''LIKE''"
| "token_type_name TOKEN_IN_OP = ''IN''" | "token_type_name TOKEN_BETWEEN_OP = ''BETWEEN''"
| "token_type_name TOKEN_SELECT = ''SELECT''" | "token_type_name TOKEN_FROM = ''FROM''"
| "token_type_name TOKEN_WHERE = ''WHERE''" | "token_type_name TOKEN_AND = ''AND''"
| "token_type_name TOKEN_OR = ''OR''" | "token_type_name TOKEN_NOT = ''NOT''"
| "token_type_name TOKEN_IN = ''IN''" | "token_type_name TOKEN_LIKE = ''LIKE''"
| "token_type_name TOKEN_BETWEEN = ''BETWEEN''" | "token_type_name TOKEN_IS = ''IS''"
| "token_type_name TOKEN_NULL = ''NULL''" | "token_type_name TOKEN_INSERT = ''INSERT''"
| "token_type_name TOKEN_INTO = ''INTO''" | "token_type_name TOKEN_VALUES = ''VALUES''"
| "token_type_name TOKEN_UPDATE = ''UPDATE''" | "token_type_name TOKEN_SET = ''SET''"
| "token_type_name TOKEN_DELETE = ''DELETE''" | "token_type_name TOKEN_CREATE = ''CREATE''"
| "token_type_name TOKEN_DROP = ''DROP''" | "token_type_name TOKEN_TABLE = ''TABLE''"
| "token_type_name TOKEN_INDEX = ''INDEX''" | "token_type_name TOKEN_IF = ''IF''"
| "token_type_name TOKEN_EXISTS = ''EXISTS''" | "token_type_name TOKEN_BEGIN = ''BEGIN''"
| "token_type_name TOKEN_COMMIT = ''COMMIT''" | "token_type_name TOKEN_ROLLBACK = ''ROLLBACK''"
| "token_type_name TOKEN_TRANSACTION = ''TRANSACTION''"
| "token_type_name TOKEN_ORDER = ''ORDER''" | "token_type_name TOKEN_BY = ''BY''"
| "token_type_name TOKEN_ASC = ''ASC''" | "token_type_name TOKEN_DESC = ''DESC''"
| "token_type_name TOKEN_LIMIT = ''LIMIT''" | "token_type_name TOKEN_OFFSET = ''OFFSET''"
| "token_type_name TOKEN_DISTINCT = ''DISTINCT''" | "token_type_name TOKEN_AS = ''AS''"
| "token_type_name TOKEN_ON = ''ON''" | "token_type_name TOKEN_PRIMARY = ''PRIMARY''"
| "token_type_name TOKEN_KEY = ''KEY''" | "token_type_name TOKEN_UNIQUE = ''UNIQUE''"
| "token_type_name TOKEN_DEFAULT = ''DEFAULT''"
| "token_type_name TOKEN_AUTOINCREMENT = ''AUTOINCREMENT''"
| "token_type_name TOKEN_INTEGER_KW = ''INTEGER''" | "token_type_name TOKEN_REAL_KW = ''REAL''"
| "token_type_name TOKEN_TEXT_KW = ''TEXT''" | "token_type_name TOKEN_BLOB_KW = ''BLOB''"
| "token_type_name TOKEN_LPAREN = ''LPAREN''" | "token_type_name TOKEN_RPAREN = ''RPAREN''"
| "token_type_name TOKEN_COMMA = ''COMMA''" | "token_type_name TOKEN_DOT = ''DOT''"
| "token_type_name TOKEN_SEMICOLON = ''SEMICOLON''"
| "token_type_name TOKEN_QUESTION = ''QUESTION''"
| "token_type_name TOKEN_PLACEHOLDER = ''PLACEHOLDER''"

lemma token_code_nth: "token_types ! nat (token_code t) = t"
  by (cases t) (simp_all add: token_types_def)

lemma token_code_inj: "token_code s = token_code t \<longleftrightarrow> s = t"
  using token_code_nth by metis

end
