(* ===== verification/Ast.thy ===== *)
theory Ast
  imports Token
begin

text \<open>
  The syntax trees of \<^verbatim>\<open>src/sql/ast.h\<close>.  A linked list of the source is a list, a pointer that
  may be \<^verbatim>\<open>NULL\<close> an option.  Operators are the integers the parser stores.  Trees are
  values here: reference counts and the freeing functions of \<^verbatim>\<open>ast.c\<close> have no counterpart.
\<close>

datatype ColumnType = COL_TYPE_INTEGER | COL_TYPE_FLOAT | COL_TYPE_TEXT | COL_TYPE_BLOB

datatype TransactionType = TX_BEGIN | TX_COMMIT | TX_ROLLBACK

record ColumnList =
  cl_name :: string
  cl_alias :: "string option"

record OrderByItem =
  ob_column_name :: string
  ob_descending :: bool

text \<open>
  Expressions and statements refer to each other in the source, through the statement of a subquery.  Here the type of
  a subquery is a parameter of expressions, and a statement contains expressions whose subqueries are statements.
\<close>

datatype 'q Expression =
    EXPR_LITERAL_INT u64
  | EXPR_LITERAL_FLOAT u64
  | EXPR_LITERAL_STRING string
  | EXPR_LITERAL_NULL
  | EXPR_COLUMN int string
  | EXPR_BINARY "'q Expression" int "'q Expression"
  | EXPR_UNARY int "'q Expression"
  | EXPR_FUNC string "'q Expression list"
  | EXPR_CASE "'q Expression option" "'q Expression option" "'q Expression option"
  | EXPR_SUBQUERY 'q
  | EXPR_IN "'q Expression" "'q Expression list" bool
  | EXPR_BETWEEN "'q Expression" "'q Expression" "'q Expression" bool
  | EXPR_LIKE "'q Expression" "'q Expression" int bool

datatype 'q ColumnDef = ColumnDef (cd_name: string) (cd_type: ColumnType) (cd_not_null: bool)
    (cd_primary_key: bool) (cd_autoincrement: bool) (cd_default_value: "'q Expression option")

datatype 'q SetClause = SetClause (sc_column_name: string) (sc_value: "'q Expression")

datatype AstNode =
    AST_CREATE_TABLE string bool "AstNode ColumnDef list"
  | AST_DROP_TABLE string bool
  | AST_CREATE_INDEX string string string bool
  | AST_DROP_INDEX string
  | AST_INSERT string "ColumnList list" "AstNode Expression list list"
  | AST_UPDATE string "AstNode SetClause list" "AstNode Expression"
  | AST_DELETE string "AstNode Expression"
  | AST_SELECT "ColumnList list" bool string "AstNode Expression option" "OrderByItem list"
      "AstNode Expression option" "AstNode Expression option"
  | AST_TRANSACTION TransactionType

end
