(* ===== verification/Expression.thy ===== *)
theory Expression
  imports Ast Float64 "HOL-Library.List_Lexorder" "HOL-Library.Product_Lexorder"
begin

text \<open>
  Values and the evaluation of expressions, \<^verbatim>\<open>src/sql/expression.c\<close>.  A row and the names of its
  columns, two arrays of \<^verbatim>\<open>column_count\<close> elements, are one list of pairs; \<open>None\<close> stands for the
  \<^verbatim>\<open>NULL\<close> pointers an evaluation without a row passes.  An evaluation is a computation of the
  prelude: signed overflow and an arithmetic use of the address of a text or blob have no defined
  value, and matching a pattern may not end.  Of the number that \<^verbatim>\<open>memcmp\<close> or \<^verbatim>\<open>strcmp\<close> returns only the sign
  is defined: here it is -1, 0 or 1.
\<close>

section \<open>Values\<close>

datatype Value =
    VALUE_NULL
  | VALUE_INTEGER u64
  | VALUE_FLOAT u64
  | VALUE_TEXT string
  | VALUE_BLOB bytes

type_synonym row = "(string option \<times> Value) list option"

definition value_from_bool :: "bool \<Rightarrow> Value" where
  "value_from_bool b = VALUE_INTEGER (if b then 1 else 0)"

definition value_is_null :: "Value \<Rightarrow> bool" where
  "value_is_null v \<longleftrightarrow> v = VALUE_NULL"

definition value_is_truthy :: "Value \<Rightarrow> bool" where
  "value_is_truthy v =
     (case v of VALUE_NULL \<Rightarrow> False | VALUE_INTEGER i \<Rightarrow> i \<noteq> 0 | VALUE_FLOAT f \<Rightarrow> \<not> feq f 0
      | VALUE_TEXT s \<Rightarrow> s \<noteq> [] | VALUE_BLOB b \<Rightarrow> b \<noteq> [])"

text \<open>
  \<^verbatim>\<open>memcmp\<close> over the shorter length; of its result only the sign is specified.  \<open>bytes_compare\<close>
  lets the lengths decide when one is a prefix of the other, which is also what \<^verbatim>\<open>strcmp\<close> does
  with its terminating zero.
\<close>

fun memcmp :: "nat list \<Rightarrow> nat list \<Rightarrow> int" where
  "memcmp (x # xs) (y # ys) = (if x < y then - 1 else if y < x then 1 else memcmp xs ys)"
| "memcmp _ _ = 0"

definition bytes_compare :: "nat list \<Rightarrow> nat list \<Rightarrow> int" where
  "bytes_compare xs ys =
     (let cmp = memcmp xs ys in
      if cmp \<noteq> 0 then cmp
      else if length xs < length ys then - 1 else if length ys < length xs then 1 else 0)"

definition char_codes :: "string \<Rightarrow> nat list" where
  "char_codes s = map of_char s"

definition strcmp :: "string \<Rightarrow> string \<Rightarrow> int" where
  "strcmp a b = bytes_compare (char_codes (takeWhile (\<lambda>c. c \<noteq> CHR 0x00) a))
                              (char_codes (takeWhile (\<lambda>c. c \<noteq> CHR 0x00) b))"

definition type_order :: "Value \<Rightarrow> nat" where
  "type_order v =
     (case v of VALUE_FLOAT _ \<Rightarrow> 1 | VALUE_TEXT _ \<Rightarrow> 2 | VALUE_BLOB _ \<Rightarrow> 3 | _ \<Rightarrow> 0)"

definition value_compare :: "Value \<Rightarrow> Value \<Rightarrow> int" where
  "value_compare a b =
     (if value_is_null a \<and> value_is_null b then 0
      else if value_is_null a then - 1
      else if value_is_null b then 1
      else case (a, b) of
        (VALUE_INTEGER i, VALUE_INTEGER j) \<Rightarrow> if i <s j then - 1 else if j <s i then 1 else 0
      | (VALUE_FLOAT x, VALUE_FLOAT y) \<Rightarrow> if flt x y then - 1 else if flt y x then 1 else 0
      | (VALUE_TEXT s, VALUE_TEXT t) \<Rightarrow> bytes_compare (char_codes s) (char_codes t)
      | (VALUE_BLOB x, VALUE_BLOB y) \<Rightarrow> bytes_compare (map unat x) (map unat y)
      | _ \<Rightarrow> if type_order a < type_order b then - 1 else 1)"

section \<open>Columns\<close>

text \<open>The first column with a name; the search is only started when the index has another name.\<close>

fun find_column :: "string \<Rightarrow> (string option \<times> Value) list \<Rightarrow> nat option" where
  "find_column name [] = None"
| "find_column name ((n, v) # cols) =
     (if n = Some name then Some 0 else map_option Suc (find_column name cols))"

definition eval_column :: "int \<Rightarrow> string \<Rightarrow> row \<Rightarrow> Value" where
  "eval_column col_index col_name row =
     (case row of
        None \<Rightarrow> VALUE_NULL
      | Some cols \<Rightarrow>
          if col_index < 0 \<or> int (length cols) \<le> col_index then VALUE_NULL
          else
            let i = nat col_index in
            (case fst (cols ! i) of
               None \<Rightarrow> snd (cols ! i)
             | Some n \<Rightarrow>
                 if n = col_name then snd (cols ! i)
                 else (case find_column col_name cols of
                         None \<Rightarrow> snd (cols ! i)
                       | Some j \<Rightarrow> snd (cols ! j))))"

section \<open>Operators\<close>

text \<open>The character codes the evaluator compares an operator with.\<close>

definition op_char :: "char \<Rightarrow> int" where
  "op_char c = int (of_char c)"

definition is_numericComparison :: "int \<Rightarrow> bool" where
  "is_numericComparison op \<longleftrightarrow>
     op = op_char (CHR ''='') \<or> op = op_char (CHR ''<'') \<or> op = op_char (CHR ''>'') \<or>
     op = token_code TOKEN_LTE \<or> op = token_code TOKEN_GTE \<or> op = token_code TOKEN_NEQ"

definition as_string :: "Value \<Rightarrow> string" where
  "as_string v =
     (case v of VALUE_TEXT s \<Rightarrow> s | VALUE_INTEGER i \<Rightarrow> fmt_lld i | VALUE_FLOAT f \<Rightarrow> fmt_g15 f | _ \<Rightarrow> [])"

definition is_text :: "Value \<Rightarrow> bool" where
  "is_text v = (case v of VALUE_TEXT _ \<Rightarrow> True | _ \<Rightarrow> False)"

definition compare_strings :: "int \<Rightarrow> int \<Rightarrow> bool" where
  "compare_strings op cmp =
     (if op = op_char (CHR ''='') then cmp = 0
      else if op = token_code TOKEN_NEQ then cmp \<noteq> 0
      else if op = op_char (CHR ''<'') then cmp < 0
      else if op = op_char (CHR ''>'') then cmp > 0
      else if op = token_code TOKEN_LTE then cmp \<le> 0
      else if op = token_code TOKEN_GTE then cmp \<ge> 0
      else False)"

definition as_double :: "Value \<Rightarrow> u64 option" where
  "as_double v = (case v of VALUE_INTEGER i \<Rightarrow> Some (of_int64 i) | VALUE_FLOAT f \<Rightarrow> Some f | _ \<Rightarrow> None)"

definition compare_doubles :: "int \<Rightarrow> u64 \<Rightarrow> u64 \<Rightarrow> bool" where
  "compare_doubles op x y =
     (if op = op_char (CHR ''='') then feq x y
      else if op = token_code TOKEN_NEQ then \<not> feq x y
      else if op = op_char (CHR ''<'') then flt x y
      else if op = op_char (CHR ''>'') then flt y x
      else if op = token_code TOKEN_LTE then fle x y
      else if op = token_code TOKEN_GTE then fle y x
      else False)"

definition eval_comparison :: "int \<Rightarrow> Value \<Rightarrow> Value \<Rightarrow> Value" where
  "eval_comparison op left right =
     (if is_text left \<or> is_text right
      then value_from_bool (compare_strings op (strcmp (as_string left) (as_string right)))
      else case (as_double left, as_double right) of
        (Some x, Some y) \<Rightarrow> value_from_bool (compare_doubles op x y)
      | _ \<Rightarrow> value_from_bool False)"

text \<open>
  The number an operand stands for.  A \<^verbatim>\<open>NULL\<close> value is zeroed; the \<^verbatim>\<open>as_float\<close> member of a text or
  blob is the bits of an address.
\<close>

definition operand :: "Value \<Rightarrow> u64 comp" where
  "operand v =
     (case v of VALUE_INTEGER i \<Rightarrow> ret (of_int64 i) | VALUE_FLOAT f \<Rightarrow> ret f | VALUE_NULL \<Rightarrow> ret 0
      | _ \<Rightarrow> undef)"

definition int64_result :: "int \<Rightarrow> Value comp" where
  "int64_result v =
     (if - (2 ^ 63) \<le> v \<and> v < 2 ^ 63 then ret (VALUE_INTEGER (word_of_int v)) else undef)"

definition eval_arith :: "(int \<Rightarrow> int \<Rightarrow> int) \<Rightarrow> (u64 \<Rightarrow> u64 \<Rightarrow> u64) \<Rightarrow> Value \<Rightarrow> Value \<Rightarrow> Value comp" where
  "eval_arith f g left right =
     (case (left, right) of
        (VALUE_INTEGER i, VALUE_INTEGER j) \<Rightarrow> int64_result (f (sint i) (sint j))
      | _ \<Rightarrow> bindc (operand left) (\<lambda>l. bindc (operand right) (\<lambda>r. ret (VALUE_FLOAT (g l r)))))"

text \<open>C's integer division truncates.\<close>

definition cdiv :: "int \<Rightarrow> int \<Rightarrow> int" where
  "cdiv a b = sgn a * sgn b * (\<bar>a\<bar> div \<bar>b\<bar>)"

definition eval_divide :: "Value \<Rightarrow> Value \<Rightarrow> Value comp" where
  "eval_divide left right =
     bindc (operand right) (\<lambda>r.
       if feq r 0 then ret VALUE_NULL
       else case (left, right) of
         (VALUE_INTEGER i, VALUE_INTEGER j) \<Rightarrow>
           bindc (ofopt (to_int64 r)) (\<lambda>d. int64_result (cdiv (sint i) (sint d)))
       | _ \<Rightarrow> bindc (operand left) (\<lambda>l. ret (VALUE_FLOAT (fdiv l r))))"

text \<open>
  The part of \<^verbatim>\<open>eval_binary\<close> after its operands have been evaluated.  For \<^verbatim>\<open>LIKE\<close>, \<^verbatim>\<open>IN\<close> and
  \<^verbatim>\<open>BETWEEN\<close> it calls functions that return \<^verbatim>\<open>NULL\<close> because the node is a binary one.
\<close>

definition eval_binary :: "int \<Rightarrow> Value \<Rightarrow> Value \<Rightarrow> Value comp" where
  "eval_binary op left right =
     (if op = token_code TOKEN_AND then ret (value_from_bool (value_is_truthy left \<and> value_is_truthy right))
      else if op = token_code TOKEN_OR then ret (value_from_bool (value_is_truthy left \<or> value_is_truthy right))
      else if op = token_code TOKEN_IS then ret (value_from_bool (value_is_null left = value_is_null right))
      else if is_numericComparison op then ret (eval_comparison op left right)
      else if op = op_char (CHR ''+'') then eval_arith (+) fadd left right
      else if op = op_char (CHR ''-'') then eval_arith (-) fsub left right
      else if op = op_char (CHR ''*'') then eval_arith (*) fmul left right
      else if op = op_char (CHR ''/'') then eval_divide left right
      else ret VALUE_NULL)"

definition eval_unary :: "int \<Rightarrow> Value \<Rightarrow> Value comp" where
  "eval_unary op v =
     (if op = op_char (CHR ''!'') then ret (value_from_bool (\<not> value_is_truthy v))
      else if op = op_char (CHR ''-'') then
        (case v of VALUE_INTEGER i \<Rightarrow> int64_result (- sint i)
         | VALUE_FLOAT f \<Rightarrow> ret (VALUE_FLOAT (fneg f))
         | _ \<Rightarrow> ret VALUE_NULL)
      else if op = token_code TOKEN_NOT \<or> op = token_code TOKEN_IS then ret (value_from_bool False)
      else ret VALUE_NULL)"

section \<open>Patterns\<close>

text \<open>
  \<^verbatim>\<open>simple_like_match\<close>: its pointers are indices; \<open>star\<close> is \<^verbatim>\<open>last_star\<close> with \<^verbatim>\<open>last_star_s\<close>.  The
  scans over \<^verbatim>\<open>%\<close> and over the text are \<open>skip_percent\<close> and \<open>next_match\<close>.  Where the text is
  used up the source skips \<^verbatim>\<open>%\<close> signs from a character that is not one, and so returns 0.
\<close>

fun skip_percent :: "nat \<Rightarrow> string \<Rightarrow> nat \<Rightarrow> nat" where
  "skip_percent 0 pat p = p"
| "skip_percent (Suc n) pat p =
     (if Suc p < length pat \<and> pat ! Suc p = CHR ''%'' then skip_percent n pat (Suc p) else p)"

fun next_match :: "nat \<Rightarrow> char \<Rightarrow> string \<Rightarrow> nat \<Rightarrow> nat" where
  "next_match 0 c str s = s"
| "next_match (Suc n) c str s =
     (if s < length str \<and> str ! s \<noteq> c then next_match n c str (Suc s) else s)"

partial_function (option) like_loop ::
    "string \<Rightarrow> string \<Rightarrow> nat \<Rightarrow> nat \<Rightarrow> (nat \<times> nat) option \<Rightarrow> bool option" where
  "like_loop str pat s p star =
     (if p < length pat then
        if pat ! p = CHR ''%'' then like_loop str pat s (skip_percent (length pat) pat p) (Some (p, s))
        else if length str \<le> s then Some False
        else if pat ! p = CHR ''_'' \<or> pat ! p = str ! s then like_loop str pat (Suc s) (Suc p) star
        else
          (case star of
             None \<Rightarrow> Some False
           | Some (last_star, last_star_s) \<Rightarrow>
               if length pat \<le> Suc last_star then Some True
               else
                 let lss = next_match (length str) (pat ! Suc last_star) str last_star_s in
                 if length str \<le> lss then Some False
                 else like_loop str pat (Suc lss) (Suc last_star) (Some (last_star, Suc lss)))
      else Some (length str \<le> s))"

definition simple_like_match :: "string \<Rightarrow> string \<Rightarrow> bool option" where
  "simple_like_match str pat = (if pat = [] then Some (str = []) else like_loop str pat 0 0 None)"

definition eval_like :: "bool \<Rightarrow> Value \<Rightarrow> Value \<Rightarrow> Value comp" where
  "eval_like negated v pattern =
     (case (v, pattern) of
        (VALUE_TEXT s, VALUE_TEXT t) \<Rightarrow>
          (case simple_like_match s t of
             None \<Rightarrow> None
           | Some r \<Rightarrow> ret (value_from_bool (if negated then \<not> r else r)))
      | _ \<Rightarrow> ret (value_from_bool False))"

definition eval_between :: "bool \<Rightarrow> Value \<Rightarrow> Value \<Rightarrow> Value \<Rightarrow> Value" where
  "eval_between negated v low high =
     (let result = (\<not> value_is_null v \<and> \<not> value_is_null low \<and> \<not> value_is_null high \<and>
                    0 \<le> value_compare v low \<and> value_compare v high \<le> 0)
      in value_from_bool (if negated then \<not> result else result))"

section \<open>Evaluation\<close>

text \<open>\<open>eval_in\<close> is the loop over the list of \<^verbatim>\<open>IN\<close>, which stops at the first equal element.\<close>

fun expr_eval :: "AstNode Expression \<Rightarrow> row \<Rightarrow> Value comp"
  and eval_in :: "AstNode Expression list \<Rightarrow> Value \<Rightarrow> row \<Rightarrow> bool comp"
where
  "expr_eval (EXPR_LITERAL_INT i) row = ret (VALUE_INTEGER i)"
| "expr_eval (EXPR_LITERAL_FLOAT f) row = ret (VALUE_FLOAT f)"
| "expr_eval (EXPR_LITERAL_STRING s) row = ret (VALUE_TEXT s)"
| "expr_eval EXPR_LITERAL_NULL row = ret VALUE_NULL"
| "expr_eval (EXPR_COLUMN i name) row = ret (eval_column i name row)"
| "expr_eval (EXPR_BINARY l op r) row =
     bindc (expr_eval l row) (\<lambda>left. bindc (expr_eval r row) (\<lambda>right. eval_binary op left right))"
| "expr_eval (EXPR_UNARY op e) row = bindc (expr_eval e row) (eval_unary op)"
| "expr_eval (EXPR_LIKE e pat esc negated) row =
     bindc (expr_eval e row) (\<lambda>v. bindc (expr_eval pat row) (\<lambda>p. eval_like negated v p))"
| "expr_eval (EXPR_IN e es negated) row =
     bindc (expr_eval e row) (\<lambda>v. bindc (eval_in es v row)
       (\<lambda>r. ret (value_from_bool (if negated then \<not> r else r))))"
| "expr_eval (EXPR_BETWEEN e lo hi negated) row =
     bindc (expr_eval e row) (\<lambda>v. bindc (expr_eval lo row) (\<lambda>low. bindc (expr_eval hi row)
       (\<lambda>high. ret (eval_between negated v low high))))"
| "expr_eval (EXPR_FUNC f es) row = ret VALUE_NULL"
| "expr_eval (EXPR_CASE a b c) row = ret VALUE_NULL"
| "expr_eval (EXPR_SUBQUERY q) row = ret VALUE_NULL"
| "eval_in [] v row = ret False"
| "eval_in (e # es) v row =
     bindc (expr_eval e row) (\<lambda>item. if value_compare v item = 0 then ret True else eval_in es v row)"

definition eval_literal :: "AstNode Expression \<Rightarrow> Value comp" where
  "eval_literal e = expr_eval e None"

section \<open>Ordering of values\<close>

lemma bytes_compare_lex: "bytes_compare xs ys = (if xs < ys then - 1 else if ys < xs then 1 else 0)"
proof (induction xs ys rule: memcmp.induct)
  case (1 x xs y ys)
  have "bytes_compare (x # xs) (y # ys) = (if x < y then - 1 else if y < x then 1 else bytes_compare xs ys)"
    by (simp add: bytes_compare_def)
  with 1 show ?case by (cases x y rule: linorder_cases) simp_all
qed (auto simp: bytes_compare_def, (metis Nil_less_Cons list.exhaust not_less_Nil)+)

definition value_nan :: "Value \<Rightarrow> bool" where
  "value_nan v = (case v of VALUE_FLOAT f \<Rightarrow> is_nan f | _ \<Rightarrow> False)"

text \<open>A key in a linear order that decides every comparison of values.\<close>

definition value_key :: "Value \<Rightarrow> nat \<times> int \<times> nat list" where
  "value_key v =
     (case v of VALUE_NULL \<Rightarrow> (0, 0, []) | VALUE_INTEGER i \<Rightarrow> (1, sint i, [])
      | VALUE_FLOAT f \<Rightarrow> (2, fkey f, []) | VALUE_TEXT s \<Rightarrow> (3, 0, char_codes s)
      | VALUE_BLOB b \<Rightarrow> (4, 0, map unat b))"

lemma value_compare_key:
  assumes "\<not> value_nan a" "\<not> value_nan b"
  shows "value_compare a b =
    (if value_key a < value_key b then - 1 else if value_key b < value_key a then 1 else 0)"
  using assms
  by (cases a; cases b)
    (auto simp: value_compare_def value_key_def value_nan_def value_is_null_def type_order_def
      bytes_compare_lex word_sless_alt flt_def)

text \<open>C13: Apart from floating-point values that are not a number, \<^verbatim>\<open>value_compare\<close> is a total preorder:
  a value equals itself, exchanging the arguments negates the result, and the order is transitive.\<close>

theorem value_compare_preorder:
  assumes "\<not> value_nan a" "\<not> value_nan b" "\<not> value_nan c"
  shows "value_compare a a = 0 \<and> value_compare b a = - value_compare a b \<and>
    (value_compare a b \<le> 0 \<and> value_compare b c \<le> 0 \<longrightarrow> value_compare a c \<le> 0)"
  using assms by (auto simp: value_compare_key split: if_splits)

theorem value_compare_preorder_witness:
  "value_compare (VALUE_INTEGER 5) (VALUE_INTEGER 5) = 0 \<and>
   value_compare (VALUE_TEXT ''b'') (VALUE_INTEGER 5) = - value_compare (VALUE_INTEGER 5) (VALUE_TEXT ''b'') \<and>
   value_compare (VALUE_INTEGER 5) (VALUE_TEXT ''bc'') \<le> 0"
proof -
  have "value_compare (VALUE_INTEGER 5) (VALUE_TEXT ''b'') \<le> 0" "value_compare (VALUE_TEXT ''b'') (VALUE_TEXT ''bc'') \<le> 0"
    by (simp_all add: value_compare_key value_nan_def value_key_def char_codes_def)
  then show ?thesis
    using value_compare_preorder[of "VALUE_INTEGER 5" "VALUE_TEXT ''b''" "VALUE_TEXT ''bc''"]
    by (simp add: value_nan_def)
qed

section \<open>Comparison and arithmetic of integers\<close>

lemma op_char_codes:
  "op_char (CHR ''='') = 61" "op_char (CHR ''<'') = 60" "op_char (CHR ''>'') = 62" "op_char (CHR ''+'') = 43"
  "op_char (CHR ''-'') = 45" "op_char (CHR ''*'') = 42" "op_char (CHR ''/'') = 47" "op_char (CHR ''!'') = 33"
  by (simp_all add: op_char_def)

text \<open>What a comparison operator means on integers.\<close>

definition int_relation :: "int \<Rightarrow> int \<Rightarrow> int \<Rightarrow> bool" where
  "int_relation op x y =
     (if op = op_char (CHR ''='') then x = y else if op = token_code TOKEN_NEQ then x \<noteq> y
      else if op = op_char (CHR ''<'') then x < y else if op = op_char (CHR ''>'') then x > y
      else if op = token_code TOKEN_LTE then x \<le> y else x \<ge> y)"

text \<open>Comparing integers goes through \<^verbatim>\<open>double\<close>: up to \<open>2 ^ 53\<close> in magnitude all six comparison
  operators give the comparison of the integers.\<close>

theorem compare_integers_exact:
  assumes "is_numericComparison op" "\<bar>sint i\<bar> \<le> 2 ^ 53" "\<bar>sint j\<bar> \<le> 2 ^ 53"
  shows "eval_binary op (VALUE_INTEGER i) (VALUE_INTEGER j) =
    ret (value_from_bool (int_relation op (sint i) (sint j)))"
proof -
  have "compare_doubles op (of_int64 i) (of_int64 j) = int_relation op (sint i) (sint j)"
    using assms(1) of_int64_cmp[OF assms(2,3)] of_int64_cmp[OF assms(3,2)]
    unfolding is_numericComparison_def op_char_codes
    by (elim disjE) (simp_all add: compare_doubles_def int_relation_def op_char_codes fle_def le_less eq_commute)
  then show ?thesis using assms(1)
    by (auto simp: eval_binary_def eval_comparison_def is_text_def as_double_def is_numericComparison_def op_char_codes)
qed

theorem compare_integers_exact_witness:
  "eval_binary (token_code TOKEN_LTE) (VALUE_INTEGER 3) (VALUE_INTEGER (- 4)) = ret (value_from_bool False)"
proof -
  have "eval_binary (token_code TOKEN_LTE) (VALUE_INTEGER 3) (VALUE_INTEGER (- 4)) =
      ret (value_from_bool (int_relation (token_code TOKEN_LTE) (sint (3 :: u64)) (sint (- 4 :: u64))))"
    by (rule compare_integers_exact) (simp_all add: is_numericComparison_def)
  then show ?thesis by (simp add: int_relation_def op_char_codes)
qed

lemma bitlen_unique: "2 ^ k \<le> n \<Longrightarrow> n < 2 ^ Suc k \<Longrightarrow> bitlen n = Suc k"
proof -
  assume n: "2 ^ k \<le> n" "n < 2 ^ Suc k"
  then have "0 < n" by (metis less_le_trans zero_less_numeral zero_less_power)
  then have b: "2 ^ (bitlen n - 1) \<le> n" "n < 2 ^ bitlen n" "bitlen n \<noteq> 0"
    using bitlen_bounds[of n] by (auto simp: bitlen.simps)
  have "k < bitlen n" using n(1) b(2) by (meson le_less_trans one_less_numeral_iff power_less_imp_less_exp semiring_norm(76))
  moreover have "bitlen n - 1 < Suc k" using n(2) b(1) by (meson le_less_trans one_less_numeral_iff power_less_imp_less_exp semiring_norm(76))
  ultimately show ?thesis using b(3) by linarith
qed

lemma div_even_scale: "0 < m \<Longrightarrow> div_even (k * m) (d * m) = div_even k d"
  by (simp add: div_even_def Let_def mod_mult_mult2[symmetric] mult.assoc[symmetric])

lemma int_code_54:
  assumes "2 ^ 53 \<le> sint i" "sint i < 2 ^ 54"
  shows "int_code i = 1075 * 2 ^ 52 + div_even (nat (sint i)) 2"
proof -
  let ?k = "nat (sint i)" and ?m = "2 ^ 1074 :: nat"
  have k: "2 ^ 53 \<le> ?k" "?k < 2 ^ 54" using assms by (simp_all add: le_nat_iff nat_less_iff)
  have "bitlen (?k * ?m) = Suc (53 + 1074)"
  proof (rule bitlen_unique)
    show "2 ^ (53 + 1074) \<le> ?k * ?m" unfolding power_add using k(1) by (rule mult_le_mono1)
    have e: "Suc (53 + 1074) = (54 + 1074 :: nat)" by simp
    show "?k * ?m < 2 ^ Suc (53 + 1074)" unfolding e by (rule mag_lt[OF k(2)])
  qed
  moreover have "div_even (?k * ?m) (2 * ?m) = div_even ?k 2" by (rule div_even_scale) simp
  moreover have "2 ^ 1075 = 2 * ?m" by (simp only: power_Suc[symmetric]) simp
  ultimately show ?thesis
    using assms(1) by (simp add: int_code_def raw_code_def Let_def)
qed

text \<open>Beyond that the comparison loses the difference: \<open>2 ^ 53\<close> and \<open>2 ^ 53 + 1\<close> are equal.\<close>

theorem compare_integers_inexact:
  "eval_binary (op_char (CHR ''='')) (VALUE_INTEGER (2 ^ 53)) (VALUE_INTEGER (2 ^ 53 + 1)) = ret (value_from_bool True)"
proof -
  have s: "sint (2 ^ 53 :: u64) = 2 ^ 53" "sint (2 ^ 53 + 1 :: u64) = 2 ^ 53 + 1" by simp_all
  have "int_code (2 ^ 53) = int_code (2 ^ 53 + 1)"
    using int_code_54[of "2 ^ 53"] int_code_54[of "2 ^ 53 + 1"] unfolding s by (simp add: div_even_def)
  then have "feq (of_int64 (2 ^ 53)) (of_int64 (2 ^ 53 + 1))"
    unfolding feq_def of_int64_key s by simp
  then show ?thesis
    by (simp add: eval_binary_def eval_comparison_def is_text_def as_double_def compare_doubles_def
        is_numericComparison_def op_char_codes)
qed

section \<open>Patterns\<close>

lemma skip_percent_at:
  "p < length pat \<Longrightarrow> pat ! p = CHR ''%'' \<Longrightarrow>
   skip_percent n pat p < length pat \<and> pat ! skip_percent n pat p = CHR ''%''"
  by (induction n arbitrary: p) simp_all

lemma like_loop_percent:
  assumes "p < length pat" "pat ! p = CHR ''%''"
  shows "like_loop str pat s p star = None"
proof (rule ccontr)
  assume "like_loop str pat s p star \<noteq> None"
  then obtain y where "like_loop str pat s p star = Some y" by auto
  then have "\<not> (p < length pat \<and> pat ! p = CHR ''%'')"
  proof (rule like_loop.raw_induct[where P = "\<lambda>str pat s p star y. \<not> (p < length pat \<and> pat ! p = CHR ''%'')", rotated])
    fix f :: "string \<Rightarrow> string \<Rightarrow> nat \<Rightarrow> nat \<Rightarrow> (nat \<times> nat) option \<Rightarrow> bool option"
    fix str pat :: string and s p :: nat and star :: "(nat \<times> nat) option" and y :: bool
    assume "\<And>str pat s p star y. f str pat s p star = Some y \<Longrightarrow> \<not> (p < length pat \<and> pat ! p = CHR ''%'')"
    then show "\<not> (p < length pat \<and> pat ! p = CHR ''%'')"
      if "(if p < length pat then
        if pat ! p = CHR ''%'' then f str pat s (skip_percent (length pat) pat p) (Some (p, s))
        else g else h) = Some y" for g h
      using that skip_percent_at[of p pat "length pat"] by (auto split: if_splits)
  qed
  with assms show False by blast
qed

text \<open>What the matcher does: \<^verbatim>\<open>_\<close> stands for one character, and reaching a \<^verbatim>\<open>%\<close> never returns.\<close>

fun like_spec :: "string \<Rightarrow> string \<Rightarrow> bool option" where
  "like_spec str [] = Some (str = [])"
| "like_spec [] (c # pat) = (if c = CHR ''%'' then None else Some False)"
| "like_spec (d # str) (c # pat) =
     (if c = CHR ''%'' then None
      else if c = CHR ''_'' \<or> c = d then like_spec str pat else Some False)"

lemma like_loop_spec:
  "s \<le> length str \<Longrightarrow> like_loop str pat s p None = like_spec (drop s str) (drop p pat)"
proof (induction "length pat - p" arbitrary: s p)
  case 0
  then show ?case by (subst like_loop.simps) auto
next
  case (Suc n)
  then have p: "p < length pat" "drop p pat = pat ! p # drop (Suc p) pat"
    by (simp_all add: Cons_nth_drop_Suc)
  show ?case
  proof (cases "pat ! p = CHR ''%''")
    case True
    with p show ?thesis by (cases "drop s str") (simp_all add: like_loop_percent)
  next
    case False
    show ?thesis
    proof (cases "s < length str")
      case True
      then have "drop s str = str ! s # drop (Suc s) str" by (simp add: Cons_nth_drop_Suc)
      with True False p Suc show ?thesis by (subst like_loop.simps) auto
    next
      case s: False
      with False p Suc.prems show ?thesis by (subst like_loop.simps) auto
    qed
  qed
qed

text \<open>C24: \<^verbatim>\<open>simple_like_match\<close> agrees with the specification: a pattern without a reachable \<^verbatim>\<open>%\<close> is
  matched character by character, and a reachable \<^verbatim>\<open>%\<close> makes it loop without end.\<close>

theorem simple_like_match_spec: "simple_like_match str pat = like_spec str pat"
  using like_loop_spec[of 0 str pat 0] by (simp add: simple_like_match_def)

section \<open>Evaluation ends without patterns\<close>

fun like_free :: "AstNode Expression \<Rightarrow> bool" and like_free_list :: "AstNode Expression list \<Rightarrow> bool" where
  "like_free (EXPR_LIKE a b c d) = False"
| "like_free (EXPR_BINARY l op r) = (like_free l \<and> like_free r)"
| "like_free (EXPR_UNARY op e) = like_free e"
| "like_free (EXPR_IN e es n) = (like_free e \<and> like_free_list es)"
| "like_free (EXPR_BETWEEN e lo hi n) = (like_free e \<and> like_free lo \<and> like_free hi)"
| "like_free e = True"
| "like_free_list [] = True"
| "like_free_list (e # es) = (like_free e \<and> like_free_list es)"


lemma operand_halts [simp]: "halts (operand v)" "halts (int64_result i)"
  by (simp_all add: operand_def int64_result_def split: Value.split)

lemma operators_halt: "halts (eval_binary op a b)" "halts (eval_unary op a)"
proof -
  have "halts (eval_arith f g a b)" for f g
    by (auto simp: eval_arith_def split: Value.split intro!: halts_bind)
  moreover have "halts (eval_divide a b)"
    by (auto simp: eval_divide_def split: Value.split intro!: halts_bind)
  ultimately show "halts (eval_binary op a b)" by (simp add: eval_binary_def)
  show "halts (eval_unary op a)" by (simp add: eval_unary_def split: Value.split)
qed

lemma evaluation_halts:
  "like_free e \<Longrightarrow> halts (expr_eval e row)"
  "like_free_list es \<Longrightarrow> halts (eval_in es v row)"
  by (induction e row and es v row rule: expr_eval_eval_in.induct)
    (auto intro!: halts_bind operators_halt)

text \<open>The evaluation of an expression without \<^verbatim>\<open>LIKE\<close> always ends.\<close>

theorem expr_eval_ends: "like_free e \<Longrightarrow> halts (expr_eval e row)"
  by (rule evaluation_halts)

theorem expr_eval_ends_witness:
  "halts (expr_eval (EXPR_IN (EXPR_COLUMN 0 ''a'') [EXPR_LITERAL_NULL] False) (Some [(Some ''a'', VALUE_NULL)]))"
  by (rule expr_eval_ends) simp

end
