(* ===== verification/Lexer.thy ===== *)
theory Lexer
  imports Token
begin

text \<open>
  The SQL lexer, \<^verbatim>\<open>src/sql/lexer.c\<close>: a cursor over the statement, one scanning function per
  kind of token, and one token of lookahead.  A \<open>Lexer\<close> record is \<^verbatim>\<open>struct Lexer\<close>, with the
  statement as a character list of length \<^verbatim>\<open>sql_len\<close>.  Allocation succeeds, so the
  out-of-memory error tokens do not occur.  Lines and columns are counted without a bound, and the digits of a
  hexadecimal literal are shifted into 64 bits, so that those in front are lost when there are more than sixteen.  The lemmas show that scanning always advances and
  stays inside the statement, that the binary search of the keyword table finds all keywords
  but two, and that quoting a string and scanning it gives the string back.
\<close>

section \<open>The cursor\<close>

record Lexer =
  l_sql :: string
  l_pos :: nat
  l_line :: int
  l_column :: int
  l_current_token :: Token
  l_peek_token :: Token
  l_peeked :: bool
  l_error :: string
  l_error_line :: int
  l_error_column :: int

abbreviation NUL :: char where
  "NUL \<equiv> CHR 0x00"

definition zero_token :: Token where
  "zero_token = \<lparr>t_type = TOKEN_EOF, t_lexeme = None, t_lexeme_len = 0, t_line = 0, t_column = 0,
     t_value = NoValue\<rparr>"

definition lexer_create :: "string \<Rightarrow> Lexer option" where
  "lexer_create sql =
     (if sql = [] then None else
      Some \<lparr>l_sql = sql, l_pos = 0, l_line = 1, l_column = 1, l_current_token = zero_token,
            l_peek_token = zero_token, l_peeked = False, l_error = [], l_error_line = 0,
            l_error_column = 0\<rparr>)"

definition current_char :: "Lexer \<Rightarrow> char" where
  "current_char lx = (if length (l_sql lx) \<le> l_pos lx then NUL else l_sql lx ! l_pos lx)"

definition peek_char :: "Lexer \<Rightarrow> char" where
  "peek_char lx = (if length (l_sql lx) \<le> l_pos lx + 1 then NUL else l_sql lx ! (l_pos lx + 1))"

definition lex_advance :: "Lexer \<Rightarrow> Lexer" where
  "lex_advance lx =
     (if l_pos lx < length (l_sql lx) then
        (if l_sql lx ! l_pos lx = CHR 0x0A
         then lx\<lparr>l_line := l_line lx + 1, l_column := 1, l_pos := l_pos lx + 1\<rparr>
         else lx\<lparr>l_column := l_column lx + 1, l_pos := l_pos lx + 1\<rparr>)
      else lx)"

text \<open>Character classes in the C locale.\<close>

definition is_alpha :: "char \<Rightarrow> bool" where
  "is_alpha c \<longleftrightarrow> of_char c \<in> {65::nat..90} \<or> of_char c \<in> {97::nat..122}"

definition is_alphanumeric :: "char \<Rightarrow> bool" where
  "is_alphanumeric c \<longleftrightarrow> is_alpha c \<or> is_digit c"

definition is_whitespace :: "char \<Rightarrow> bool" where
  "is_whitespace c \<longleftrightarrow> c = CHR '' '' \<or> c = CHR 0x09 \<or> c = CHR 0x0D \<or> c = CHR 0x0A"

definition is_identifier_start :: "char \<Rightarrow> bool" where
  "is_identifier_start c \<longleftrightarrow> is_alpha c \<or> c = CHR ''_''"

definition is_identifier_char :: "char \<Rightarrow> bool" where
  "is_identifier_char c \<longleftrightarrow> is_alphanumeric c \<or> c = CHR ''_''"

definition isxdigit :: "char \<Rightarrow> bool" where
  "isxdigit c \<longleftrightarrow> is_digit c \<or> of_char c \<in> {65::nat..70} \<or> of_char c \<in> {97::nat..102}"

definition to_upper :: "char \<Rightarrow> char" where
  "to_upper c = (if of_char c \<in> {97::nat..122} then char_of (of_char c - 32 :: nat) else c)"

definition to_lower :: "char \<Rightarrow> char" where
  "to_lower c = (if of_char c \<in> {65::nat..90} then char_of (of_char c + 32 :: nat) else c)"

section \<open>Keywords\<close>

definition keyword_table :: "(string \<times> TokenType) list" where
  "keyword_table =
     [(''AND'', TOKEN_AND), (''AS'', TOKEN_AS), (''ASC'', TOKEN_ASC),
      (''AUTOINCREMENT'', TOKEN_AUTOINCREMENT), (''BEGIN'', TOKEN_BEGIN),
      (''BETWEEN'', TOKEN_BETWEEN), (''BY'', TOKEN_BY), (''COMMIT'', TOKEN_COMMIT),
      (''CREATE'', TOKEN_CREATE), (''DEFAULT'', TOKEN_DEFAULT), (''DELETE'', TOKEN_DELETE),
      (''DESC'', TOKEN_DESC), (''DISTINCT'', TOKEN_DISTINCT), (''DROP'', TOKEN_DROP),
      (''EXISTS'', TOKEN_EXISTS), (''FROM'', TOKEN_FROM), (''IF'', TOKEN_IF), (''IN'', TOKEN_IN),
      (''INDEX'', TOKEN_INDEX), (''INSERT'', TOKEN_INSERT), (''INTO'', TOKEN_INTO),
      (''IS'', TOKEN_IS), (''KEY'', TOKEN_KEY), (''LIKE'', TOKEN_LIKE), (''LIMIT'', TOKEN_LIMIT),
      (''NOT'', TOKEN_NOT), (''NULL'', TOKEN_NULL), (''OFFSET'', TOKEN_OFFSET),
      (''ON'', TOKEN_ON), (''OR'', TOKEN_OR), (''ORDER'', TOKEN_ORDER),
      (''PRIMARY'', TOKEN_PRIMARY), (''REAL'', TOKEN_REAL_KW), (''ROLLBACK'', TOKEN_ROLLBACK),
      (''SELECT'', TOKEN_SELECT), (''SET'', TOKEN_SET), (''TABLE'', TOKEN_TABLE),
      (''TEXT'', TOKEN_TEXT_KW), (''TRANSACTION'', TOKEN_TRANSACTION),
      (''UNIQUE'', TOKEN_UNIQUE), (''UPDATE'', TOKEN_UPDATE), (''VALUES'', TOKEN_VALUES),
      (''WHERE'', TOKEN_WHERE), (''INTEGER'', TOKEN_INTEGER_KW), (''BLOB'', TOKEN_BLOB_KW)]"

fun strncasecmp :: "string \<Rightarrow> string \<Rightarrow> nat \<Rightarrow> int" where
  "strncasecmp (a # s) (b # t) (Suc n) =
     (let d = int (of_char (to_lower a)) - int (of_char (to_lower b)) in
      if d \<noteq> 0 then d else strncasecmp s t n)"
| "strncasecmp s t n = 0"

text \<open>One comparison of the binary search: a proper prefix comes first.\<close>

definition keyword_cmp :: "string \<Rightarrow> string \<Rightarrow> int" where
  "keyword_cmp text kw =
     (let cmp = strncasecmp text kw (min (length text) (length kw)) in
      if cmp = 0 then
        (if length text < length kw then -1 else if length kw < length text then 1 else 0)
      else cmp)"

function kw_search :: "string \<Rightarrow> int \<Rightarrow> int \<Rightarrow> TokenType" where
  "kw_search text low high =
     (if high < low then TOKEN_IDENTIFIER else
      let mid = (low + high) div 2; cmp = keyword_cmp text (fst (keyword_table ! nat mid)) in
      if cmp = 0 then snd (keyword_table ! nat mid)
      else if cmp < 0 then kw_search text low (mid - 1)
      else kw_search text (mid + 1) high)"
  by pat_completeness auto

termination
  by (relation "measure (\<lambda>(text, low, high). nat (high - low + 1))") (auto simp: Let_def)

declare kw_search.simps [simp del]

definition lookup_keyword :: "string \<Rightarrow> TokenType" where
  "lookup_keyword text = kw_search text 0 (int (length keyword_table) - 1)"

section \<open>Errors and tokens\<close>

definition set_error :: "string \<Rightarrow> Lexer \<Rightarrow> Lexer" where
  "set_error msg lx =
     lx\<lparr>l_error := take 255 msg, l_error_line := l_line lx, l_error_column := l_column lx\<rparr>"

definition lexer_error :: "Lexer \<Rightarrow> string option" where
  "lexer_error lx = (if l_error lx \<noteq> [] then Some (l_error lx) else None)"

definition make_token :: "Lexer \<Rightarrow> TokenType \<Rightarrow> string \<Rightarrow> Token" where
  "make_token lx type text =
     \<lparr>t_type = type, t_lexeme = (if text = [] then None else Some text),
      t_lexeme_len = length text, t_line = l_line lx,
      t_column = l_column lx - int (length text), t_value = NoValue\<rparr>"

definition make_error_token :: "Lexer \<Rightarrow> string \<Rightarrow> Token \<times> Lexer" where
  "make_error_token lx msg = (make_token lx TOKEN_ERROR [], set_error msg lx)"

section \<open>Scanning\<close>

text \<open>
  \<^verbatim>\<open>while (P(current_char(lexer))) advance(lexer);\<close> The loops of the source use classes that
  do not contain the terminating zero, so the test for the end of the statement is implied
  (lemma \<open>advance_while_unfold\<close>).
\<close>

function advance_while :: "(char \<Rightarrow> bool) \<Rightarrow> Lexer \<Rightarrow> Lexer" where
  "advance_while P lx =
     (if l_pos lx < length (l_sql lx) \<and> P (current_char lx)
      then advance_while P (lex_advance lx) else lx)"
  by pat_completeness auto

termination
  by (relation "measure (\<lambda>(P, lx). length (l_sql lx) - l_pos lx)") (auto simp: lex_advance_def)

declare advance_while.simps [simp del]

definition skip_whitespace :: "Lexer \<Rightarrow> Lexer" where
  "skip_whitespace lx = advance_while is_whitespace lx"

text \<open>The text between an earlier position and the cursor.\<close>

definition text_from :: "nat \<Rightarrow> Lexer \<Rightarrow> string" where
  "text_from start lx = get_at start (l_pos lx - start) (l_sql lx)"

definition scan_identifier :: "Lexer \<Rightarrow> Token \<times> Lexer" where
  "scan_identifier lx =
     (if \<not> is_identifier_start (current_char lx)
      then make_error_token lx ''Invalid identifier start''
      else
        let lx' = advance_while is_identifier_char (lex_advance lx);
            text = text_from (l_pos lx) lx'
        in (make_token lx' (lookup_keyword (map to_upper text)) text, lx'))"

text \<open>The value of a hexadecimal literal: shifts in a 64-bit accumulator, high digits fall out.\<close>

definition hex_digit :: "char \<Rightarrow> nat" where
  "hex_digit c =
     (if is_digit c then of_char c - 48
      else if of_char c \<in> {97::nat..102} then of_char c - 97 + 10
      else of_char c - 65 + 10)"

definition hex_val :: "string \<Rightarrow> u64" where
  "hex_val ds = foldl (\<lambda>v c. push_bit 4 v OR word_of_nat (hex_digit c)) 0 (takeWhile isxdigit ds)"

definition scan_exponent :: "Lexer \<Rightarrow> bool \<times> Lexer" where
  "scan_exponent lx =
     (if current_char lx = CHR ''e'' \<or> current_char lx = CHR ''E'' then
        let lx = lex_advance lx;
            lx = (if current_char lx = CHR ''+'' \<or> current_char lx = CHR ''-''
                  then lex_advance lx else lx)
        in (True, advance_while is_digit lx)
      else (False, lx))"

definition scan_fraction :: "Lexer \<Rightarrow> bool \<times> Lexer" where
  "scan_fraction lx =
     (if current_char lx = CHR ''.'' \<and> is_digit (peek_char lx)
      then (True, advance_while is_digit (lex_advance lx)) else (False, lx))"

definition scan_number :: "Lexer \<Rightarrow> Token \<times> Lexer" where
  "scan_number lx0 =
     (let start = l_pos lx0; start_column = l_column lx0 in
      if current_char lx0 = CHR ''0'' \<and> (peek_char lx0 = CHR ''x'' \<or> peek_char lx0 = CHR ''X'') then
        let lx = advance_while isxdigit (lex_advance (lex_advance lx0));
            lx = lx\<lparr>l_column := start_column\<rparr>; text = text_from start lx
        in ((make_token lx TOKEN_INTEGER text)\<lparr>t_value := IntegerValue (hex_val (drop 2 text))\<rparr>, lx)
      else
        let lx = advance_while is_digit lx0;
            (has_dot, lx) = scan_fraction lx;
            (has_e, lx) = scan_exponent lx;
            lx = lx\<lparr>l_column := start_column\<rparr>; text = text_from start lx
        in if has_dot \<or> has_e
           then ((make_token lx TOKEN_REAL text)\<lparr>t_value := FloatValue (atof text)\<rparr>, lx)
           else ((make_token lx TOKEN_INTEGER text)\<lparr>t_value := IntegerValue (atoll text)\<rparr>, lx))"

text \<open>The loop of \<^verbatim>\<open>scan_string\<close>: \<open>None\<close> when the statement ends before the closing quote.\<close>

function string_loop :: "char \<Rightarrow> string \<Rightarrow> Lexer \<Rightarrow> string option \<times> Lexer" where
  "string_loop quote content lx =
     (if length (l_sql lx) \<le> l_pos lx \<or> current_char lx = NUL then (None, lx)
      else if current_char lx = quote then
        (if peek_char lx = quote
         then string_loop quote (content @ [CHR 0x27]) (lex_advance (lex_advance lx))
         else (Some content, lex_advance lx))
      else string_loop quote (content @ [current_char lx]) (lex_advance lx))"
  by pat_completeness auto

termination
  by (relation "measure (\<lambda>(q, c, lx). length (l_sql lx) - l_pos lx)") (auto simp: lex_advance_def)

declare string_loop.simps [simp del]

definition scan_string :: "Lexer \<Rightarrow> Token \<times> Lexer" where
  "scan_string lx0 =
     (let start = l_pos lx0; start_column = l_column lx0 in
      case string_loop (current_char lx0) [] (lex_advance lx0) of
        (None, lx) \<Rightarrow> make_error_token (lx\<lparr>l_column := start_column\<rparr>) ''Unterminated string''
      | (Some content, lx) \<Rightarrow>
          let lx = lx\<lparr>l_column := start_column\<rparr> in
          ((make_token lx TOKEN_STRING (text_from start lx))\<lparr>t_value := StringValue content\<rparr>, lx))"

definition single_char_tokens :: "(char \<times> TokenType) list" where
  "single_char_tokens =
     [(CHR ''+'', TOKEN_PLUS), (CHR ''-'', TOKEN_MINUS), (CHR ''*'', TOKEN_STAR),
      (CHR ''/'', TOKEN_SLASH), (CHR ''%'', TOKEN_PERCENT), (CHR ''('', TOKEN_LPAREN),
      (CHR '')'', TOKEN_RPAREN), (CHR '','', TOKEN_COMMA), (CHR ''.'', TOKEN_DOT),
      (CHR '';'', TOKEN_SEMICOLON), (CHR ''?'', TOKEN_QUESTION), (CHR ''='', TOKEN_EQ)]"

definition scan_operator :: "Lexer \<Rightarrow> Token \<times> Lexer" where
  "scan_operator lx0 =
     (let c = current_char lx0; lx = lex_advance lx0 in
      case map_of single_char_tokens c of
        Some type \<Rightarrow> (make_token lx type [c], lx)
      | None \<Rightarrow>
          if c = CHR ''<'' then
            (if current_char lx = CHR ''='' then
               let lx = lex_advance lx in (make_token lx TOKEN_LTE ''<='', lx)
             else if current_char lx = CHR ''>'' then
               let lx = lex_advance lx in (make_token lx TOKEN_NEQ ''<>'', lx)
             else (make_token lx TOKEN_LT ''<'', lx))
          else if c = CHR ''>'' then
            (if current_char lx = CHR ''='' then
               let lx = lex_advance lx in (make_token lx TOKEN_GTE ''>='', lx)
             else (make_token lx TOKEN_GT ''>'', lx))
          else if c = CHR ''!'' then
            (if current_char lx = CHR ''='' then
               let lx = lex_advance lx in (make_token lx TOKEN_NEQ ''!='', lx)
             else make_error_token lx (''Unexpected character '' @ [CHR 0x27] @ ''!'' @ [CHR 0x27]))
          else make_error_token lx ''Unexpected character'')"

definition scan_placeholder :: "Lexer \<Rightarrow> Token \<times> Lexer" where
  "scan_placeholder lx0 =
     (let lx = lex_advance lx0 in
      if is_digit (current_char lx) then
        let lx = advance_while is_digit lx
        in (make_token lx TOKEN_PLACEHOLDER (text_from (l_pos lx0) lx), lx)
      else make_error_token lx ''Invalid placeholder'')"

definition next_token_internal :: "Lexer \<Rightarrow> Token \<times> Lexer" where
  "next_token_internal lx0 =
     (let lx = skip_whitespace lx0; c = current_char lx in
      if length (l_sql lx) \<le> l_pos lx then (make_token lx TOKEN_EOF [], lx)
      else if is_identifier_start c then scan_identifier lx
      else if is_digit c then scan_number lx
      else if c = CHR 0x27 \<or> c = CHR 0x22 then scan_string lx
      else if c = CHR ''$'' then scan_placeholder lx
      else scan_operator lx)"

section \<open>The token interface\<close>

definition lexer_next_token :: "Lexer \<Rightarrow> Token \<times> Lexer" where
  "lexer_next_token lx =
     (if l_peeked lx then (l_peek_token lx, lx\<lparr>l_peeked := False\<rparr>)
      else case next_token_internal lx of (t, lx) \<Rightarrow> (t, lx\<lparr>l_current_token := t\<rparr>))"

definition lexer_peek_token :: "Lexer \<Rightarrow> Token \<times> Lexer" where
  "lexer_peek_token lx =
     (if l_peeked lx then (l_peek_token lx, lx)
      else case next_token_internal lx of
        (t, lx) \<Rightarrow> (t, lx\<lparr>l_peek_token := t, l_peeked := True\<rparr>))"

definition lexer_advance :: "Lexer \<Rightarrow> Lexer" where
  "lexer_advance lx = snd (lexer_next_token lx)"

section \<open>Scanning moves forward inside the statement\<close>

definition rest :: "Lexer \<Rightarrow> string" where
  "rest lx = drop (l_pos lx) (l_sql lx)"

definition moves :: "Lexer \<Rightarrow> Lexer \<Rightarrow> bool" where
  "moves lx lx' \<longleftrightarrow> l_sql lx' = l_sql lx \<and> l_pos lx \<le> l_pos lx' \<and>
     (l_pos lx \<le> length (l_sql lx) \<longrightarrow> l_pos lx' \<le> length (l_sql lx)) \<and>
     l_peeked lx' = l_peeked lx"

lemma moves_refl [simp]: "moves lx lx"
  by (simp add: moves_def)

lemma moves_trans [trans]: "moves a b \<Longrightarrow> moves b c \<Longrightarrow> moves a c"
  by (auto simp: moves_def)

lemma moves_upd [simp]:
  "moves lx (lx'\<lparr>l_column := c\<rparr>) = moves lx lx'" "moves lx (set_error msg lx') = moves lx lx'"
  by (simp_all add: moves_def set_error_def)

lemma rest_upd [simp]:
  "rest (lx\<lparr>l_column := c\<rparr>) = rest lx" "rest (set_error msg lx) = rest lx"
  "rest (lx\<lparr>l_current_token := t\<rparr>) = rest lx"
  by (simp_all add: rest_def set_error_def)

lemma pos_upd [simp]: "l_pos (set_error msg lx) = l_pos lx"
  by (simp add: set_error_def)

lemma text_from_upd [simp]:
  "text_from n (lx\<lparr>l_column := c\<rparr>) = text_from n lx"
  by (simp add: text_from_def)

lemma current_char_rest: "current_char lx = (case rest lx of [] \<Rightarrow> NUL | c # _ \<Rightarrow> c)"
  by (auto simp: current_char_def rest_def Cons_nth_drop_Suc[symmetric] split: list.splits)

lemma peek_char_rest: "peek_char lx = (case tl (rest lx) of [] \<Rightarrow> NUL | c # _ \<Rightarrow> c)"
  by (auto simp: peek_char_def rest_def tl_drop drop_Suc[symmetric]
      Cons_nth_drop_Suc[symmetric] split: list.splits)

lemma rest_advance [simp]: "rest (lex_advance lx) = tl (rest lx)"
  by (simp add: rest_def lex_advance_def tl_drop[symmetric] drop_Suc)

lemma advance_moves [simp]: "moves lx (lex_advance lx)"
  by (simp add: moves_def lex_advance_def)

lemma advance_pos: "rest lx \<noteq> [] \<Longrightarrow> l_pos (lex_advance lx) = Suc (l_pos lx)"
  by (simp add: rest_def lex_advance_def)

lemma rest_empty: "length (l_sql lx) \<le> l_pos lx \<longleftrightarrow> rest lx = []"
  by (simp add: rest_def)

lemma advance_while_rest:
  "rest (advance_while P lx) = dropWhile P (rest lx) \<and> moves lx (advance_while P lx)"
proof (induction P lx rule: advance_while.induct)
  case (1 P lx)
  show ?case
  proof (cases "l_pos lx < length (l_sql lx) \<and> P (current_char lx)")
    case True
    then obtain c r where r: "rest lx = c # r" "P c"
      by (cases "rest lx") (auto simp: current_char_rest rest_def)
    with True 1[OF True] show ?thesis
      by (simp add: advance_while.simps[of P lx]) (blast intro: moves_trans advance_moves)
  next
    case False
    then have "rest lx = [] \<or> \<not> P (current_char lx)" by (auto simp: rest_def)
    then have "dropWhile P (rest lx) = rest lx"
      by (cases "rest lx") (auto simp: current_char_rest)
    moreover have "advance_while P lx = lx" using False by (subst advance_while.simps) auto
    ultimately show ?thesis by simp
  qed
qed

lemmas rest_advance_while [simp] = advance_while_rest[THEN conjunct1]
lemmas advance_while_moves [simp] = advance_while_rest[THEN conjunct2]

text \<open>For a class without the terminating zero, \<open>advance_while\<close> is the loop of the source.\<close>

lemma advance_while_unfold:
  assumes "\<not> P NUL"
  shows "advance_while P lx =
    (if P (current_char lx) then advance_while P (lex_advance lx) else lx)"
  using assms by (subst advance_while.simps) (auto simp: current_char_def)

lemma moves_text: "moves lx lx' \<Longrightarrow> rest lx = text_from (l_pos lx) lx' @ rest lx'"
  using append_take_drop_id[of "l_pos lx' - l_pos lx" "drop (l_pos lx) (l_sql lx)"]
  by (simp add: moves_def text_from_def rest_def get_at_def)

lemma moves_pos_rest: "moves lx lx' \<Longrightarrow> length (rest lx') < length (rest lx) \<Longrightarrow> l_pos lx < l_pos lx'"
  by (auto simp: moves_def rest_def)

lemma moves_rest_len: "moves lx lx' \<Longrightarrow> length (rest lx') \<le> length (rest lx)"
  by (auto simp: moves_def rest_def)

text \<open>
  What every scanner does: it consumes at least one character, stays inside the statement, and
  unless it reports an error the lexeme is the consumed text.
\<close>

definition scans :: "Lexer \<Rightarrow> Token \<times> Lexer \<Rightarrow> bool" where
  "scans lx r \<longleftrightarrow> moves lx (snd r) \<and> length (rest (snd r)) < length (rest lx) \<and>
     t_type (fst r) \<noteq> TOKEN_EOF \<and>
     (t_type (fst r) \<noteq> TOKEN_ERROR \<longrightarrow> t_lexeme (fst r) = Some (text_from (l_pos lx) (snd r)))"

lemma token_fields [simp]:
  "t_type (make_token lx ty s) = ty"
  "t_lexeme (make_token lx ty s) = (if s = [] then None else Some s)"
  "t_value (make_token lx ty s) = NoValue"
  by (simp_all add: make_token_def)

lemma error_scans:
  "moves lx lx' \<Longrightarrow> length (rest lx') < length (rest lx) \<Longrightarrow> scans lx (make_error_token lx' msg)"
  by (simp add: scans_def make_error_token_def)

lemma token_scans:
  assumes "moves lx lx'" "length (rest lx') < length (rest lx)" "ty \<noteq> TOKEN_EOF"
    "s = text_from (l_pos lx) lx'"
  shows "scans lx (make_token lx'' ty s, lx')"
    "scans lx ((make_token lx'' ty s)\<lparr>t_value := v\<rparr>, lx')"
proof -
  have "s \<noteq> []" using moves_text[OF assms(1)] assms(2,4) by auto
  with assms show "scans lx (make_token lx'' ty s, lx')"
    "scans lx ((make_token lx'' ty s)\<lparr>t_value := v\<rparr>, lx')"
    by (simp_all add: scans_def)
qed

lemma moves_advance_trans: "moves lx lx' \<Longrightarrow> moves lx (lex_advance lx')"
  and moves_while_trans: "moves lx lx' \<Longrightarrow> moves lx (advance_while P lx')"
  by (blast intro: moves_trans advance_moves advance_while_moves)+

lemmas moves_intros = moves_advance_trans moves_while_trans moves_refl

lemma dropWhile_tl_len: "xs \<noteq> [] \<Longrightarrow> length (dropWhile P (tl xs)) < length xs"
  using length_dropWhile_le[of P "tl xs"] by (cases xs) auto

lemma kw_search_range:
  "kw_search w low high \<noteq> TOKEN_IDENTIFIER \<Longrightarrow> 0 \<le> low \<Longrightarrow> high < int (length keyword_table) \<Longrightarrow>
   \<exists>kw. (kw, kw_search w low high) \<in> set keyword_table \<and> keyword_cmp w kw = 0"
proof (induction w low high rule: kw_search.induct)
  case (1 w low high)
  define mid where "mid = (low + high) div 2"
  have nz: "\<not> high < low" using "1.prems"(1) by (auto simp: kw_search.simps)
  then have mid: "0 \<le> mid" "nat mid < length keyword_table" "low \<le> mid" "mid \<le> high"
    using "1.prems"(2,3) by (auto simp: mid_def)
  let ?cmp = "keyword_cmp w (fst (keyword_table ! nat mid))"
  consider "?cmp = 0" | "?cmp < 0" | "0 < ?cmp" by linarith
  then show ?case
  proof cases
    case 1
    then have "kw_search w low high = snd (keyword_table ! nat mid)"
      using nz by (subst kw_search.simps) (simp add: mid_def[symmetric] Let_def)
    with 1 nth_mem[OF mid(2)] show ?thesis by (metis prod.collapse)
  next
    case 2
    then have "kw_search w low high = kw_search w low (mid - 1)"
      using nz by (subst kw_search.simps) (simp add: mid_def[symmetric] Let_def)
    with 2 "1.IH"(1)[OF nz mid_def refl] "1.prems" mid show ?thesis by simp
  next
    case 3
    then have "kw_search w low high = kw_search w (mid + 1) high"
      using nz by (subst kw_search.simps) (simp add: mid_def[symmetric] Let_def)
    with 3 "1.IH"(2)[OF nz mid_def refl] "1.prems" mid show ?thesis by simp
  qed
qed

lemma keyword_table_types: "(kw, ty) \<in> set keyword_table \<Longrightarrow> ty \<noteq> TOKEN_EOF \<and> ty \<noteq> TOKEN_ERROR"
  unfolding keyword_table_def by (elim set_ConsD[THEN disjE] | simp)+

lemma lookup_keyword_types: "lookup_keyword w \<noteq> TOKEN_EOF" "lookup_keyword w \<noteq> TOKEN_ERROR"
  using kw_search_range[of w 0 "int (length keyword_table) - 1"] keyword_table_types
  by (fastforce simp: lookup_keyword_def)+

lemma scan_identifier_scans:
  assumes "rest lx \<noteq> []" "is_identifier_start (current_char lx)"
  shows "scans lx (scan_identifier lx)"
  using assms lookup_keyword_types
  by (simp add: scan_identifier_def Let_def token_scans moves_intros dropWhile_tl_len)

lemma scan_fraction_moves: "moves lx (snd (scan_fraction lx))"
  by (auto simp: scan_fraction_def intro: moves_intros)

lemma scan_exponent_moves: "moves lx (snd (scan_exponent lx))"
  by (auto simp: scan_exponent_def Let_def intro: moves_intros)

lemma scan_number_scans:
  assumes "is_digit (current_char lx)"
  shows "scans lx (scan_number lx)"
proof -
  obtain c r where cr: "rest lx = c # r" "is_digit c"
    using assms by (cases "rest lx") (auto simp: current_char_rest is_digit_def)
  show ?thesis
  proof (cases "current_char lx = CHR ''0'' \<and> (peek_char lx = CHR ''x'' \<or> peek_char lx = CHR ''X'')")
    case True
    let ?lx = "advance_while isxdigit (lex_advance (lex_advance lx))"
    have "moves lx ?lx" by (intro moves_intros)
    moreover have "length (rest ?lx) < length (rest lx)"
      using length_dropWhile_le[of isxdigit "tl r"] cr by (simp add: le_less_trans)
    ultimately show ?thesis using True by (simp add: scan_number_def Let_def token_scans)
  next
    case False
    let ?a = "advance_while is_digit lx"
    obtain d b where b: "scan_fraction ?a = (d, b)" by force
    obtain e c' where c': "scan_exponent b = (e, c')" by force
    have ab: "moves ?a b" "moves b c'" using scan_fraction_moves[of ?a] scan_exponent_moves[of b] b c'
      by simp_all
    have "length (rest ?a) < length (rest lx)"
      using length_dropWhile_le[of is_digit r] cr by simp
    then have "length (rest c') < length (rest lx)"
      using moves_rest_len[OF ab(1)] moves_rest_len[OF ab(2)] by simp
    moreover have "moves lx c'" using ab by (meson advance_while_moves moves_trans)
    ultimately show ?thesis
      using False by (auto simp: scan_number_def Let_def b c' token_scans)
  qed
qed

lemma string_loop_moves: "moves lx (snd (string_loop q content lx))"
proof (induction q content lx rule: string_loop.induct)
  case (1 q content lx)
  then show ?case
    by (subst string_loop.simps)
      (auto intro: moves_trans[OF advance_moves] moves_trans[OF moves_trans[OF advance_moves advance_moves]])
qed

lemma scan_string_scans:
  assumes "rest lx \<noteq> []"
  shows "scans lx (scan_string lx)"
proof -
  obtain r lx' where r: "string_loop (current_char lx) [] (lex_advance lx) = (r, lx')" by force
  have "moves (lex_advance lx) lx'" using string_loop_moves[of "lex_advance lx"] r by (metis snd_conv)
  then have "moves lx lx'" "length (rest lx') < length (rest lx)"
    using moves_rest_len[of "lex_advance lx" lx'] assms
    by (auto intro: moves_trans[OF advance_moves] simp: length_tl[symmetric] le_less_trans[of _ "length (rest lx) - 1"])
  then show ?thesis
    by (cases r) (simp_all add: scan_string_def Let_def r error_scans token_scans)
qed

lemma text_from_advance:
  assumes "rest lx = c # r"
  shows "text_from (l_pos lx) (lex_advance lx) = [c]"
  using moves_text[OF advance_moves, of lx] assms by simp

lemma text_from_advance2:
  assumes "rest lx = c # d # r"
  shows "text_from (l_pos lx) (lex_advance (lex_advance lx)) = [c, d]"
proof -
  have "moves lx (lex_advance (lex_advance lx))" by (intro moves_intros)
  from moves_text[OF this] assms show ?thesis by simp
qed

lemma one_char_scans:
  assumes "rest lx = c # r" "ty \<noteq> TOKEN_EOF"
  shows "scans lx (make_token lx' ty [c], lex_advance lx)"
  using assms by (intro token_scans) (simp_all add: text_from_advance)

lemma two_char_scans:
  assumes "rest lx = c # r" "current_char (lex_advance lx) = d" "d \<noteq> NUL" "ty \<noteq> TOKEN_EOF"
  shows "scans lx (make_token lx' ty [c, d], lex_advance (lex_advance lx))"
proof -
  obtain t where t: "rest lx = c # d # t"
    using assms(1-3) by (cases r) (auto simp: current_char_rest)
  then show ?thesis
    using assms(4) by (intro token_scans moves_intros) (simp_all add: text_from_advance2)
qed

lemma single_char_types: "map_of single_char_tokens c = Some ty \<Longrightarrow> ty \<noteq> TOKEN_EOF"
  by (auto simp: single_char_tokens_def split: if_splits)

lemma scan_operator_scans:
  assumes "rest lx \<noteq> []"
  shows "scans lx (scan_operator lx)"
proof -
  obtain c r where r: "rest lx = c # r" using assms by (cases "rest lx") auto
  then have c: "current_char lx = c" by (simp add: current_char_rest)
  have err: "scans lx (make_error_token (lex_advance lx) msg)" for msg
    by (intro error_scans) (simp_all add: r)
  show ?thesis
  proof (cases "map_of single_char_tokens c")
    case (Some ty)
    then show ?thesis
      using one_char_scans[OF r single_char_types[OF Some]] by (simp add: scan_operator_def Let_def c)
  next
    case None
    then show ?thesis
      using err r by (auto simp: scan_operator_def Let_def c intro!: one_char_scans two_char_scans)
  qed
qed

lemma scan_placeholder_scans:
  assumes "rest lx \<noteq> []"
  shows "scans lx (scan_placeholder lx)"
  using assms
  by (auto simp: scan_placeholder_def Let_def intro!: error_scans token_scans moves_intros dropWhile_tl_len)

text \<open>The lexer as a whole: leading white space, then the end of the statement or one scan.\<close>

lemma next_token_cases:
  obtains (eof) "dropWhile is_whitespace (rest lx) = []"
      "next_token_internal lx = (make_token (skip_whitespace lx) TOKEN_EOF [], skip_whitespace lx)"
  | (scan) "dropWhile is_whitespace (rest lx) \<noteq> []"
      "scans (skip_whitespace lx) (next_token_internal lx)"
proof (cases "rest (skip_whitespace lx) = []")
  case True
  then show thesis
    by (intro eof) (simp_all add: next_token_internal_def Let_def rest_empty skip_whitespace_def)
next
  case False
  then show thesis
    by (intro scan)
      (auto simp: next_token_internal_def Let_def rest_empty skip_whitespace_def
        scan_identifier_scans scan_number_scans scan_string_scans scan_placeholder_scans
        scan_operator_scans)
qed

lemma skip_whitespace_moves [simp]: "moves lx (skip_whitespace lx)"
  and rest_skip_whitespace [simp]: "rest (skip_whitespace lx) = dropWhile is_whitespace (rest lx)"
  by (simp_all add: skip_whitespace_def)

lemma next_token_moves: "moves lx (snd (next_token_internal lx))"
  by (rule next_token_cases[of lx]) (auto simp: scans_def intro: moves_trans[OF skip_whitespace_moves])

lemma next_token_shorter:
  "t_type (fst (next_token_internal lx)) \<noteq> TOKEN_EOF \<Longrightarrow>
   length (rest (snd (next_token_internal lx))) < length (rest lx)"
  by (rule next_token_cases[of lx])
    (auto simp: scans_def intro: less_le_trans[OF _ length_dropWhile_le])

section \<open>All tokens of a statement\<close>

text \<open>The client's loop: ask for tokens until the end of the statement or an error.\<close>

function lex_all :: "Lexer \<Rightarrow> Token list" where
  "lex_all lx =
     (case next_token_internal lx of
        (t, lx') \<Rightarrow>
          if t_type t = TOKEN_EOF \<or> t_type t = TOKEN_ERROR then [t] else t # lex_all lx')"
  by pat_completeness auto

termination
  by (relation "measure (\<lambda>lx. length (rest lx))") (use next_token_shorter in \<open>auto simp: prod_eq_iff\<close>)

declare lex_all.simps [simp del]

fun interleave :: "string list \<Rightarrow> string list \<Rightarrow> string" where
  "interleave (w # ws) (x # xs) = w @ x @ interleave ws xs"
| "interleave ws xs = []"

lemma lex_all_lossless_rest:
  "\<forall>t \<in> set (lex_all lx). t_type t \<noteq> TOKEN_ERROR \<Longrightarrow>
   \<exists>ws. length ws = length (lex_all lx) \<and> (\<forall>w \<in> set ws. \<forall>c \<in> set w. is_whitespace c) \<and>
     rest lx = interleave ws (map token_get_text (lex_all lx))"
proof (induction lx rule: lex_all.induct)
  case (1 lx)
  obtain t lx' where t: "next_token_internal lx = (t, lx')" by force
  let ?w = "takeWhile is_whitespace (rest lx)"
  have w: "\<forall>c \<in> set ?w. is_whitespace c" by (auto dest: set_takeWhileD)
  show ?case
  proof (rule next_token_cases[of lx])
    assume "dropWhile is_whitespace (rest lx) = []"
      "next_token_internal lx = (make_token (skip_whitespace lx) TOKEN_EOF [], skip_whitespace lx)"
    then have "lex_all lx = [make_token (skip_whitespace lx) TOKEN_EOF []]" "rest lx = ?w"
      by (simp_all add: lex_all.simps[of lx] dropWhile_eq_Nil_conv takeWhile_eq_all_conv[THEN iffD2])
    with w show ?thesis by (intro exI[of _ "[?w]"]) (simp add: token_get_text_def)
  next
    assume sc: "scans (skip_whitespace lx) (next_token_internal lx)"
    then have ty: "t_type t \<noteq> TOKEN_EOF" by (simp add: scans_def t)
    moreover have ne: "t_type t \<noteq> TOKEN_ERROR"
      using "1.prems" t by (auto simp: lex_all.simps[of lx] split: if_splits)
    ultimately have l: "lex_all lx = t # lex_all lx'" by (simp add: lex_all.simps[of lx] t)
    obtain ws where ws: "length ws = length (lex_all lx')" "\<forall>w \<in> set ws. \<forall>c \<in> set w. is_whitespace c"
      "rest lx' = interleave ws (map token_get_text (lex_all lx'))"
      using "1.IH"[OF t[symmetric]] ty ne "1.prems" by (auto simp: l)
    have "rest (skip_whitespace lx) = token_get_text t @ rest lx'"
      using sc ne moves_text[of "skip_whitespace lx" lx'] by (simp add: scans_def t token_get_text_def)
    then have "rest lx = ?w @ token_get_text t @ rest lx'"
      by (metis rest_skip_whitespace takeWhile_dropWhile_id)
    with ws w show ?thesis by (intro exI[of _ "?w # ws"]) (simp add: l)
  qed
qed

section \<open>String and integer literals\<close>

definition sql_quote :: "string \<Rightarrow> string" where
  "sql_quote s = concat (map (\<lambda>c. if c = CHR 0x27 then [CHR 0x27, CHR 0x27] else [c]) s)"

lemma string_loop_quote:
  assumes "rest lx = sql_quote s @ CHR 0x27 # r" "NUL \<notin> set s" "r = [] \<or> hd r \<noteq> CHR 0x27"
  shows "\<exists>lx'. string_loop (CHR 0x27) content lx = (Some (content @ s), lx') \<and> rest lx' = r \<and> moves lx lx'"
  using assms
proof (induction s arbitrary: content lx)
  case Nil
  then have "peek_char lx \<noteq> CHR 0x27" "current_char lx = CHR 0x27" "l_pos lx < length (l_sql lx)"
    using rest_empty[of lx]
    by (auto simp: sql_quote_def peek_char_rest current_char_rest not_le[symmetric] split: list.splits)
  with Nil show ?case by (subst string_loop.simps) (auto simp: sql_quote_def)
next
  case (Cons c s)
  have pos: "l_pos lx < length (l_sql lx)"
    using Cons.prems(1) rest_empty[of lx] by (auto simp: sql_quote_def not_le[symmetric])
  show ?case
  proof (cases "c = CHR 0x27")
    case True
    let ?lx = "lex_advance (lex_advance lx)"
    have r: "rest lx = CHR 0x27 # CHR 0x27 # sql_quote s @ CHR 0x27 # r"
      using Cons.prems(1) True by (simp add: sql_quote_def)
    have "string_loop (CHR 0x27) content lx = string_loop (CHR 0x27) (content @ [CHR 0x27]) ?lx"
      using pos by (subst string_loop.simps) (simp add: current_char_rest peek_char_rest r)
    moreover obtain lx' where "string_loop (CHR 0x27) (content @ [CHR 0x27]) ?lx =
        (Some ((content @ [CHR 0x27]) @ s), lx')" "rest lx' = r" "moves ?lx lx'"
      using Cons.IH[of ?lx "content @ [CHR 0x27]"] Cons.prems(2,3) r by auto
    moreover have "moves lx ?lx" by (intro moves_intros)
    ultimately show ?thesis using True by (auto intro: moves_trans)
  next
    case False
    let ?lx = "lex_advance lx"
    have r: "rest lx = c # sql_quote s @ CHR 0x27 # r" "c \<noteq> NUL"
      using Cons.prems(1,2) False by (auto simp: sql_quote_def)
    have "string_loop (CHR 0x27) content lx = string_loop (CHR 0x27) (content @ [c]) ?lx"
      using pos False r(2) by (subst string_loop.simps) (simp add: current_char_rest r(1))
    moreover obtain lx' where "string_loop (CHR 0x27) (content @ [c]) ?lx =
        (Some ((content @ [c]) @ s), lx')" "rest lx' = r" "moves ?lx lx'"
      using Cons.IH[of ?lx "content @ [c]"] Cons.prems(2,3) r by auto
    ultimately show ?thesis by (auto intro: moves_trans[OF advance_moves])
  qed
qed

lemma next_token_quoted:
  assumes "rest lx = CHR 0x27 # sql_quote s @ CHR 0x27 # r" "NUL \<notin> set s" "r = [] \<or> hd r \<noteq> CHR 0x27"
  shows "\<exists>t lx'. next_token_internal lx = (t, lx') \<and> t_type t = TOKEN_STRING \<and>
    t_value t = StringValue s \<and> rest lx' = r"
proof -
  have ws: "skip_whitespace lx = lx"
    using assms(1)
    by (simp add: skip_whitespace_def advance_while.simps[of is_whitespace lx] current_char_rest is_whitespace_def)
  have c: "current_char lx = CHR 0x27" using assms(1) by (simp add: current_char_rest)
  obtain lx' where lx': "string_loop (CHR 0x27) [] (lex_advance lx) = (Some s, lx')" "rest lx' = r"
    using string_loop_quote[of "lex_advance lx" s r "[]"] assms by auto
  have "\<not> length (l_sql lx) \<le> l_pos lx" using assms(1) by (simp add: rest_empty)
  then show ?thesis
    by (simp add: next_token_internal_def Let_def ws c is_identifier_start_def is_alpha_def is_digit_def
        scan_string_def lx')
qed

section \<open>The keyword search\<close>

definition is_lower :: "char \<Rightarrow> bool" where
  "is_lower c \<longleftrightarrow> of_char c \<in> {97::nat..122}"

lemma to_lower_code: "of_char (to_lower c) =
    (if of_char c \<in> {65::nat..90} then of_char c + 32 else of_char c :: nat)"
  by (simp add: to_lower_def)

lemma to_lower_inj:
  assumes "\<not> is_lower c" "\<not> is_lower d" "of_char (to_lower c) = (of_char (to_lower d) :: nat)"
  shows "c = d"
proof -
  have "(of_char c :: nat) = of_char d"
    using assms by (auto simp: to_lower_code is_lower_def split: if_splits)
  then show ?thesis by simp
qed

lemma strncasecmp_0:
  "length s = length t \<Longrightarrow> strncasecmp s t (length s) = 0 \<Longrightarrow> \<forall>c \<in> set s. \<not> is_lower c \<Longrightarrow>
   \<forall>c \<in> set t. \<not> is_lower c \<Longrightarrow> s = t"
  by (induction s t rule: list_induct2) (auto simp: Let_def dest: to_lower_inj split: if_splits)

lemma keyword_cmp_0:
  assumes "keyword_cmp w kw = 0" "\<forall>c \<in> set w. \<not> is_lower c" "\<forall>c \<in> set kw. \<not> is_lower c"
  shows "w = kw"
proof -
  have "length w = length kw" using assms(1) by (auto simp: keyword_cmp_def Let_def split: if_splits)
  with assms show ?thesis by (intro strncasecmp_0) (simp_all add: keyword_cmp_def Let_def split: if_splits)
qed

lemma keyword_table_upper: "\<forall>(kw, ty) \<in> set keyword_table. \<forall>c \<in> set kw. \<not> is_lower c"
  by (simp add: keyword_table_def is_lower_def)

lemma keyword_table_nth:
  "keyword_table ! 0 = (''AND'', TOKEN_AND)"
  "keyword_table ! Suc 0 = (''AS'', TOKEN_AS)"
  "keyword_table ! 2 = (''ASC'', TOKEN_ASC)"
  "keyword_table ! 3 = (''AUTOINCREMENT'', TOKEN_AUTOINCREMENT)"
  "keyword_table ! 4 = (''BEGIN'', TOKEN_BEGIN)"
  "keyword_table ! 5 = (''BETWEEN'', TOKEN_BETWEEN)"
  "keyword_table ! 6 = (''BY'', TOKEN_BY)"
  "keyword_table ! 7 = (''COMMIT'', TOKEN_COMMIT)"
  "keyword_table ! 8 = (''CREATE'', TOKEN_CREATE)"
  "keyword_table ! 9 = (''DEFAULT'', TOKEN_DEFAULT)"
  "keyword_table ! 10 = (''DELETE'', TOKEN_DELETE)"
  "keyword_table ! 11 = (''DESC'', TOKEN_DESC)"
  "keyword_table ! 12 = (''DISTINCT'', TOKEN_DISTINCT)"
  "keyword_table ! 13 = (''DROP'', TOKEN_DROP)"
  "keyword_table ! 14 = (''EXISTS'', TOKEN_EXISTS)"
  "keyword_table ! 15 = (''FROM'', TOKEN_FROM)"
  "keyword_table ! 16 = (''IF'', TOKEN_IF)"
  "keyword_table ! 17 = (''IN'', TOKEN_IN)"
  "keyword_table ! 18 = (''INDEX'', TOKEN_INDEX)"
  "keyword_table ! 19 = (''INSERT'', TOKEN_INSERT)"
  "keyword_table ! 20 = (''INTO'', TOKEN_INTO)"
  "keyword_table ! 21 = (''IS'', TOKEN_IS)"
  "keyword_table ! 22 = (''KEY'', TOKEN_KEY)"
  "keyword_table ! 23 = (''LIKE'', TOKEN_LIKE)"
  "keyword_table ! 24 = (''LIMIT'', TOKEN_LIMIT)"
  "keyword_table ! 25 = (''NOT'', TOKEN_NOT)"
  "keyword_table ! 26 = (''NULL'', TOKEN_NULL)"
  "keyword_table ! 27 = (''OFFSET'', TOKEN_OFFSET)"
  "keyword_table ! 28 = (''ON'', TOKEN_ON)"
  "keyword_table ! 29 = (''OR'', TOKEN_OR)"
  "keyword_table ! 30 = (''ORDER'', TOKEN_ORDER)"
  "keyword_table ! 31 = (''PRIMARY'', TOKEN_PRIMARY)"
  "keyword_table ! 32 = (''REAL'', TOKEN_REAL_KW)"
  "keyword_table ! 33 = (''ROLLBACK'', TOKEN_ROLLBACK)"
  "keyword_table ! 34 = (''SELECT'', TOKEN_SELECT)"
  "keyword_table ! 35 = (''SET'', TOKEN_SET)"
  "keyword_table ! 36 = (''TABLE'', TOKEN_TABLE)"
  "keyword_table ! 37 = (''TEXT'', TOKEN_TEXT_KW)"
  "keyword_table ! 38 = (''TRANSACTION'', TOKEN_TRANSACTION)"
  "keyword_table ! 39 = (''UNIQUE'', TOKEN_UNIQUE)"
  "keyword_table ! 40 = (''UPDATE'', TOKEN_UPDATE)"
  "keyword_table ! 41 = (''VALUES'', TOKEN_VALUES)"
  "keyword_table ! 42 = (''WHERE'', TOKEN_WHERE)"
  "keyword_table ! 43 = (''INTEGER'', TOKEN_INTEGER_KW)"
  "keyword_table ! 44 = (''BLOB'', TOKEN_BLOB_KW)"
  by (simp_all add: keyword_table_def)

lemma length_keyword_table: "length keyword_table = 45"
  by (simp add: keyword_table_def)

lemma keyword_table_found:
  "list_all (\<lambda>(kw, ty). lookup_keyword kw =
     (if kw = ''INTEGER'' \<or> kw = ''BLOB'' then TOKEN_IDENTIFIER else ty)) keyword_table"
  by (subst keyword_table_def)
    (simp add: lookup_keyword_def kw_search.simps keyword_cmp_def keyword_table_nth
      length_keyword_table to_lower_def)

lemma lookup_keyword_other:
  assumes "\<forall>c \<in> set w. \<not> is_lower c" "w \<notin> fst ` set keyword_table"
  shows "lookup_keyword w = TOKEN_IDENTIFIER"
proof (rule ccontr)
  assume "lookup_keyword w \<noteq> TOKEN_IDENTIFIER"
  then obtain kw where kw: "(kw, lookup_keyword w) \<in> set keyword_table" "keyword_cmp w kw = 0"
    using kw_search_range[of w 0 "int (length keyword_table) - 1"]
    by (auto simp: lookup_keyword_def)
  with keyword_table_upper have "w = kw"
    using keyword_cmp_0[OF kw(2) assms(1)] by fastforce
  with kw(1) assms(2) show False by force
qed

lemma distinct_keywords: "distinct (map fst keyword_table)"
  by (simp add: keyword_table_def)

lemma lookup_keyword_eq:
  assumes "\<forall>c \<in> set w. \<not> is_lower c"
  shows "lookup_keyword w =
    (if w = ''INTEGER'' \<or> w = ''BLOB'' then TOKEN_IDENTIFIER
     else case map_of keyword_table w of Some ty \<Rightarrow> ty | None \<Rightarrow> TOKEN_IDENTIFIER)"
proof (cases "map_of keyword_table w")
  case None
  then have "w \<notin> fst ` set keyword_table" by (simp add: map_of_eq_None_iff)
  with lookup_keyword_other[OF assms] None show ?thesis by simp
next
  case (Some ty)
  with keyword_table_found show ?thesis
    by (fastforce simp: list_all_iff dest: map_of_SomeD)
qed

section \<open>What the lexer guarantees\<close>

definition demo_lexer :: "string \<Rightarrow> Lexer" where
  "demo_lexer sql = the (lexer_create sql)"

lemma rest_demo: "sql \<noteq> [] \<Longrightarrow> rest (demo_lexer sql) = sql"
  by (simp add: demo_lexer_def lexer_create_def rest_def)

text \<open>
  C19: Tokenising terminates and loses nothing: if no token of a statement is an error, the
  statement is exactly its tokens' texts, in order, separated by white space only.
\<close>

theorem lexer_lossless:
  assumes "lexer_create sql = Some lx" "\<forall>t \<in> set (lex_all lx). t_type t \<noteq> TOKEN_ERROR"
  shows "\<exists>ws. length ws = length (lex_all lx) \<and> (\<forall>w \<in> set ws. \<forall>c \<in> set w. is_whitespace c) \<and>
    sql = interleave ws (map token_get_text (lex_all lx))"
proof -
  have "rest lx = sql" using assms(1) by (auto simp: lexer_create_def rest_def split: if_splits)
  with lex_all_lossless_rest[OF assms(2)] show ?thesis by simp
qed

lemma lex_all_stop: "lex_all (demo_lexer '';'') = [make_token (lex_advance (demo_lexer '';'')) TOKEN_SEMICOLON '';'',
    make_token (lex_advance (demo_lexer '';'')) TOKEN_EOF []]"
proof -
  let ?a = "demo_lexer '';''" and ?b = "lex_advance (demo_lexer '';'')"
  have w: "skip_whitespace ?a = ?a" "skip_whitespace ?b = ?b"
    by (simp_all add: skip_whitespace_def advance_while.simps current_char_rest rest_demo is_whitespace_def)
  have e: "length (l_sql ?a) > l_pos ?a" "length (l_sql ?b) \<le> l_pos ?b"
    using rest_empty[of ?a] rest_empty[of ?b] by (simp_all add: rest_demo)
  have "next_token_internal ?a = (make_token ?b TOKEN_SEMICOLON '';'', ?b)"
    using e(1) by (simp add: next_token_internal_def Let_def w current_char_rest rest_demo
        is_identifier_start_def is_alpha_def is_digit_def scan_operator_def single_char_tokens_def)
  moreover have "next_token_internal ?b = (make_token ?b TOKEN_EOF [], ?b)"
    using e(2) by (simp add: next_token_internal_def Let_def w)
  ultimately show ?thesis by (simp add: lex_all.simps[of ?a] lex_all.simps[of ?b])
qed

lemma demo_create: "sql \<noteq> [] \<Longrightarrow> lexer_create sql = Some (demo_lexer sql)"
  by (simp add: demo_lexer_def lexer_create_def)

theorem lexer_lossless_witness:
  "\<exists>ws. length ws = 2 \<and> '';'' = interleave ws (map token_get_text (lex_all (demo_lexer '';'')))"
  using lexer_lossless[of "'';''" "demo_lexer '';''"] by (simp add: lex_all_stop demo_create numeral_2_eq_2) blast

text \<open>
  The binary search over the keyword table recognises exactly the table's keywords, except
  \<^verbatim>\<open>INTEGER\<close> and \<^verbatim>\<open>BLOB\<close>: these stand out of order at the end of the table and are always
  taken for identifiers.
\<close>

theorem lookup_keyword_spec:
  assumes "\<forall>c \<in> set w. \<not> is_lower c"
  shows "lookup_keyword w =
    (if w = ''INTEGER'' \<or> w = ''BLOB'' then TOKEN_IDENTIFIER
     else case map_of keyword_table w of Some ty \<Rightarrow> ty | None \<Rightarrow> TOKEN_IDENTIFIER)"
  by (rule lookup_keyword_eq[OF assms])

theorem lookup_keyword_spec_witness:
  "lookup_keyword ''INTEGER'' = TOKEN_IDENTIFIER \<and> lookup_keyword ''SELECT'' = TOKEN_SELECT \<and>
   lookup_keyword ''USERS'' = TOKEN_IDENTIFIER"
  using lookup_keyword_spec[of "''INTEGER''"] lookup_keyword_spec[of "''SELECT''"]
    lookup_keyword_spec[of "''USERS''"]
  by (simp add: is_lower_def keyword_table_def)

text \<open>
  A decimal integer below \<open>2 ^ 63\<close> that is followed by something that cannot continue a
  number is scanned as one integer token with its value.
\<close>

theorem lex_integer_roundtrip:
  assumes "rest lx = dec_digits n @ r" "n < 2 ^ 63"
    "r = [] \<or> \<not> is_alphanumeric (hd r) \<and> hd r \<noteq> CHR ''.''"
  shows "\<exists>t lx'. next_token_internal lx = (t, lx') \<and> t_type t = TOKEN_INTEGER \<and>
    t_value t = IntegerValue (word_of_nat n) \<and> rest lx' = r"
proof -
  obtain c ds where cd: "dec_digits n = c # ds" by (cases "dec_digits n") auto
  then have dig: "is_digit c" "\<forall>d \<in> set (dec_digits n). is_digit d"
    using dec_digits_digit[of _ n] by auto
  have r1: "r = [] \<or> \<not> is_digit (hd r)" "current_char lx = c" "\<not> length (l_sql lx) \<le> l_pos lx"
    using assms cd by (auto simp: is_alphanumeric_def current_char_rest rest_empty)
  have ws: "skip_whitespace lx = lx"
    using dig(1) r1(2)
    by (auto simp: skip_whitespace_def advance_while.simps[of is_whitespace lx] is_whitespace_def is_digit_def)
  let ?a = "advance_while is_digit lx"
  have dw: "dropWhile is_digit r = r" using r1(1) by (cases r) auto
  then have ra: "rest ?a = r"
    using dig(2) by (simp add: assms(1) dropWhile_append2)
  have ta: "text_from (l_pos lx) ?a = dec_digits n"
    using moves_text[of lx ?a] assms(1) by (simp add: dw dig(2))
  have "current_char ?a \<notin> {CHR ''.'', CHR ''e'', CHR ''E''}"
    unfolding current_char_rest ra
    using assms(3) by (cases r) (auto simp: is_alphanumeric_def is_alpha_def)
  then have fr: "scan_fraction ?a = (False, ?a)" "scan_exponent ?a = (False, ?a)"
    by (auto simp: scan_fraction_def scan_exponent_def)
  have hex: "peek_char lx \<noteq> CHR ''x''" "peek_char lx \<noteq> CHR ''X''"
  proof -
    have "\<not> is_alpha (peek_char lx)"
      using assms(1,3) cd dig(2)
      by (cases ds; cases r) (auto simp: peek_char_rest is_alphanumeric_def is_alpha_def is_digit_def)
    then show "peek_char lx \<noteq> CHR ''x''" "peek_char lx \<noteq> CHR ''X''" by (auto simp: is_alpha_def)
  qed
  have "scan_number lx = ((make_token (?a\<lparr>l_column := l_column lx\<rparr>) TOKEN_INTEGER (dec_digits n))
      \<lparr>t_value := IntegerValue (atoll (dec_digits n))\<rparr>, ?a\<lparr>l_column := l_column lx\<rparr>)"
    using hex by (simp add: scan_number_def Let_def fr ta)
  with dig(1) ra show ?thesis
    by (auto simp: next_token_internal_def Let_def ws r1(2,3) is_identifier_start_def is_alpha_def
        is_digit_def atoll_digits[OF assms(2)])
qed

theorem lex_integer_roundtrip_witness:
  "\<exists>t lx'. next_token_internal (demo_lexer (dec_digits 42 @ '';'')) = (t, lx') \<and>
     t_type t = TOKEN_INTEGER \<and> t_value t = IntegerValue (word_of_nat 42) \<and> rest lx' = '';''"
  by (rule lex_integer_roundtrip) (simp_all add: rest_demo is_alphanumeric_def is_alpha_def is_digit_def)

text \<open>
  C14: Writing a string between single quotes, with every single quote doubled, and scanning the
  result gives the string back, for every string without the zero character.
\<close>

theorem lex_string_roundtrip:
  assumes "rest lx = CHR 0x27 # sql_quote s @ CHR 0x27 # r" "NUL \<notin> set s"
    "r = [] \<or> hd r \<noteq> CHR 0x27"
  shows "\<exists>t lx'. next_token_internal lx = (t, lx') \<and> t_type t = TOKEN_STRING \<and>
    t_value t = StringValue s \<and> rest lx' = r"
  by (rule next_token_quoted[OF assms])

theorem lex_string_roundtrip_witness:
  "\<exists>t lx'. next_token_internal (demo_lexer (CHR 0x27 # sql_quote (''it'' @ [CHR 0x27] @ ''s'') @ CHR 0x27 # '';'')) = (t, lx') \<and>
     t_type t = TOKEN_STRING \<and> t_value t = StringValue (''it'' @ [CHR 0x27] @ ''s'') \<and> rest lx' = '';''"
  by (rule lex_string_roundtrip) (simp_all add: rest_demo)

end
