(* ===== verification/Security.thy ===== *)
theory Security
  imports Lexer
begin

text \<open>
  Input checks, SQL escaping and limits, \<^verbatim>\<open>src/security/security.c\<close>.  A pointer with a length is
  the list of characters from the pointer on, and \<open>input_bytes\<close> the part the functions look at: a
  length of zero stands for the text up to its terminating zero.  A path or other C string is the list
  of its characters without the terminator.  Setting permissions is a pair of system calls and is
  not modelled.
\<close>

section \<open>Input validation\<close>

definition input_bytes :: "string \<Rightarrow> nat \<Rightarrow> string" where
  "input_bytes data len = (if len = 0 then takeWhile (\<lambda>c. c \<noteq> NUL) data else take len data)"

fun check_loop :: "string \<Rightarrow> bool" where
  "check_loop [] = True"
| "check_loop (c # s) =
     (let n = of_char c :: nat in
      if n = 0 then False
      else if n < 32 \<and> n \<noteq> 10 \<and> n \<noteq> 9 \<and> n \<noteq> 13 then False
      else if n = 127 then False
      else check_loop s)"

definition security_check_input :: "string \<Rightarrow> nat \<Rightarrow> bool" where
  "security_check_input data len = check_loop (input_bytes data len)"

definition security_validate_string :: "string \<Rightarrow> nat \<Rightarrow> bool" where
  "security_validate_string str max_len =
     (if max_len < length str then False else security_check_input str (length str))"

text \<open>A \<^verbatim>\<open>..\<close> that is followed by a slash or by the end of the path.\<close>

fun parent_reference :: "string \<Rightarrow> bool" where
  "parent_reference [] = False"
| "parent_reference (c # s) =
     ((c = CHR ''.'' \<and> s \<noteq> [] \<and> hd s = CHR ''.'' \<and> (tl s = [] \<or> hd (tl s) = CHR ''/'')) \<or>
      parent_reference s)"

definition security_validate_path :: "string \<Rightarrow> bool" where
  "security_validate_path path =
     (if path = [] then False
      else if hd path \<noteq> CHR ''/'' then False
      else if parent_reference path then False
      else if 4096 < length path then False
      else True)"

section \<open>Escaping\<close>

fun escape_loop :: "string \<Rightarrow> string" where
  "escape_loop [] = []"
| "escape_loop (c # s) =
     (if c = CHR 0x27 then CHR 0x27 # CHR 0x27 # escape_loop s else c # escape_loop s)"

definition security_escape_string :: "string \<Rightarrow> nat \<Rightarrow> string" where
  "security_escape_string input input_len = escape_loop (input_bytes input input_len)"

section \<open>Limits\<close>

record ConnectionLimits =
  max_connections :: int
  max_concurrent_queries :: int
  query_timeout_seconds :: int

definition security_set_default_limits :: ConnectionLimits where
  "security_set_default_limits =
     \<lparr>max_connections = 64, max_concurrent_queries = 4, query_timeout_seconds = 300\<rparr>"

definition security_check_connection_limit :: "ConnectionLimits option \<Rightarrow> int \<Rightarrow> bool" where
  "security_check_connection_limit limits current_count =
     (case limits of None \<Rightarrow> True | Some l \<Rightarrow> current_count < max_connections l)"

definition security_check_query_timeout :: "ConnectionLimits option \<Rightarrow> int \<Rightarrow> bool" where
  "security_check_query_timeout limits elapsed_seconds =
     (case limits of None \<Rightarrow> True | Some l \<Rightarrow> elapsed_seconds < query_timeout_seconds l)"

section \<open>Suspicious statements\<close>

definition TINYDB_MAX_SQL_STATEMENT_LENGTH :: nat where
  "TINYDB_MAX_SQL_STATEMENT_LENGTH = 1024 * 1024"

definition isspace :: "char \<Rightarrow> bool" where
  "isspace c \<longleftrightarrow> c = CHR '' '' \<or> of_char c \<in> {9::nat..13}"

definition suspicious_keywords :: "string list" where
  "suspicious_keywords =
     [''union'', ''select'', ''insert'', ''update'', ''delete'', ''drop'', ''create'', ''alter'',
      ''exec'', ''execute'', ''script'', ''javascript'', ''onerror'', ''onload'']"

text \<open>A semicolon followed, after white space, by a letter.\<close>

fun second_statement :: "string \<Rightarrow> bool" where
  "second_statement [] = False"
| "second_statement (c # s) =
     ((c = CHR '';'' \<and> (let r = dropWhile isspace s in r \<noteq> [] \<and> is_alpha (hd r))) \<or> second_statement s)"

definition keyword_here :: "string \<Rightarrow> nat \<Rightarrow> string \<Rightarrow> bool" where
  "keyword_here sql i kw \<longleftrightarrow>
     i + length kw \<le> length sql \<and> map to_lower (get_at i (length kw) sql) = kw \<and>
     (i = 0 \<or> \<not> is_alphanumeric (sql ! (i - 1))) \<and>
     (length sql \<le> i + length kw \<or> \<not> is_alphanumeric (sql ! (i + length kw)))"

text \<open>
  The last loop runs while \<^verbatim>\<open>i < len - 2\<close> in unsigned arithmetic.  For a single character the bound
  wraps around; \<^verbatim>\<open>i\<close> then grows until \<^verbatim>\<open>i + kw_len\<close> wraps too and the text is read far outside the
  buffer.
\<close>

definition security_check_sql_suspicious :: "string \<Rightarrow> bool comp" where
  "security_check_sql_suspicious sql =
     (let len = length sql in
      if len = 0 then ret False
      else if TINYDB_MAX_SQL_STATEMENT_LENGTH < len then ret False
      else if 2 \<le> len \<and> sql ! 0 = CHR ''-'' \<and> sql ! 1 = CHR ''-'' then ret True
      else if second_statement sql then ret True
      else if len = 1 then undef
      else ret (list_ex (\<lambda>i. list_ex (keyword_here sql i) suspicious_keywords) [0..<len - 2]))"

section \<open>Properties\<close>

lemma check_loop_iff:
  "check_loop s \<longleftrightarrow> (\<forall>c \<in> set s. let n = of_char c :: nat in n \<noteq> 0 \<and> n \<noteq> 127 \<and> (32 \<le> n \<or> n \<in> {9, 10, 13}))"
  by (induction s) (auto simp: Let_def)

text \<open>The components of a path.\<close>

fun path_components :: "string \<Rightarrow> string list" where
  "path_components [] = [[]]"
| "path_components (c # s) =
     (if c = CHR ''/'' then [] # path_components s
      else (c # hd (path_components s)) # tl (path_components s))"

lemma path_components_nonempty: "path_components s \<noteq> []"
  by (cases s) simp_all

lemma hd_component:
  "hd (path_components s) = takeWhile (\<lambda>c. c \<noteq> CHR ''/'') s"
  by (induction s) auto

lemma parent_component: "''..'' \<in> set (path_components s) \<Longrightarrow> parent_reference s"
proof (induction s)
  case (Cons c s)
  show ?case
  proof (cases "''..'' \<in> set (path_components s)")
    case True
    with Cons.IH show ?thesis by simp
  next
    case False
    then have "c \<noteq> CHR ''/''" using Cons.prems by (auto split: if_splits)
    moreover have "''..'' \<notin> set (tl (path_components s))" using False by (meson list.set_sel(2) path_components_nonempty)
    ultimately have d: "c # takeWhile (\<lambda>c. c \<noteq> CHR ''/'') s = ''..''"
      using Cons.prems unfolding hd_component[symmetric] by auto
    then obtain r where "s = CHR ''.'' # r" by (cases s) (auto split: if_splits)
    moreover from this d have "r = [] \<or> hd r = CHR ''/''" by (cases r) (auto split: if_splits)
    ultimately show ?thesis using d by simp
  qed
qed simp

text \<open>C16: A path that passes validation is absolute, at most 4096 characters long, and none of its
  components is \<^verbatim>\<open>..\<close>, so it cannot leave the directories it names.\<close>

theorem validate_path_safe:
  assumes "security_validate_path path"
  shows "hd (path_components path) = [] \<and> ''..'' \<notin> set (path_components path) \<and> length path \<le> 4096"
  using assms parent_component[of path]
  by (auto simp: security_validate_path_def hd_component split: if_splits) (cases path; simp)

theorem validate_path_safe_witness:
  "security_validate_path ''/run/a..b/x'' \<and> ''..'' \<notin> set (path_components ''/run/a..b/x'')"
proof -
  have "security_validate_path ''/run/a..b/x''" by (simp add: security_validate_path_def)
  from this validate_path_safe[OF this, THEN conjunct2, THEN conjunct1] show ?thesis by (rule conjI)
qed

lemma escape_loop_quote: "escape_loop s = sql_quote s"
  by (induction s) (auto simp: sql_quote_def)

text \<open>A string passes \<^verbatim>\<open>security_validate_string\<close> exactly when it is not too long and consists of
  printable characters, tabs, line feeds and carriage returns.\<close>

theorem validate_string_iff:
  "security_validate_string str max_len \<longleftrightarrow> length str \<le> max_len \<and>
     (\<forall>c \<in> set str. of_char c \<noteq> (0::nat) \<and> of_char c \<noteq> (127::nat) \<and>
        (32 \<le> (of_char c :: nat) \<or> c \<in> {CHR 0x09, CHR 0x0A, CHR 0x0D}))"
proof -
  have b: "input_bytes str (length str) = str" by (cases str) (simp_all add: input_bytes_def)
  have "(of_char c = (9::nat)) = (c = CHR 0x09)" "(of_char c = (10::nat)) = (c = CHR 0x0A)"
    "(of_char c = (13::nat)) = (c = CHR 0x0D)" for c :: char
    using of_char_eq_iff[of c "CHR 0x09"] of_char_eq_iff[of c "CHR 0x0A"] of_char_eq_iff[of c "CHR 0x0D"]
    by simp_all
  then show ?thesis
    by (auto simp: security_validate_string_def security_check_input_def b check_loop_iff Let_def not_less)
qed

theorem validate_string_iff_witness: "security_validate_string ''ab'' 4 \<and> \<not> security_validate_string [CHR 0x07] 4"
  using validate_string_iff[of "''ab''" 4] validate_string_iff[of "[CHR 0x07]" 4] by simp

text \<open>On a statement of a single character the search for keywords leaves the buffer, whatever the
  character is.\<close>

theorem suspicious_single_char: "security_check_sql_suspicious [c] = undef"
  by (simp add: security_check_sql_suspicious_def TINYDB_MAX_SQL_STATEMENT_LENGTH_def)

end
