(* ===== verification/Protocol.thy ===== *)
theory Protocol
  imports Prelude
begin

text \<open>
  The wire protocol, \<^verbatim>\<open>src/server/protocol.c\<close>: a connection buffer from which requests are cut line by
  line, response headers, and the escaping of field values.  What \<^verbatim>\<open>read\<close> delivers is an argument:
  \<open>None\<close> for an error, \<open>Some []\<close> at the end of the stream, and otherwise the bytes stored at the end
  of the buffer, at most as many as were asked for.  \<^verbatim>\<open>write\<close> is an argument as well: how many of the
  bytes it accepts.
\<close>

section \<open>Buffers\<close>

definition PROTOCOL_BUFFER_SIZE :: nat where
  "PROTOCOL_BUFFER_SIZE = 8192"

record ProtocolBuffer =
  pb_fd :: int
  pb_buffer :: "bytes option"
  pb_buffer_size :: nat
  pb_buffer_pos :: nat
  pb_data_len :: nat

text \<open>\<^verbatim>\<open>protocol_init\<close>: the contents of the allocated buffer, \<open>mem\<close>, are what \<^verbatim>\<open>malloc\<close> left there.\<close>

definition protocol_init :: "bytes \<Rightarrow> int \<Rightarrow> ProtocolBuffer option" where
  "protocol_init mem fd =
     (if fd < 0 then None
      else Some \<lparr>pb_fd = fd, pb_buffer = Some mem, pb_buffer_size = PROTOCOL_BUFFER_SIZE,
                 pb_buffer_pos = 0, pb_data_len = 0\<rparr>)"

definition protocol_close :: "ProtocolBuffer \<Rightarrow> ProtocolBuffer" where
  "protocol_close p = p\<lparr>pb_fd := (if 0 \<le> pb_fd p then - 1 else pb_fd p), pb_buffer := None\<rparr>"

text \<open>\<^verbatim>\<open>strchr\<close>: the first occurrence before the terminating zero.\<close>

fun strchr :: "byte \<Rightarrow> bytes \<Rightarrow> nat option" where
  "strchr c [] = None"
| "strchr c (x # xs) =
     (if x = c then Some 0 else if x = 0 then None else map_option Suc (strchr c xs))"

text \<open>
  \<^verbatim>\<open>protocol_read_request\<close>: the result code, the line stored in \<^verbatim>\<open>sql_buf\<close> without its terminator, and
  the buffer.  The number of bytes to move is computed from the shortened length of the line, so
  for a line that does not fit the copied region may reach behind the data and behind the buffer.
\<close>

definition protocol_read_request ::
    "bytes option \<Rightarrow> nat \<Rightarrow> ProtocolBuffer \<Rightarrow> (int \<times> bytes option \<times> ProtocolBuffer) comp" where
  "protocol_read_request rd buf_size p =
     (if buf_size = 0 then ret (- 1, None, p)
      else case (pb_buffer p, rd) of
        (None, _) \<Rightarrow> undef
      | (_, None) \<Rightarrow> ret (- 1, None, p)
      | (Some buf, Some n) \<Rightarrow>
          if n = [] then ret (0, None, p)
          else
            let data_len = pb_data_len p + length n;
                buf = put_at (pb_data_len p) (n @ [0]) buf;
                p = p\<lparr>pb_data_len := data_len, pb_buffer := Some buf\<rparr>
            in
            (case strchr 10 buf of
               Some newline \<Rightarrow>
                 let line_len = (if buf_size \<le> newline then buf_size - 1 else newline);
                     remaining = data_len - line_len - 1 in
                 if length buf < newline + 1 + remaining then undef
                 else ret (1, Some (take line_len buf),
                           p\<lparr>pb_buffer := Some (put_at 0 (get_at (newline + 1) remaining buf) buf),
                             pb_data_len := remaining\<rparr>)
             | None \<Rightarrow>
                 if pb_buffer_size p - 1 \<le> data_len then ret (- 1, None, p\<lparr>pb_data_len := 0\<rparr>)
                 else ret (- 1, None, p)))"

section \<open>Responses\<close>

definition RESPONSE_ERROR :: u8 where
  "RESPONSE_ERROR = 3"

definition RESPONSE_ROWS :: u8 where
  "RESPONSE_ROWS = 2"

record ResponseHeader =
  rh_type :: u8
  rh_flags :: u8
  rh_column_count :: u16
  rh_row_count :: u32
  rh_changes :: u32

definition response_bytes :: "ResponseHeader \<Rightarrow> bytes" where
  "response_bytes h =
     [rh_type h, rh_flags h] @ le_bytes 2 (rh_column_count h) @ le_bytes 4 (rh_row_count h) @
     le_bytes 4 (rh_changes h)"

text \<open>
  \<open>send accept\<close> writes one block: \<open>accept n\<close> is how many of \<open>n\<close> bytes \<^verbatim>\<open>write\<close> takes, negative
  on failure.  The bytes on the wire are the second component.
\<close>

definition send :: "(nat \<Rightarrow> int) \<Rightarrow> bytes \<Rightarrow> bool \<times> bytes" where
  "send accept bs = (accept (length bs) = int (length bs), take (nat (accept (length bs))) bs)"

definition protocol_write_response :: "(nat \<Rightarrow> int) \<Rightarrow> u8 \<Rightarrow> u32 \<Rightarrow> int \<times> bytes" where
  "protocol_write_response accept ty changes =
     (let (ok, out) = send accept (response_bytes \<lparr>rh_type = ty, rh_flags = 0, rh_column_count = 0,
                                                   rh_row_count = 0, rh_changes = changes\<rparr>)
      in (if ok then 0 else - 1, out))"

definition protocol_write_rows :: "(nat \<Rightarrow> int) \<Rightarrow> u16 \<Rightarrow> u32 \<Rightarrow> int \<times> bytes" where
  "protocol_write_rows accept column_count row_count =
     (let (ok, out) = send accept (response_bytes \<lparr>rh_type = RESPONSE_ROWS, rh_flags = 0,
                                   rh_column_count = column_count, rh_row_count = row_count, rh_changes = 0\<rparr>)
      in (if ok then 0 else - 1, out))"

text \<open>\<^verbatim>\<open>protocol_write_error\<close>: a header, the length of the message in 16 bits, and that many bytes of it.\<close>

definition protocol_write_error :: "(nat \<Rightarrow> int) \<Rightarrow> u32 \<Rightarrow> bytes \<Rightarrow> int \<times> bytes" where
  "protocol_write_error accept error_code message =
     (let (ok1, out1) = send accept (response_bytes \<lparr>rh_type = RESPONSE_ERROR, rh_flags = 1,
                                       rh_column_count = 0, rh_row_count = 0, rh_changes = error_code\<rparr>)
      in if \<not> ok1 then (- 1, out1)
         else
           let msg_len = word_of_nat (length message) :: u16;
               (ok2, out2) = send accept (le_bytes 2 msg_len) in
           if \<not> ok2 then (- 1, out1 @ out2)
           else
             let (ok3, out3) = send accept (take (unat msg_len) message) in
             (if ok3 then 0 else - 1, out1 @ out2 @ out3))"

section \<open>Escaping\<close>

text \<open>
  Source texts are given without their terminator and contain no zero byte.  The loops stop when the
  destination of \<open>dst_size\<close> bytes is full; the result is the text stored before the terminator.
\<close>

definition escape_byte :: "byte \<Rightarrow> bytes" where
  "escape_byte c =
     (if c = 9 then [92, 116] else if c = 10 then [92, 110] else if c = 92 then [92, 92]
      else if c = 0 then [92, 48] else [c])"

fun escape_from :: "nat \<Rightarrow> nat \<Rightarrow> bytes \<Rightarrow> bytes" where
  "escape_from dst_size j [] = []"
| "escape_from dst_size j (c # src) =
     (if c = 0 \<or> \<not> j + 2 < dst_size then []
      else escape_byte c @ escape_from dst_size (j + length (escape_byte c)) src)"

definition protocol_escape_string :: "bytes \<Rightarrow> nat \<Rightarrow> nat \<times> bytes option" where
  "protocol_escape_string src dst_size =
     (if dst_size = 0 then (0, None)
      else let out = escape_from dst_size 0 src in (length out, Some out))"

definition unescape_byte :: "byte \<Rightarrow> byte" where
  "unescape_byte c = (if c = 116 then 9 else if c = 110 then 10 else if c = 92 then 92 else if c = 48 then 0 else c)"

fun unescape_from :: "nat \<Rightarrow> nat \<Rightarrow> bytes \<Rightarrow> bytes" where
  "unescape_from dst_size j [] = []"
| "unescape_from dst_size j (c # src) =
     (if c = 0 \<or> \<not> j < dst_size - 1 then []
      else case src of
        d # rest \<Rightarrow>
          if c = 92 \<and> d \<noteq> 0 then unescape_byte d # unescape_from dst_size (Suc j) rest
          else c # unescape_from dst_size (Suc j) src
      | [] \<Rightarrow> c # unescape_from dst_size (Suc j) src)"

definition protocol_unescape_string :: "bytes \<Rightarrow> nat \<Rightarrow> nat \<times> bytes option" where
  "protocol_unescape_string src dst_size =
     (if dst_size = 0 then (0, None)
      else let out = unescape_from dst_size 0 src in (length out, Some out))"

section \<open>Escaping can be undone\<close>

lemma escape_byte_length: "length (escape_byte c) \<in> {1, 2}"
  by (simp add: escape_byte_def)

lemma escape_from_all:
  assumes "0 \<notin> set src" "j + 2 * length src + 2 \<le> n"
  shows "escape_from n j src = concat (map escape_byte src)"
  using assms
proof (induction src arbitrary: j)
  case (Cons c src)
  then show ?case using escape_byte_length[of c] by auto
qed simp

lemma unescape_escape_byte:
  assumes "c \<noteq> 0" "j < n - 1"
  shows "unescape_from n j (escape_byte c @ r) = c # unescape_from n (Suc j) r"
  using assms by (cases r) (auto simp: escape_byte_def unescape_byte_def)

lemma unescape_escaped:
  "0 \<notin> set src \<Longrightarrow> j + length src < n \<Longrightarrow> unescape_from n j (concat (map escape_byte src)) = src"
proof (induction src arbitrary: j)
  case (Cons c src)
  then show ?case by (simp add: unescape_escape_byte del: unescape_from.simps(2))
qed simp

text \<open>C15: A field value without zero bytes survives the wire: escaped into a destination of at least
  twice its length plus two, and unescaped into one of at least its length plus one, it comes back.\<close>

theorem protocol_escape_roundtrip:
  assumes "0 \<notin> set src" "2 * length src + 2 \<le> n" "length src < k"
  shows "\<exists>esc. protocol_escape_string src n = (length esc, Some esc) \<and>
    protocol_unescape_string esc k = (length src, Some src) \<and> 9 \<notin> set esc \<and> 10 \<notin> set esc"
proof -
  let ?esc = "concat (map escape_byte src)"
  have "9 \<notin> set ?esc" "10 \<notin> set ?esc" by (auto simp: escape_byte_def split: if_splits)
  moreover have "protocol_escape_string src n = (length ?esc, Some ?esc)"
    using assms(1,2) by (simp add: protocol_escape_string_def escape_from_all Let_def)
  moreover have "protocol_unescape_string ?esc k = (length src, Some src)"
    using assms(1,3) by (simp add: protocol_unescape_string_def unescape_escaped Let_def)
  ultimately show ?thesis by blast
qed

theorem protocol_escape_roundtrip_witness:
  "\<exists>esc. protocol_escape_string [97, 9, 92, 110] 16 = (length esc, Some esc) \<and>
    protocol_unescape_string esc 8 = (length [97, 9, 92, 110 :: byte], Some [97, 9, 92, 110]) \<and>
    9 \<notin> set esc \<and> 10 \<notin> set esc"
  by (rule protocol_escape_roundtrip) simp_all

section \<open>Requests are cut at line ends\<close>

text \<open>The state of an open connection buffer and the bytes waiting in it.\<close>

definition pb_open :: "ProtocolBuffer \<Rightarrow> bool" where
  "pb_open p \<longleftrightarrow> (\<exists>buf. pb_buffer p = Some buf \<and> length buf = pb_buffer_size p) \<and>
     pb_data_len p < pb_buffer_size p"

definition pending :: "ProtocolBuffer \<Rightarrow> bytes" where
  "pending p = take (pb_data_len p) (the (pb_buffer p))"

lemma strchr_terminated:
  "0 \<notin> set xs \<Longrightarrow> c \<noteq> 0 \<Longrightarrow>
   strchr c (xs @ 0 # ys) = (if c \<in> set xs then Some (length (takeWhile (\<lambda>x. x \<noteq> c) xs)) else None)"
  by (induction xs) auto

lemma stored_data:
  assumes "pb_buffer p = Some buf" "length buf = k" "pb_data_len p + length n < k"
  shows "put_at (pb_data_len p) (n @ [0]) buf =
    (pending p @ n) @ 0 # drop (Suc (pb_data_len p + length n)) buf"
  using assms by (simp add: put_at_within pending_def)

lemma takeWhile_first: "c \<notin> set l \<Longrightarrow> takeWhile (\<lambda>x. x \<noteq> c) (l @ c # r) = l"
  by (induction l) auto

lemma received:
  assumes "pb_open p" "pb_data_len p + length n < pb_buffer_size p" "0 \<notin> set (pending p @ n)"
  obtains buf buf' where "pb_buffer p = Some buf" "put_at (pb_data_len p) (n @ [0]) buf = buf'"
    "length buf' = pb_buffer_size p" "take (pb_data_len p + length n) buf' = pending p @ n"
    "strchr 10 buf' = (if 10 \<in> set (pending p @ n)
       then Some (length (takeWhile (\<lambda>x. x \<noteq> 10) (pending p @ n))) else None)"
proof -
  obtain buf where buf: "pb_buffer p = Some buf" "length buf = pb_buffer_size p"
    using assms(1) by (auto simp: pb_open_def)
  have len: "length (pending p @ n) = pb_data_len p + length n"
    using assms(2) buf by (simp add: pending_def)
  show ?thesis
    using that[OF buf(1) refl] stored_data[OF buf assms(2)] strchr_terminated[OF assms(3)] len buf assms(2)
    by simp
qed

lemma line_received:
  assumes "pb_open p" "n \<noteq> []" "pb_data_len p + length n < pb_buffer_size p" "0 \<notin> set (pending p @ n)"
    "0 < buf_size" "pending p @ n = l @ 10 # r" "10 \<notin> set l"
  obtains buf where "length buf = pb_buffer_size p" "take (length (l @ 10 # r)) buf = l @ 10 # r"
    "protocol_read_request (Some n) buf_size p =
      (let line_len = (if buf_size \<le> length l then buf_size - 1 else length l);
           remaining = length (l @ 10 # r) - line_len - 1 in
       if length buf < length l + 1 + remaining then undef
       else ret (1, Some (take line_len buf),
              p\<lparr>pb_buffer := Some (put_at 0 (get_at (length l + 1) remaining buf) buf), pb_data_len := remaining\<rparr>))"
proof -
  obtain b buf where b: "pb_buffer p = Some b" "put_at (pb_data_len p) (n @ [0]) b = buf"
    "length buf = pb_buffer_size p" "take (pb_data_len p + length n) buf = l @ 10 # r"
    "strchr 10 buf = Some (length l)"
    using received[OF assms(1,3,4)] assms(6,7) by (auto simp: takeWhile_first)
  have "length (l @ 10 # r) = pb_data_len p + length n"
    using b assms(3) by (metis length_take min.absorb2 order.strict_implies_order)
  with b assms(2,5) show ?thesis
    by (intro that[of buf]) (simp_all add: protocol_read_request_def Let_def)
qed

text \<open>C26: Reading requests loses and invents nothing: when the bytes waiting together with those just
  received contain a line end, and the line fits the caller's buffer, the line is delivered and
  exactly what follows the line end stays waiting; without a line end everything stays waiting until
  the buffer is full.\<close>

theorem read_request_lines:
  assumes "pb_open p" "n \<noteq> []" "pb_data_len p + length n < pb_buffer_size p" "0 \<notin> set (pending p @ n)"
    "0 < buf_size" "length (takeWhile (\<lambda>x. x \<noteq> 10) (pending p @ n)) < buf_size"
  shows "\<exists>r line p'. protocol_read_request (Some n) buf_size p = ret (r, line, p') \<and> pb_open p' \<and>
    (if 10 \<in> set (pending p @ n)
     then r = 1 \<and> line = Some (takeWhile (\<lambda>x. x \<noteq> 10) (pending p @ n)) \<and>
       pending p @ n = the line @ 10 # pending p'
     else r = - 1 \<and> line = None \<and>
       (if pb_data_len p + length n = pb_buffer_size p - 1 then pending p' = [] else pending p' = pending p @ n))"
proof (cases "10 \<in> set (pending p @ n)")
  case True
  then obtain l r where d: "pending p @ n = l @ 10 # r" "10 \<notin> set l" by (meson split_list_first)
  then have tw: "takeWhile (\<lambda>x. x \<noteq> 10) (pending p @ n) = l" by (simp add: takeWhile_first)
  obtain buf where buf: "length buf = pb_buffer_size p" "take (length (l @ 10 # r)) buf = l @ 10 # r"
    and eq: "protocol_read_request (Some n) buf_size p =
      (let line_len = (if buf_size \<le> length l then buf_size - 1 else length l);
           remaining = length (l @ 10 # r) - line_len - 1 in
       if length buf < length l + 1 + remaining then undef
       else ret (1, Some (take line_len buf),
              p\<lparr>pb_buffer := Some (put_at 0 (get_at (length l + 1) remaining buf) buf), pb_data_len := remaining\<rparr>))"
    by (rule line_received[OF assms(1-5) d])
  have z: "buf = (l @ 10 # r) @ drop (length (l @ 10 # r)) buf" using buf(2) by (metis append_take_drop_id)
  let ?p = "p\<lparr>pb_buffer := Some (put_at 0 r buf), pb_data_len := length r\<rparr>"
  have lz: "length (l @ 10 # r) \<le> length buf" by (subst z) simp
  have g: "take (length l) buf = l" "get_at (length l + 1) (length r) buf = r"
    by (subst z, simp add: get_at_def)+
  have "protocol_read_request (Some n) buf_size p = ret (1, Some l, ?p)"
    unfolding eq Let_def using assms(6) tw g lz by simp
  moreover have "pb_open ?p" "pending ?p = r"
    using lz buf(1) by (simp_all add: pb_open_def pending_def put_at_within)
  ultimately show ?thesis using True d(1) tw by simp
next
  case False
  obtain b buf where "pb_buffer p = Some b" "put_at (pb_data_len p) (n @ [0]) b = buf"
    "length buf = pb_buffer_size p" "take (pb_data_len p + length n) buf = pending p @ n"
    "strchr 10 buf = (if 10 \<in> set (pending p @ n)
       then Some (length (takeWhile (\<lambda>x. x \<noteq> 10) (pending p @ n))) else None)"
    by (rule received[OF assms(1,3,4)])
  with False assms(1,2,3,5) show ?thesis
    by (auto simp: protocol_read_request_def Let_def pb_open_def pending_def)
qed

theorem read_request_lines_witness:
  "\<exists>r line p'. protocol_read_request (Some [97, 10, 98]) 64
       \<lparr>pb_fd = 3, pb_buffer = Some (replicate 8 0), pb_buffer_size = 8, pb_buffer_pos = 0, pb_data_len = 0\<rparr> =
     ret (r, line, p') \<and> r = 1 \<and> line = Some [97] \<and> pending p' = [98]"
proof -
  let ?p = "\<lparr>pb_fd = 3, pb_buffer = Some (replicate 8 0), pb_buffer_size = 8, pb_buffer_pos = 0,
    pb_data_len = 0\<rparr> :: ProtocolBuffer"
  have p: "pending ?p = []" by (simp add: pending_def)
  obtain r line p' where "protocol_read_request (Some [97, 10, 98]) 64 ?p = ret (r, line, p')"
    "r = 1" "line = Some [97]" "[97, 10, 98] = the line @ 10 # pending p'"
    using read_request_lines[of ?p "[97, 10, 98]" 64] by (auto simp: p pb_open_def)
  then show ?thesis by auto
qed

text \<open>For a line that does not fit the caller's buffer the number of waiting bytes comes out too
  large, by as many bytes as the line was shortened: what follows the line end is then followed by
  bytes that were never received.\<close>

theorem read_request_long_line:
  assumes "pb_open p" "n \<noteq> []" "pb_data_len p + length n < pb_buffer_size p" "0 \<notin> set (pending p @ n)"
    "pending p @ n = l @ 10 # r" "10 \<notin> set l" "0 < buf_size" "buf_size \<le> length l"
    "protocol_read_request (Some n) buf_size p = ret (x, line, p')"
  shows "x = 1 \<and> line = Some (take (buf_size - 1) l) \<and> length (pending p') = length r + (length l - (buf_size - 1))"
proof -
  obtain buf where buf: "length buf = pb_buffer_size p" "take (length (l @ 10 # r)) buf = l @ 10 # r"
    and eq: "protocol_read_request (Some n) buf_size p =
      (let line_len = (if buf_size \<le> length l then buf_size - 1 else length l);
           remaining = length (l @ 10 # r) - line_len - 1 in
       if length buf < length l + 1 + remaining then undef
       else ret (1, Some (take line_len buf),
              p\<lparr>pb_buffer := Some (put_at 0 (get_at (length l + 1) remaining buf) buf), pb_data_len := remaining\<rparr>))"
    by (rule line_received[OF assms(1-4,7,5,6)])
  have z: "buf = (l @ 10 # r) @ drop (length (l @ 10 # r)) buf" using buf(2) by (metis append_take_drop_id)
  have g: "take (buf_size - 1) buf = take (buf_size - 1) l" using assms(8) by (subst z) simp
  let ?m = "length (l @ 10 # r) - (buf_size - 1) - 1"
  have r: "x = 1" "line = Some (take (buf_size - 1) l)" "length l + 1 + ?m \<le> length buf"
    "p' = p\<lparr>pb_buffer := Some (put_at 0 (get_at (length l + 1) ?m buf) buf), pb_data_len := ?m\<rparr>"
    using assms(8,9) g unfolding eq Let_def by (simp_all split: if_splits)
  have "length (pending p') = ?m" using r(3) by (simp add: r(4) pending_def buf_simps)
  with r(1,2) assms(7,8) show ?thesis by simp
qed

theorem read_request_long_line_witness:
  "\<exists>x line p'. protocol_read_request (Some [97, 97, 97, 10]) 2
       \<lparr>pb_fd = 3, pb_buffer = Some ([0, 0, 0, 0, 0, 0, 0, 0]), pb_buffer_size = 8, pb_buffer_pos = 0, pb_data_len = 0\<rparr> =
     ret (x, line, p') \<and> length (pending p') = 2"
proof -
  let ?p = "\<lparr>pb_fd = 3, pb_buffer = Some ([0, 0, 0, 0, 0, 0, 0, 0]), pb_buffer_size = 8, pb_buffer_pos = 0,
    pb_data_len = 0\<rparr> :: ProtocolBuffer"
  have "\<exists>x line p'. protocol_read_request (Some [97, 97, 97, 10]) 2 ?p = ret (x, line, p')"
    by (simp add: protocol_read_request_def Let_def put_at_def get_at_def)
  then obtain x line p' where "protocol_read_request (Some [97, 97, 97, 10]) 2 ?p = ret (x, line, p')" by blast
  then show ?thesis
    using read_request_long_line[of ?p "[97, 97, 97, 10]" "[97, 97, 97]" "[]" 2 x line p']
    by (auto simp: pb_open_def pending_def)
qed

end
