(* ===== verification/Parser.thy ===== *)
theory Parser
  imports Lexer Ast
begin

text \<open>
  The recursive descent parser, \<^verbatim>\<open>src/sql/parser.c\<close>.  A \<open>Parser\<close> record is
  \<^verbatim>\<open>struct Parser\<close>.  A parsing function returns \<open>Some (r, p)\<close>, its result (\<open>None\<close> for
  \<^verbatim>\<open>NULL\<close>) and the parser afterwards.  The mutual recursion and the loops of the source may
  fail to end, so they carry a fuel argument and \<open>None\<close> is the answer of a call that has run
  out of it: a call that ends does so for all large enough fuel, one that does not is \<open>None\<close>
  for every fuel.  Errors are recorded in the parser and do not stop it, as in the source.
\<close>

section \<open>State, errors and tokens\<close>

record Parser =
  pr_lexer :: Lexer
  pr_token :: Token
  pr_has_error :: bool
  pr_error :: string
  pr_error_line :: int
  pr_error_column :: int

type_synonym 'a parse_result = "('a option \<times> Parser) option"

definition parser_create :: "string \<Rightarrow> Parser option" where
  "parser_create sql =
     (case lexer_create sql of
        None \<Rightarrow> None
      | Some lx \<Rightarrow>
          (case lexer_next_token lx of
             (t, lx) \<Rightarrow> Some \<lparr>pr_lexer = lx, pr_token = t, pr_has_error = False, pr_error = [],
                             pr_error_line = 0, pr_error_column = 0\<rparr>))"

definition parser_error :: "Parser \<Rightarrow> string option" where
  "parser_error p = (if pr_has_error p then Some (pr_error p) else None)"

definition parser_set_error :: "string \<Rightarrow> Parser \<Rightarrow> Parser" where
  "parser_set_error msg p =
     p\<lparr>pr_has_error := True, pr_error := take 255 msg, pr_error_line := t_line (pr_token p),
       pr_error_column := t_column (pr_token p)\<rparr>"

definition tok :: "Parser \<Rightarrow> TokenType" where
  "tok p = t_type (pr_token p)"

definition parser_keywords :: "(string \<times> TokenType) list" where
  "parser_keywords =
     [(''INTO'', TOKEN_INTO), (''VALUES'', TOKEN_VALUES), (''FROM'', TOKEN_FROM),
      (''WHERE'', TOKEN_WHERE), (''AND'', TOKEN_AND), (''OR'', TOKEN_OR), (''NOT'', TOKEN_NOT),
      (''NULL'', TOKEN_NULL), (''LIKE'', TOKEN_LIKE), (''BETWEEN'', TOKEN_BETWEEN),
      (''IN'', TOKEN_IN), (''IS'', TOKEN_IS), (''SET'', TOKEN_SET), (''BEGIN'', TOKEN_BEGIN),
      (''COMMIT'', TOKEN_COMMIT), (''ROLLBACK'', TOKEN_ROLLBACK), (''PRIMARY'', TOKEN_PRIMARY),
      (''KEY'', TOKEN_KEY), (''NOT'', TOKEN_NOT), (''IF'', TOKEN_IF), (''EXISTS'', TOKEN_EXISTS),
      (''ORDER'', TOKEN_ORDER), (''BY'', TOKEN_BY), (''ASC'', TOKEN_ASC), (''DESC'', TOKEN_DESC),
      (''LIMIT'', TOKEN_LIMIT), (''OFFSET'', TOKEN_OFFSET), (''AS'', TOKEN_AS),
      (''ON'', TOKEN_ON), (''UNIQUE'', TOKEN_UNIQUE), (''DEFAULT'', TOKEN_DEFAULT),
      (''AUTOINCREMENT'', TOKEN_AUTOINCREMENT)]"

definition keyword_to_token_type :: "string \<Rightarrow> TokenType option" where
  "keyword_to_token_type kw = map_of parser_keywords kw"

definition check_keyword :: "string \<Rightarrow> Parser \<Rightarrow> bool" where
  "check_keyword kw p \<longleftrightarrow>
     keyword_to_token_type kw = Some (tok p) \<or>
     tok p = TOKEN_IDENTIFIER \<and> map to_upper (token_get_text (pr_token p)) = kw"

definition parser_advance :: "Parser \<Rightarrow> Parser" where
  "parser_advance p =
     (if pr_has_error p then p
      else case lexer_next_token (pr_lexer p) of (t, lx) \<Rightarrow> p\<lparr>pr_token := t, pr_lexer := lx\<rparr>)"

definition expect_token :: "TokenType \<Rightarrow> string \<Rightarrow> Parser \<Rightarrow> Parser" where
  "expect_token ty expected p =
     (if tok p \<noteq> ty then parser_set_error expected p else parser_advance p)"

definition expect_keyword :: "string \<Rightarrow> string \<Rightarrow> Parser \<Rightarrow> Parser" where
  "expect_keyword kw msg p =
     (if \<not> check_keyword kw p then parser_set_error msg p else parser_advance p)"

definition parse_identifier :: "Parser \<Rightarrow> string option \<times> Parser" where
  "parse_identifier p =
     (if tok p \<noteq> TOKEN_IDENTIFIER then (None, parser_set_error ''Expected identifier'' p)
      else (Some (token_get_text (pr_token p)), parser_advance p))"

text \<open>Continue with a result that is not \<^verbatim>\<open>NULL\<close>; pass \<^verbatim>\<open>NULL\<close> and exhausted fuel on.\<close>

definition nonnull :: "'a parse_result \<Rightarrow> ('a \<Rightarrow> Parser \<Rightarrow> 'b parse_result) \<Rightarrow> 'b parse_result" where
  "nonnull r k =
     (case r of None \<Rightarrow> None | Some (None, p) \<Rightarrow> Some (None, p) | Some (Some x, p) \<Rightarrow> k x p)"

section \<open>Expressions\<close>

definition token_int :: "Token \<Rightarrow> u64" where
  "token_int t = (case t_value t of IntegerValue i \<Rightarrow> i | _ \<Rightarrow> 0)"

definition token_float :: "Token \<Rightarrow> u64" where
  "token_float t = (case t_value t of FloatValue d \<Rightarrow> d | _ \<Rightarrow> 0)"

definition token_string :: "Token \<Rightarrow> string" where
  "token_string t = (case t_value t of StringValue s \<Rightarrow> s | _ \<Rightarrow> [])"

definition get_precedence :: "TokenType \<Rightarrow> nat" where
  "get_precedence ty =
     (if ty = TOKEN_OR then 4 else if ty = TOKEN_AND then 5 else if ty = TOKEN_NOT then 6
      else if ty \<in> {TOKEN_EQ, TOKEN_NEQ, TOKEN_LT, TOKEN_GT, TOKEN_LTE, TOKEN_GTE} then 7
      else if ty \<in> {TOKEN_LIKE_OP, TOKEN_IN_OP, TOKEN_BETWEEN_OP} then 8
      else if ty \<in> {TOKEN_PLUS, TOKEN_MINUS} then 9
      else if ty \<in> {TOKEN_STAR, TOKEN_SLASH, TOKEN_PERCENT} then 10
      else 0)"

text \<open>A column reference; the index of a qualified name stays zero.\<close>

definition parse_column_ref :: "Parser \<Rightarrow> AstNode Expression option \<times> Parser" where
  "parse_column_ref p =
     (case parse_identifier p of
        (None, p) \<Rightarrow> (None, p)
      | (Some name, p) \<Rightarrow>
          if tok p = TOKEN_DOT then
            (case parse_identifier (parser_advance p) of
               (None, p) \<Rightarrow> (None, p)
             | (Some col_name, p) \<Rightarrow> (Some (EXPR_COLUMN 0 col_name), p))
          else (Some (EXPR_COLUMN (- 1) name), p))"

text \<open>
  The expression grammar.  \<open>binary_loop\<close> is the loop of \<^verbatim>\<open>parse_binary_expr\<close>, whose precedence
  argument is never read; \<open>expr_list_loop\<close> is the loop that reads a list of expressions in
  \<^verbatim>\<open>IN (...)\<close> and in \<^verbatim>\<open>parse_expression_list\<close>.
\<close>

fun parse_literal :: "nat \<Rightarrow> Parser \<Rightarrow> AstNode Expression parse_result"
  and parse_unary_not :: "nat \<Rightarrow> Parser \<Rightarrow> AstNode Expression parse_result"
  and parse_binary_expr :: "nat \<Rightarrow> Parser \<Rightarrow> AstNode Expression parse_result"
  and binary_loop :: "nat \<Rightarrow> AstNode Expression \<Rightarrow> Parser \<Rightarrow> AstNode Expression parse_result"
  and expr_list_loop :: "nat \<Rightarrow> AstNode Expression list \<Rightarrow> Parser \<Rightarrow> AstNode Expression list parse_result"
where
  "parse_literal 0 p = None"
| "parse_literal (Suc n) p =
     (let ty = tok p in
      if ty = TOKEN_INTEGER then Some (Some (EXPR_LITERAL_INT (token_int (pr_token p))), parser_advance p)
      else if ty = TOKEN_REAL then Some (Some (EXPR_LITERAL_FLOAT (token_float (pr_token p))), parser_advance p)
      else if ty = TOKEN_STRING then Some (Some (EXPR_LITERAL_STRING (token_string (pr_token p))), parser_advance p)
      else if ty = TOKEN_NULL then Some (Some EXPR_LITERAL_NULL, parser_advance p)
      else if ty = TOKEN_IDENTIFIER then Some (parse_column_ref p)
      else if ty = TOKEN_LPAREN then
        (case parse_binary_expr n (parser_advance p) of
           None \<Rightarrow> None
         | Some (e, p) \<Rightarrow>
             if tok p = TOKEN_RPAREN then Some (e, parser_advance p)
             else Some (e, parser_set_error (''Expected '' @ [CHR 0x27] @ '')'' @ [CHR 0x27]) p))
      else if ty = TOKEN_MINUS then
        nonnull (parse_literal n (parser_advance p))
          (\<lambda>operand p. Some (Some (EXPR_UNARY (token_code TOKEN_MINUS) operand), p))
      else if ty = TOKEN_PLUS then
        nonnull (parse_literal n (parser_advance p))
          (\<lambda>operand p. Some (Some (EXPR_UNARY (token_code TOKEN_PLUS) operand), p))
      else Some (None, parser_set_error ''Unexpected token in expression'' p))"
| "parse_unary_not 0 p = None"
| "parse_unary_not (Suc n) p =
     (if check_keyword ''NOT'' p then
        nonnull (parse_unary_not n (parser_advance p))
          (\<lambda>operand p. Some (Some (EXPR_UNARY (token_code TOKEN_NOT) operand), p))
      else parse_literal n p)"
| "parse_binary_expr 0 p = None"
| "parse_binary_expr (Suc n) p =
     nonnull (parse_unary_not n p)
       (\<lambda>left p. if pr_has_error p then Some (Some left, p) else binary_loop n left p)"
| "binary_loop 0 left p = None"
| "binary_loop (Suc n) left p =
     (let op = tok p; prec = get_precedence op in
      if op = TOKEN_LIKE then
        nonnull (parse_binary_expr n (parser_advance p))
          (\<lambda>pattern p. binary_loop n (EXPR_LIKE left pattern 0 False) p)
      else if op = TOKEN_IN then
        (let p = parser_advance p in
         if tok p = TOKEN_LPAREN then
           (let p = parser_advance p in
            if tok p \<noteq> TOKEN_RPAREN then
              nonnull (expr_list_loop n [] p)
                (\<lambda>list p. binary_loop n (EXPR_IN left list False)
                   (expect_token TOKEN_RPAREN (''Expected '' @ [CHR 0x27] @ '')'' @ [CHR 0x27]) p))
            else binary_loop n (EXPR_IN left [] False)
                   (expect_token TOKEN_RPAREN (''Expected '' @ [CHR 0x27] @ '')'' @ [CHR 0x27]) p))
         else binary_loop n left p)
      else if op = TOKEN_BETWEEN then
        nonnull (parse_binary_expr n (parser_advance p))
          (\<lambda>low p.
             if \<not> check_keyword ''AND'' p
             then Some (None, parser_set_error ''Expected AND in BETWEEN expression'' p)
             else nonnull (parse_binary_expr n (parser_advance p))
               (\<lambda>high p. binary_loop n (EXPR_BETWEEN left low high False) p))
      else if prec = 0 then Some (Some left, p)
      else if op = TOKEN_IS then
        (let p = parser_advance p; is_not = check_keyword ''NOT'' p;
             p = (if is_not then parser_advance p else p) in
         if check_keyword ''NULL'' p then
           binary_loop n
             (EXPR_BINARY left (token_code (if is_not then TOKEN_NEQ else TOKEN_EQ)) EXPR_LITERAL_NULL)
             (parser_advance p)
         else Some (None, parser_set_error ''Expected NULL after IS'' p))
      else if op = TOKEN_NOT then Some (Some left, p)
      else nonnull (parse_binary_expr n (parser_advance p))
        (\<lambda>right p. binary_loop n (EXPR_BINARY left (token_code op) right) p))"
| "expr_list_loop 0 acc p = None"
| "expr_list_loop (Suc n) acc p =
     nonnull (parse_binary_expr n p)
       (\<lambda>e p. if tok p = TOKEN_COMMA then expr_list_loop n (acc @ [e]) (parser_advance p)
              else Some (Some (acc @ [e]), p))"

definition parse_expression :: "nat \<Rightarrow> Parser \<Rightarrow> AstNode Expression parse_result" where
  "parse_expression n p = parse_binary_expr n p"

section \<open>Data definition statements\<close>

definition quoted :: "string \<Rightarrow> string" where
  "quoted s = CHR 0x27 # s @ [CHR 0x27]"

definition parse_column_type :: "Parser \<Rightarrow> ColumnType \<times> Parser" where
  "parse_column_type p =
     (if tok p = TOKEN_INTEGER_KW then (COL_TYPE_INTEGER, parser_advance p)
      else if tok p = TOKEN_REAL_KW \<or> check_keyword ''REAL'' p then (COL_TYPE_FLOAT, parser_advance p)
      else if tok p = TOKEN_TEXT_KW \<or> check_keyword ''TEXT'' p then (COL_TYPE_TEXT, parser_advance p)
      else if tok p = TOKEN_BLOB_KW \<or> check_keyword ''BLOB'' p then (COL_TYPE_BLOB, parser_advance p)
      else (COL_TYPE_TEXT, p))"

text \<open>The constraint loop of \<^verbatim>\<open>parse_column_def\<close>; it does not look at the error flag.\<close>

fun constraint_loop :: "nat \<Rightarrow> AstNode ColumnDef \<Rightarrow> Parser \<Rightarrow> (AstNode ColumnDef \<times> Parser) option" where
  "constraint_loop 0 col p = None"
| "constraint_loop (Suc n) (ColumnDef name ty nn pk ai dv) p =
     (if check_keyword ''NOT'' p then
        constraint_loop n (ColumnDef name ty True pk ai dv) (parser_advance (parser_advance p))
      else if check_keyword ''PRIMARY'' p then
        (let p = parser_advance p in
         if check_keyword ''KEY'' p
         then constraint_loop n (ColumnDef name ty nn True ai dv) (parser_advance p)
         else constraint_loop n (ColumnDef name ty nn pk ai dv) p)
      else if check_keyword ''AUTOINCREMENT'' p then
        constraint_loop n (ColumnDef name ty nn pk True dv) (parser_advance p)
      else if check_keyword ''DEFAULT'' p then
        (case parse_expression n (parser_advance p) of
           None \<Rightarrow> None
         | Some (e, p) \<Rightarrow> constraint_loop n (ColumnDef name ty nn pk ai e) p)
      else Some (ColumnDef name ty nn pk ai dv, p))"

definition parse_column_def :: "nat \<Rightarrow> Parser \<Rightarrow> AstNode ColumnDef parse_result" where
  "parse_column_def n p =
     (case parse_identifier p of
        (None, p) \<Rightarrow> Some (None, p)
      | (Some name, p) \<Rightarrow>
          (case parse_column_type p of
             (ty, p) \<Rightarrow>
               (case constraint_loop n (ColumnDef name ty False False False None) p of
                  None \<Rightarrow> None
                | Some (col, p) \<Rightarrow> Some (Some col, p))))"

fun column_defs_loop :: "nat \<Rightarrow> AstNode ColumnDef list \<Rightarrow> Parser \<Rightarrow> AstNode ColumnDef list parse_result" where
  "column_defs_loop 0 acc p = None"
| "column_defs_loop (Suc n) acc p =
     (if tok p \<noteq> TOKEN_RPAREN \<and> \<not> pr_has_error p then
        nonnull (parse_column_def n p)
          (\<lambda>col p. if tok p = TOKEN_COMMA then column_defs_loop n (acc @ [col]) (parser_advance p)
                   else Some (Some (acc @ [col]), p))
      else Some (Some acc, p))"

text \<open>\<^verbatim>\<open>IF NOT EXISTS\<close>: \<open>None\<close> when the clause is malformed.\<close>

definition parse_if_not_exists :: "Parser \<Rightarrow> bool option \<times> Parser" where
  "parse_if_not_exists p =
     (if tok p = TOKEN_IF then
        (let p = parser_advance p in
         if tok p = TOKEN_NOT then
           (let p = parser_advance p in
            if tok p = TOKEN_EXISTS then (Some True, parser_advance p)
            else (None, parser_set_error ''Expected EXISTS after IF NOT'' p))
         else (None, parser_set_error ''Expected NOT after IF'' p))
      else (Some False, p))"

definition parse_create_table :: "nat \<Rightarrow> Parser \<Rightarrow> AstNode parse_result" where
  "parse_create_table n p =
     (case parse_if_not_exists p of
        (None, p) \<Rightarrow> Some (None, p)
      | (Some if_not_exists, p) \<Rightarrow>
          (case parse_identifier p of
             (None, p) \<Rightarrow> Some (None, p)
           | (Some table_name, p) \<Rightarrow>
               let p = expect_token TOKEN_LPAREN (''Expected '' @ quoted ''('' @ '' after table name'') p in
               nonnull (column_defs_loop n [] p)
                 (\<lambda>columns p.
                    let p = expect_token TOKEN_RPAREN
                              (''Expected '' @ quoted '')'' @ '' after column definitions'') p;
                        p = expect_token TOKEN_SEMICOLON
                              (''Expected '' @ quoted '';'' @ '' after CREATE TABLE'') p
                    in Some (Some (AST_CREATE_TABLE table_name if_not_exists columns), p))))"

definition parse_drop_table :: "Parser \<Rightarrow> AstNode option \<times> Parser" where
  "parse_drop_table p =
     (let (if_exists, p) =
        (if tok p = TOKEN_IF then
           (let p = parser_advance p in
            if tok p = TOKEN_EXISTS then (Some True, parser_advance p)
            else (None, parser_set_error ''Expected EXISTS after IF'' p))
         else (Some False, p)) in
      case if_exists of
        None \<Rightarrow> (None, p)
      | Some if_exists \<Rightarrow>
          (case parse_identifier p of
             (None, p) \<Rightarrow> (None, p)
           | (Some table_name, p) \<Rightarrow>
               (Some (AST_DROP_TABLE table_name if_exists),
                expect_token TOKEN_SEMICOLON (''Expected '' @ quoted '';'' @ '' after DROP TABLE'') p)))"

definition parse_create_index :: "Parser \<Rightarrow> AstNode option \<times> Parser" where
  "parse_create_index p =
     (let unique = check_keyword ''UNIQUE'' p; p = (if unique then parser_advance p else p) in
      case parse_identifier p of
        (None, p) \<Rightarrow> (None, p)
      | (Some index_name, p) \<Rightarrow>
          if \<not> check_keyword ''ON'' p then (None, parser_set_error ''Expected ON in CREATE INDEX'' p)
          else
            (case parse_identifier (parser_advance p) of
               (None, p) \<Rightarrow> (None, p)
             | (Some table_name, p) \<Rightarrow>
                 (case parse_identifier
                         (expect_token TOKEN_LPAREN (''Expected '' @ quoted ''('' @ '' in CREATE INDEX'') p) of
                    (None, p) \<Rightarrow> (None, p)
                  | (Some column_name, p) \<Rightarrow>
                      let p = expect_token TOKEN_RPAREN
                                (''Expected '' @ quoted '')'' @ '' after column name'') p;
                          p = expect_token TOKEN_SEMICOLON
                                (''Expected '' @ quoted '';'' @ '' after CREATE INDEX'') p
                      in (Some (AST_CREATE_INDEX index_name table_name column_name unique), p))))"

definition parse_drop_index :: "Parser \<Rightarrow> AstNode option \<times> Parser" where
  "parse_drop_index p =
     (case parse_identifier p of
        (None, p) \<Rightarrow> (None, p)
      | (Some index_name, p) \<Rightarrow>
          (Some (AST_DROP_INDEX index_name),
           expect_token TOKEN_SEMICOLON (''Expected '' @ quoted '';'' @ '' after DROP INDEX'') p))"

section \<open>Data manipulation statements\<close>

text \<open>\<^verbatim>\<open>parse_expression_list\<close>: an empty list is \<^verbatim>\<open>NULL\<close>, which the caller takes for failure.\<close>

definition parse_expression_list :: "nat \<Rightarrow> Parser \<Rightarrow> AstNode Expression list parse_result" where
  "parse_expression_list n p =
     (if tok p = TOKEN_RPAREN then Some (None, p) else expr_list_loop n [] p)"

fun insert_columns_loop :: "nat \<Rightarrow> ColumnList list \<Rightarrow> Parser \<Rightarrow> ColumnList list parse_result" where
  "insert_columns_loop 0 acc p = None"
| "insert_columns_loop (Suc n) acc p =
     (if tok p \<noteq> TOKEN_RPAREN \<and> \<not> pr_has_error p then
        (case parse_identifier p of
           (None, p) \<Rightarrow> Some (None, p)
         | (Some name, p) \<Rightarrow>
             let acc = acc @ [\<lparr>cl_name = name, cl_alias = None\<rparr>] in
             if tok p = TOKEN_COMMA then insert_columns_loop n acc (parser_advance p)
             else Some (Some acc, p))
      else Some (Some acc, p))"

fun values_loop :: "nat \<Rightarrow> AstNode Expression list list \<Rightarrow> Parser \<Rightarrow> AstNode Expression list list parse_result" where
  "values_loop 0 acc p = None"
| "values_loop (Suc n) acc p =
     (if pr_has_error p then Some (Some acc, p) else
      nonnull (parse_expression_list n
                 (expect_token TOKEN_LPAREN (''Expected '' @ quoted ''('' @ '' before VALUES'') p))
        (\<lambda>exprs p.
           let p = expect_token TOKEN_RPAREN (''Expected '' @ quoted '')'' @ '' after VALUES'') p in
           if tok p = TOKEN_COMMA then values_loop n (acc @ [exprs]) (parser_advance p)
           else Some (Some (acc @ [exprs]), p)))"

definition parse_insert :: "nat \<Rightarrow> Parser \<Rightarrow> AstNode parse_result" where
  "parse_insert n p =
     (case parse_identifier (expect_keyword ''INTO'' ''Expected INTO after INSERT'' (parser_advance p)) of
        (None, p) \<Rightarrow> Some (None, p)
      | (Some table_name, p) \<Rightarrow>
          nonnull
            (if tok p = TOKEN_LPAREN then
               nonnull (insert_columns_loop n [] (parser_advance p))
                 (\<lambda>cols p. Some (Some cols, expect_token TOKEN_RPAREN
                                    (''Expected '' @ quoted '')'' @ '' after column list'') p))
             else Some (Some [], p))
            (\<lambda>columns p.
               nonnull (values_loop n [] (expect_keyword ''VALUES'' ''Expected VALUES after INSERT'' p))
                 (\<lambda>values p.
                    Some (Some (AST_INSERT table_name columns values),
                          expect_token TOKEN_SEMICOLON (''Expected '' @ quoted '';'' @ '' after INSERT'') p))))"

fun set_loop :: "nat \<Rightarrow> AstNode SetClause list \<Rightarrow> Parser \<Rightarrow> AstNode SetClause list parse_result" where
  "set_loop 0 acc p = None"
| "set_loop (Suc n) acc p =
     (if pr_has_error p then Some (Some acc, p) else
      case parse_identifier p of
        (None, p) \<Rightarrow> Some (None, p)
      | (Some col_name, p) \<Rightarrow>
          nonnull (parse_expression n
                     (expect_token TOKEN_EQ (''Expected '' @ quoted ''='' @ '' in SET clause'') p))
            (\<lambda>value p.
               let acc = acc @ [SetClause col_name value] in
               if tok p = TOKEN_COMMA then set_loop n acc (parser_advance p)
               else Some (Some acc, p)))"

definition parse_update :: "nat \<Rightarrow> Parser \<Rightarrow> AstNode parse_result" where
  "parse_update n p =
     (case parse_identifier (parser_advance p) of
        (None, p) \<Rightarrow> Some (None, p)
      | (Some table_name, p) \<Rightarrow>
          nonnull (set_loop n [] (expect_keyword ''SET'' ''Expected SET after UPDATE table name'' p))
            (\<lambda>clauses p.
               if \<not> check_keyword ''WHERE'' p
               then Some (None, parser_set_error ''UPDATE requires WHERE clause'' p)
               else nonnull (parse_expression n (parser_advance p))
                 (\<lambda>cond p.
                    Some (Some (AST_UPDATE table_name clauses cond),
                          expect_token TOKEN_SEMICOLON (''Expected '' @ quoted '';'' @ '' after UPDATE'') p))))"

definition parse_delete :: "nat \<Rightarrow> Parser \<Rightarrow> AstNode parse_result" where
  "parse_delete n p =
     (case parse_identifier (expect_keyword ''FROM'' ''Expected FROM after DELETE'' (parser_advance p)) of
        (None, p) \<Rightarrow> Some (None, p)
      | (Some table_name, p) \<Rightarrow>
          if \<not> check_keyword ''WHERE'' p
          then Some (None, parser_set_error ''DELETE requires WHERE clause'' p)
          else nonnull (parse_expression n (parser_advance p))
            (\<lambda>cond p.
               Some (Some (AST_DELETE table_name cond),
                     expect_token TOKEN_SEMICOLON (''Expected '' @ quoted '';'' @ '' after DELETE'') p)))"

section \<open>Queries and transactions\<close>

text \<open>The lists below are never empty when parsing succeeds; \<^verbatim>\<open>NULL\<close> is the result \<open>None\<close>.\<close>

fun column_list_loop :: "nat \<Rightarrow> ColumnList list \<Rightarrow> Parser \<Rightarrow> ColumnList list parse_result" where
  "column_list_loop 0 acc p = None"
| "column_list_loop (Suc n) acc p =
     (if tok p = TOKEN_STAR then
        Some (Some (acc @ [\<lparr>cl_name = ''*'', cl_alias = None\<rparr>]), parser_advance p)
      else
        case parse_identifier p of
          (None, p) \<Rightarrow> Some (None, p)
        | (Some name, p) \<Rightarrow>
            let (alias, p) = (if check_keyword ''AS'' p \<or> tok p = TOKEN_AS
                              then parse_identifier (parser_advance p) else (None, p));
                acc = acc @ [\<lparr>cl_name = name, cl_alias = alias\<rparr>] in
            if tok p = TOKEN_COMMA then column_list_loop n acc (parser_advance p)
            else Some (Some acc, p))"

definition parse_column_list :: "nat \<Rightarrow> Parser \<Rightarrow> ColumnList list parse_result" where
  "parse_column_list n p = column_list_loop n [] p"

fun order_by_loop :: "nat \<Rightarrow> OrderByItem list \<Rightarrow> Parser \<Rightarrow> OrderByItem list parse_result" where
  "order_by_loop 0 acc p = None"
| "order_by_loop (Suc n) acc p =
     (if pr_has_error p then Some (if acc = [] then None else Some acc, p) else
      case parse_identifier p of
        (None, p) \<Rightarrow> Some (None, p)
      | (Some name, p) \<Rightarrow>
          let desc = check_keyword ''DESC'' p;
              p = (if desc \<or> check_keyword ''ASC'' p then parser_advance p else p);
              acc = acc @ [\<lparr>ob_column_name = name, ob_descending = desc\<rparr>] in
          if tok p = TOKEN_COMMA then order_by_loop n acc (parser_advance p)
          else Some (Some acc, p))"

definition parse_order_by :: "nat \<Rightarrow> Parser \<Rightarrow> OrderByItem list parse_result" where
  "parse_order_by n p = order_by_loop n [] p"

text \<open>An optional clause introduced by a keyword and followed by an expression.\<close>

definition optional_clause :: "string \<Rightarrow> nat \<Rightarrow> Parser \<Rightarrow> AstNode Expression option parse_result" where
  "optional_clause kw n p =
     (if check_keyword kw p then
        nonnull (parse_expression n (parser_advance p)) (\<lambda>e p. Some (Some (Some e), p))
      else Some (Some None, p))"

definition order_by_clause :: "nat \<Rightarrow> Parser \<Rightarrow> OrderByItem list parse_result" where
  "order_by_clause n p =
     (if check_keyword ''ORDER'' p then
        (let p = parser_advance p in
         if check_keyword ''BY'' p then parse_order_by n (parser_advance p) else Some (Some [], p))
      else Some (Some [], p))"

definition parse_select :: "nat \<Rightarrow> Parser \<Rightarrow> AstNode parse_result" where
  "parse_select n p =
     (let p = parser_advance p; is_distinct = check_keyword ''DISTINCT'' p;
          p = (if is_distinct then parser_advance p else p) in
      nonnull (parse_column_list n p)
        (\<lambda>columns p.
           if tok p \<noteq> TOKEN_FROM
           then Some (None, parser_set_error ''Expected FROM after SELECT columns'' p)
           else
             case parse_identifier (parser_advance p) of
               (None, p) \<Rightarrow> Some (None, p)
             | (Some table_name, p) \<Rightarrow>
                 nonnull (optional_clause ''WHERE'' n p)
                   (\<lambda>cond p. nonnull (order_by_clause n p)
                      (\<lambda>order_by p. nonnull (optional_clause ''LIMIT'' n p)
                         (\<lambda>lim p. nonnull (optional_clause ''OFFSET'' n p)
                            (\<lambda>offset p.
                               Some (Some (AST_SELECT columns is_distinct table_name cond order_by lim offset),
                                     expect_token TOKEN_SEMICOLON
                                       (''Expected '' @ quoted '';'' @ '' after SELECT'') p)))))))"

definition parse_transaction :: "Parser \<Rightarrow> AstNode option \<times> Parser" where
  "parse_transaction p =
     (let ty = tok p in
      if ty \<notin> {TOKEN_BEGIN, TOKEN_COMMIT, TOKEN_ROLLBACK}
      then (None, parser_set_error ''Invalid transaction statement'' p)
      else
        let tx = (if ty = TOKEN_BEGIN then TX_BEGIN
                  else if ty = TOKEN_COMMIT then TX_COMMIT else TX_ROLLBACK);
            p = parser_advance p;
            p = (if tx = TX_BEGIN \<and> check_keyword ''TRANSACTION'' p then parser_advance p else p);
            p = expect_token TOKEN_SEMICOLON
                  (''Expected '' @ quoted '';'' @ '' after transaction statement'') p
        in (Some (AST_TRANSACTION tx), p))"

section \<open>Statements\<close>

definition parse_statement :: "nat \<Rightarrow> Parser \<Rightarrow> AstNode parse_result" where
  "parse_statement n p =
     (let ty = tok p in
      if ty = TOKEN_CREATE then
        (let p = parser_advance p in
         if tok p = TOKEN_TABLE then parse_create_table n (parser_advance p)
         else if tok p = TOKEN_INDEX then Some (parse_create_index (parser_advance p))
         else Some (None, parser_set_error ''Expected TABLE or INDEX after CREATE'' p))
      else if ty = TOKEN_DROP then
        (let p = parser_advance p in
         if tok p = TOKEN_TABLE then Some (parse_drop_table (parser_advance p))
         else if tok p = TOKEN_INDEX then Some (parse_drop_index (parser_advance p))
         else Some (None, parser_set_error ''Expected TABLE or INDEX after DROP'' p))
      else if ty = TOKEN_INSERT then parse_insert n p
      else if ty = TOKEN_UPDATE then parse_update n p
      else if ty = TOKEN_DELETE then parse_delete n p
      else if ty = TOKEN_SELECT then parse_select n p
      else if ty \<in> {TOKEN_BEGIN, TOKEN_COMMIT, TOKEN_ROLLBACK} then Some (parse_transaction p)
      else Some (None, parser_set_error ''Unexpected token at start of statement'' p))"

definition parser_parse :: "nat \<Rightarrow> Parser \<Rightarrow> AstNode parse_result" where
  "parser_parse n p = (if pr_has_error p then Some (None, p) else parse_statement n p)"

section \<open>The parser only advances and reports errors\<close>

inductive preach :: "Parser \<Rightarrow> Parser \<Rightarrow> bool" where
  preach_refl: "preach p p"
| preach_adv: "preach p q \<Longrightarrow> preach p (parser_advance q)"
| preach_err: "preach p q \<Longrightarrow> preach p (parser_set_error msg q)"

lemma preach_trans [trans]:
  assumes "preach q r" "preach p q"
  shows "preach p r"
  using assms by (induction rule: preach.induct) (auto intro: preach.intros)

lemma preach_expect: "preach p q \<Longrightarrow> preach p (expect_token ty msg q)"
  and preach_expect_kw: "preach p q \<Longrightarrow> preach p (expect_keyword kw msg q)"
  and preach_identifier: "preach p q \<Longrightarrow> preach p (snd (parse_identifier q))"
  by (auto simp: expect_token_def expect_keyword_def parse_identifier_def intro: preach.intros)

lemma preach_if: "preach p q \<Longrightarrow> preach p q' \<Longrightarrow> preach p (if b then q else q')"
  by simp

lemmas preach_intros = preach.intros preach_if preach_expect preach_expect_kw preach_identifier

lemma parse_identifier_preach: "parse_identifier p = (r, q) \<Longrightarrow> preach p q"
  using preach_identifier[OF preach_refl, of p] by simp

lemma parse_column_ref_preach: "preach p (snd (parse_column_ref p))"
  by (auto simp: parse_column_ref_def split: prod.split option.split
      intro!: preach.intros dest!: parse_identifier_preach intro: preach_trans)

text \<open>\<open>keeps r p\<close>: a parse result obtained from \<open>p\<close> only by advancing and reporting errors.\<close>

definition keeps :: "('a \<times> Parser) option \<Rightarrow> Parser \<Rightarrow> bool" where
  "keeps r p \<longleftrightarrow> (\<forall>x q. r = Some (x, q) \<longrightarrow> preach p q)"

lemma keeps_None: "keeps None p"
  and keeps_Some: "preach p q \<Longrightarrow> keeps (Some (x, q)) p"
  and keeps_pair: "preach p (snd z) \<Longrightarrow> keeps (Some z) p"
  and keeps_if: "(b \<Longrightarrow> keeps r p) \<Longrightarrow> (\<not> b \<Longrightarrow> keeps r' p) \<Longrightarrow> keeps (if b then r else r') p"
  by (auto simp: keeps_def)

lemma keeps_from: "keeps r q \<Longrightarrow> preach p q \<Longrightarrow> keeps r p"
  by (auto simp: keeps_def intro: preach_trans)

lemma keeps_nonnull:
  assumes "keeps r p" "\<And>x q. preach p q \<Longrightarrow> keeps (k x q) p"
  shows "keeps (nonnull r k) p"
  using assms by (auto simp: keeps_def nonnull_def split: option.splits)

lemma keeps_case:
  assumes "keeps r p" "\<And>x q. preach p q \<Longrightarrow> keeps (k x q) p"
  shows "keeps (case r of None \<Rightarrow> None | Some (x, q) \<Rightarrow> k x q) p"
  using assms by (auto simp: keeps_def split: option.splits)

lemma keeps_identifier:
  assumes "preach p q" "\<And>q'. preach p q' \<Longrightarrow> keeps (f q') p" "\<And>x q'. preach p q' \<Longrightarrow> keeps (g x q') p"
  shows "keeps (case parse_identifier q of (None, q') \<Rightarrow> f q' | (Some x, q') \<Rightarrow> g x q') p"
  using assms preach_identifier[OF assms(1)] by (auto split: prod.split option.split)

lemma keeps_split:
  assumes "preach p (snd z)" "\<And>x q. preach p q \<Longrightarrow> keeps (k x q) p"
  shows "keeps (case z of (x, q) \<Rightarrow> k x q) p"
  using assms by (auto split: prod.split)

lemma preach_snd: "preach p q \<Longrightarrow> preach p (snd (x, q))"
  and preach_snd_if: "preach p (snd z) \<Longrightarrow> preach p (snd z') \<Longrightarrow> preach p (snd (if b then z else z'))"
  by auto

lemmas keeps_intros = keeps_None keeps_Some keeps_pair keeps_if keeps_nonnull keeps_case keeps_identifier
  preach_intros

lemma expression_keeps:
  "keeps (parse_literal n p) p \<and> keeps (parse_unary_not n p) p \<and> keeps (parse_binary_expr n p) p \<and>
   keeps (binary_loop n left p) p \<and> keeps (expr_list_loop n acc p) p"
proof (induction n arbitrary: p left acc)
  case (Suc n)
  have lit: "preach p q \<Longrightarrow> keeps (parse_literal n q) p"
    and un: "preach p q \<Longrightarrow> keeps (parse_unary_not n q) p"
    and bin: "preach p q \<Longrightarrow> keeps (parse_binary_expr n q) p"
    and loop: "preach p q \<Longrightarrow> keeps (binary_loop n e q) p"
    and lst: "preach p q \<Longrightarrow> keeps (expr_list_loop n es q) p" for p q e es
    using Suc keeps_from by blast+
  have "keeps (parse_literal (Suc n) p) p"
    unfolding parse_literal.simps Let_def
    by (intro keeps_intros lit bin parse_column_ref_preach) assumption+
  moreover have "keeps (parse_unary_not (Suc n) p) p"
    unfolding parse_unary_not.simps by (intro keeps_intros un lit) assumption+
  moreover have "keeps (parse_binary_expr (Suc n) p) p"
    unfolding parse_binary_expr.simps by (intro keeps_intros un loop) assumption+
  moreover have "keeps (binary_loop (Suc n) left p) p"
    unfolding binary_loop.simps Let_def by (intro keeps_intros bin loop lst) assumption+
  moreover have "keeps (expr_list_loop (Suc n) acc p) p"
    unfolding expr_list_loop.simps by (intro keeps_intros bin lst) assumption+
  ultimately show ?case by blast
qed (simp add: keeps_None)

lemma parse_expression_keeps: "preach p q \<Longrightarrow> keeps (parse_expression n q) p"
  unfolding parse_expression_def by (rule keeps_from) (simp_all add: expression_keeps)

lemma expr_list_loop_keeps: "preach p q \<Longrightarrow> keeps (expr_list_loop n acc q) p"
  by (rule keeps_from) (simp_all add: expression_keeps)

lemma parse_expression_list_keeps: "preach p q \<Longrightarrow> keeps (parse_expression_list n q) p"
  unfolding parse_expression_list_def by (intro keeps_intros expr_list_loop_keeps)

lemma parse_column_type_preach: "preach p q \<Longrightarrow> preach p (snd (parse_column_type q))"
  by (auto simp: parse_column_type_def intro: preach.intros)

lemma constraint_loop_keeps: "preach p q \<Longrightarrow> keeps (constraint_loop n col q) p"
proof (induction n arbitrary: col q)
  case (Suc n)
  show ?case
    by (cases col, simp only: constraint_loop.simps Let_def)
      (intro keeps_intros parse_expression_keeps Suc.IH Suc.prems; assumption)
qed (simp add: keeps_None)

lemma parse_column_def_keeps: "preach p q \<Longrightarrow> keeps (parse_column_def n q) p"
  unfolding parse_column_def_def
proof (intro keeps_identifier)
  fix x q'
  assume "preach p q'"
  then show "keeps (case parse_column_type q' of (ty, p) \<Rightarrow>
      (case constraint_loop n (ColumnDef x ty False False False None) p of
         None \<Rightarrow> None | Some (col, p) \<Rightarrow> Some (Some col, p))) p"
    using parse_column_type_preach[of p q']
    by (auto split: prod.split intro!: keeps_case constraint_loop_keeps keeps_Some)
qed (auto intro: keeps_Some)

lemma column_defs_loop_keeps: "preach p q \<Longrightarrow> keeps (column_defs_loop n acc q) p"
proof (induction n arbitrary: acc q)
  case (Suc n)
  show ?case
    unfolding column_defs_loop.simps
    by (intro keeps_intros parse_column_def_keeps Suc.IH Suc.prems; assumption)
qed (simp add: keeps_None)

lemma insert_columns_loop_keeps: "preach p q \<Longrightarrow> keeps (insert_columns_loop n acc q) p"
proof (induction n arbitrary: acc q)
  case (Suc n)
  show ?case
    unfolding insert_columns_loop.simps Let_def by (intro keeps_intros Suc.IH Suc.prems; assumption)
qed (simp add: keeps_None)

lemma values_loop_keeps: "preach p q \<Longrightarrow> keeps (values_loop n acc q) p"
proof (induction n arbitrary: acc q)
  case (Suc n)
  show ?case
    unfolding values_loop.simps Let_def
    by (intro keeps_intros parse_expression_list_keeps Suc.IH Suc.prems; assumption)
qed (simp add: keeps_None)

lemma set_loop_keeps: "preach p q \<Longrightarrow> keeps (set_loop n acc q) p"
proof (induction n arbitrary: acc q)
  case (Suc n)
  show ?case
    unfolding set_loop.simps Let_def by (intro keeps_intros parse_expression_keeps Suc.IH Suc.prems; assumption)
qed (simp add: keeps_None)

lemma column_list_loop_keeps: "preach p q \<Longrightarrow> keeps (column_list_loop n acc q) p"
proof (induction n arbitrary: acc q)
  case (Suc n)
  show ?case
    unfolding column_list_loop.simps Let_def
    by (intro keeps_intros keeps_split preach_snd_if preach_snd Suc.IH Suc.prems; assumption)
qed (simp add: keeps_None)

lemma order_by_loop_keeps: "preach p q \<Longrightarrow> keeps (order_by_loop n acc q) p"
proof (induction n arbitrary: acc q)
  case (Suc n)
  show ?case
    unfolding order_by_loop.simps Let_def by (intro keeps_intros Suc.IH Suc.prems; assumption)
qed (simp add: keeps_None)

lemma optional_clause_keeps: "preach p q \<Longrightarrow> keeps (optional_clause kw n q) p"
  unfolding optional_clause_def by (intro keeps_intros parse_expression_keeps; assumption)

lemma order_by_clause_keeps: "preach p q \<Longrightarrow> keeps (order_by_clause n q) p"
  unfolding order_by_clause_def parse_order_by_def Let_def
  by (intro keeps_intros order_by_loop_keeps; assumption)

lemma parse_select_keeps: "preach p q \<Longrightarrow> keeps (parse_select n q) p"
  unfolding parse_select_def parse_column_list_def Let_def
  by (intro keeps_intros column_list_loop_keeps optional_clause_keeps order_by_clause_keeps; assumption)

lemma parse_if_not_exists_preach: "preach p q \<Longrightarrow> preach p (snd (parse_if_not_exists q))"
  unfolding parse_if_not_exists_def Let_def by (intro preach_snd_if preach_snd preach_intros)

lemma keeps_option_split:
  assumes "preach p (snd z)" "\<And>q. preach p q \<Longrightarrow> keeps (f q) p" "\<And>x q. preach p q \<Longrightarrow> keeps (g x q) p"
  shows "keeps (case z of (None, q) \<Rightarrow> f q | (Some x, q) \<Rightarrow> g x q) p"
  using assms by (auto split: prod.split option.split)

lemma parse_create_table_keeps: "preach p q \<Longrightarrow> keeps (parse_create_table n q) p"
  unfolding parse_create_table_def Let_def
  by (intro keeps_option_split parse_if_not_exists_preach keeps_intros column_defs_loop_keeps; assumption)

lemma parse_insert_keeps: "preach p q \<Longrightarrow> keeps (parse_insert n q) p"
  unfolding parse_insert_def Let_def
  by (intro keeps_intros insert_columns_loop_keeps values_loop_keeps; assumption)

lemma parse_update_keeps: "preach p q \<Longrightarrow> keeps (parse_update n q) p"
  unfolding parse_update_def
  by (intro keeps_intros set_loop_keeps parse_expression_keeps; assumption)

lemma parse_delete_keeps: "preach p q \<Longrightarrow> keeps (parse_delete n q) p"
  unfolding parse_delete_def by (intro keeps_intros parse_expression_keeps; assumption)

end
