(* ===== verification/Parser_Total.thy ===== *)
theory Parser_Total
  imports Parser
begin

text \<open>
  Which calls of the parser end.  The tokens a parser sees come from the lexer (\<open>lexed\<close>), every
  advance brings the end of the statement nearer (\<open>todo\<close>), and after an error nothing
  advances any more.  Expressions therefore always end when parsing starts without an error, and
  with them \<^verbatim>\<open>SELECT\<close>, \<^verbatim>\<open>DELETE\<close>, \<^verbatim>\<open>DROP\<close>, \<^verbatim>\<open>CREATE INDEX\<close> and transaction statements.  After an
  error the operand of a sign, a parenthesis or \<^verbatim>\<open>NOT\<close> is looked for without end, which makes
  some malformed \<^verbatim>\<open>INSERT\<close>, \<^verbatim>\<open>UPDATE\<close> and \<^verbatim>\<open>CREATE TABLE\<close> statements exhaust the stack.
\<close>

section \<open>Tokens come from the lexer\<close>

definition from_lexer :: "Token \<Rightarrow> bool" where
  "from_lexer t \<longleftrightarrow> t_type t \<noteq> TOKEN_INTEGER_KW \<and> t_type t \<noteq> TOKEN_BLOB_KW \<and>
     (t_type t = TOKEN_IDENTIFIER \<longrightarrow> lookup_keyword (map to_upper (token_get_text t)) = TOKEN_IDENTIFIER)"

lemma to_upper_not_lower: "\<not> is_lower (to_upper c)"
  by (auto simp: is_lower_def to_upper_def mod_less)

lemma type_keywords:
  "(kw, TOKEN_INTEGER_KW) \<in> set keyword_table \<Longrightarrow> kw = ''INTEGER''"
  "(kw, TOKEN_BLOB_KW) \<in> set keyword_table \<Longrightarrow> kw = ''BLOB''"
  by (simp_all add: keyword_table_def)

lemma lookup_upper_types:
  "lookup_keyword (map to_upper w) \<noteq> TOKEN_INTEGER_KW" "lookup_keyword (map to_upper w) \<noteq> TOKEN_BLOB_KW"
proof -
  let ?w = "map to_upper w"
  have "map_of keyword_table ?w = Some TOKEN_INTEGER_KW \<Longrightarrow> ?w = ''INTEGER''"
    "map_of keyword_table ?w = Some TOKEN_BLOB_KW \<Longrightarrow> ?w = ''BLOB''"
    by (drule map_of_SomeD, erule type_keywords)+
  then show "lookup_keyword ?w \<noteq> TOKEN_INTEGER_KW" "lookup_keyword ?w \<noteq> TOKEN_BLOB_KW"
    using lookup_keyword_eq[of ?w] to_upper_not_lower by (auto split: option.splits if_splits)
qed

lemma from_lexer_make:
  "from_lexer (make_token lx ty s) \<longleftrightarrow> ty \<noteq> TOKEN_INTEGER_KW \<and> ty \<noteq> TOKEN_BLOB_KW \<and>
     (ty = TOKEN_IDENTIFIER \<longrightarrow> lookup_keyword (map to_upper s) = TOKEN_IDENTIFIER)"
  "from_lexer ((make_token lx ty s)\<lparr>t_value := v\<rparr>) \<longleftrightarrow> from_lexer (make_token lx ty s)"
  by (auto simp: from_lexer_def token_get_text_def)

lemma single_char_not_word:
  "map_of single_char_tokens c = Some ty \<Longrightarrow>
   ty \<noteq> TOKEN_INTEGER_KW \<and> ty \<noteq> TOKEN_BLOB_KW \<and> ty \<noteq> TOKEN_IDENTIFIER"
  by (auto simp: single_char_tokens_def split: if_splits)

lemma scanners_from_lexer:
  "from_lexer (fst (scan_identifier lx))" "from_lexer (fst (scan_number lx))"
  "from_lexer (fst (scan_string lx))" "from_lexer (fst (scan_operator lx))"
  "from_lexer (fst (scan_placeholder lx))"
  by (auto simp: scan_identifier_def scan_number_def scan_string_def scan_operator_def
      scan_placeholder_def make_error_token_def from_lexer_make lookup_upper_types Let_def
      dest: single_char_not_word split: prod.split option.split)

lemma next_token_from_lexer: "from_lexer (fst (next_token_internal lx))"
  by (simp add: next_token_internal_def Let_def scanners_from_lexer from_lexer_make)

definition lexed :: "Parser \<Rightarrow> bool" where
  "lexed p \<longleftrightarrow> \<not> l_peeked (pr_lexer p) \<and> from_lexer (pr_token p) \<and>
     (tok p = TOKEN_EOF \<longrightarrow> rest (pr_lexer p) = [])"

lemma next_token_eof: "t_type (fst (next_token_internal lx)) = TOKEN_EOF \<Longrightarrow>
    rest (snd (next_token_internal lx)) = []"
  by (rule next_token_cases[of lx]) (auto simp: scans_def)

lemma lexer_next_token_plain:
  assumes "\<not> l_peeked lx" "lexer_next_token lx = (t, lx')"
  shows "t = fst (next_token_internal lx)" "rest lx' = rest (snd (next_token_internal lx))"
    "\<not> l_peeked lx'"
  using assms next_token_moves[of lx] by (auto simp: lexer_next_token_def moves_def split: prod.splits)

lemma lexed_advance: "lexed p \<Longrightarrow> lexed (parser_advance p)"
  using lexer_next_token_plain[of "pr_lexer p"] next_token_eof[of "pr_lexer p"]
    next_token_from_lexer[of "pr_lexer p"]
  by (auto simp: lexed_def parser_advance_def tok_def split: prod.split)

lemma lexed_preach: "preach p q \<Longrightarrow> lexed p \<Longrightarrow> lexed q"
proof (induction rule: preach.induct)
  case (preach_err p q msg)
  then show ?case by (simp add: lexed_def parser_set_error_def tok_def)
qed (simp_all add: lexed_advance)

lemma lexed_create:
  assumes "parser_create sql = Some p"
  shows "lexed p" "\<not> pr_has_error p"
proof -
  obtain lx t lx' where lx: "lexer_create sql = Some lx" "lexer_next_token lx = (t, lx')"
    and p: "pr_token p = t" "pr_lexer p = lx'" "\<not> pr_has_error p"
    using assms by (auto simp: parser_create_def split: option.splits prod.splits)
  have "\<not> l_peeked lx" using lx(1) by (auto simp: lexer_create_def split: if_splits)
  note lexer_next_token_plain[OF this lx(2)]
  with next_token_eof[of lx] next_token_from_lexer[of lx] p show "lexed p" "\<not> pr_has_error p"
    by (simp_all add: lexed_def tok_def)
qed

text \<open>A reserved word is never an identifier, so \<^verbatim>\<open>check_keyword\<close> only looks at the token type.\<close>

lemma check_keyword_lexed:
  assumes "lexed p" "lookup_keyword kw \<noteq> TOKEN_IDENTIFIER"
  shows "check_keyword kw p \<longleftrightarrow> keyword_to_token_type kw = Some (tok p)"
  using assms by (auto simp: check_keyword_def lexed_def from_lexer_def tok_def)

section \<open>Every advance brings the end nearer\<close>

definition todo :: "Parser \<Rightarrow> nat" where
  "todo p = (if tok p = TOKEN_EOF then 0 else Suc (length (rest (pr_lexer p))))"

lemma todo_advance:
  assumes "lexed p" "\<not> pr_has_error p" "tok p \<noteq> TOKEN_EOF"
  shows "todo (parser_advance p) < todo p"
proof -
  obtain t lx where n: "lexer_next_token (pr_lexer p) = (t, lx)" by force
  have "\<not> l_peeked (pr_lexer p)" using assms(1) by (simp add: lexed_def)
  note plain = lexer_next_token_plain[OF this n]
  show ?thesis
    using assms(2,3) n plain next_token_shorter[of "pr_lexer p"]
    by (auto simp: todo_def tok_def parser_advance_def)
qed

lemma error_advance [simp]: "pr_has_error p \<Longrightarrow> parser_advance p = p"
  by (simp add: parser_advance_def)

lemma no_error_advance [simp]: "pr_has_error (parser_advance p) = pr_has_error p"
  by (simp add: parser_advance_def split: prod.split)

lemma set_error_simps [simp]:
  "pr_has_error (parser_set_error msg p)" "tok (parser_set_error msg p) = tok p"
  "lexed (parser_set_error msg p) = lexed p" "todo (parser_set_error msg p) = todo p"
  by (simp_all add: parser_set_error_def tok_def lexed_def todo_def)

lemma expect_token_error [simp]:
  "pr_has_error (expect_token ty msg p) = (pr_has_error p \<or> tok p \<noteq> ty)"
  by (simp add: expect_token_def)

lemma lexed_expect: "lexed p \<Longrightarrow> lexed (expect_token ty msg p)"
  by (simp add: expect_token_def lexed_advance)

section \<open>Results that settle\<close>

text \<open>\<open>settles g r\<close>: with enough fuel the call \<open>g\<close> returns \<open>r\<close>, whatever the fuel is exactly.\<close>

definition settles :: "(nat \<Rightarrow> 'a option) \<Rightarrow> 'a \<Rightarrow> bool" where
  "settles g r \<longleftrightarrow> (\<exists>N. \<forall>n \<ge> N. g n = Some r)"

lemma settlesI: "(\<And>n. g n = Some r) \<Longrightarrow> settles g r"
  by (simp add: settles_def)

lemma settles_Suc: "settles (\<lambda>n. g (Suc n)) r \<Longrightarrow> settles g r"
  unfolding settles_def by (metis Suc_le_D Suc_le_mono)

text \<open>
  \<open>ends g P\<close>: the call settles, and if its result is not \<^verbatim>\<open>NULL\<close> the parser then
  satisfies \<open>P\<close>.
\<close>

definition ends :: "(nat \<Rightarrow> 'a parse_result) \<Rightarrow> (Parser \<Rightarrow> bool) \<Rightarrow> bool" where
  "ends g P \<longleftrightarrow> (\<exists>r q. settles g (r, q) \<and> (r \<noteq> None \<longrightarrow> P q))"

lemma ends_Suc: "ends (\<lambda>n. g (Suc n)) P \<Longrightarrow> ends g P"
  using settles_Suc by (fastforce simp: ends_def)

lemma ends_Some: "P q \<Longrightarrow> ends (\<lambda>n. Some (r, q)) P"
  and ends_null: "ends (\<lambda>n. Some (None, q)) P"
  by (auto simp: ends_def settles_def)

lemma ends_if: "(b \<Longrightarrow> ends g P) \<Longrightarrow> (\<not> b \<Longrightarrow> ends h P) \<Longrightarrow> ends (\<lambda>n. if b then g n else h n) P"
  by (cases b) simp_all

lemma ends_case:
  assumes "ends g P" "\<And>x q. P q \<Longrightarrow> ends (\<lambda>n. k n (Some x) q) Q" "\<And>q. ends (\<lambda>n. k n None q) Q"
  shows "ends (\<lambda>n. case g n of None \<Rightarrow> None | Some (e, q) \<Rightarrow> k n e q) Q"
proof -
  obtain r q where g: "settles g (r, q)" "r \<noteq> None \<longrightarrow> P q" using assms(1) by (auto simp: ends_def)
  then have "ends (\<lambda>n. k n r q) Q" using assms(2,3) by (cases r) auto
  then obtain s t where k: "settles (\<lambda>n. k n r q) (s, t)" "s \<noteq> None \<longrightarrow> Q t"
    by (auto simp: ends_def)
  obtain M N where "\<forall>n \<ge> M. g n = Some (r, q)" "\<forall>n \<ge> N. k n r q = Some (s, t)"
    using g(1) k(1) by (auto simp: settles_def)
  then have "settles (\<lambda>n. case g n of None \<Rightarrow> None | Some (e, q) \<Rightarrow> k n e q) (s, t)"
    unfolding settles_def by (intro exI[of _ "max M N"]) simp
  with k(2) show ?thesis by (auto simp: ends_def)
qed

lemma nonnull_case:
  "nonnull r k = (case r of None \<Rightarrow> None | Some (e, q) \<Rightarrow>
     (case e of None \<Rightarrow> Some (None, q) | Some x \<Rightarrow> k x q))"
  by (auto simp: nonnull_def split: option.splits)

lemma ends_nonnull:
  assumes "ends g P" "\<And>x q. P q \<Longrightarrow> ends (\<lambda>n. k n x q) Q"
  shows "ends (\<lambda>n. nonnull (g n) (k n)) Q"
  unfolding nonnull_case using assms by (intro ends_case[of g P]) (auto intro: ends_null)

lemma ends_mono: "ends g P \<Longrightarrow> (\<And>q. P q \<Longrightarrow> Q q) \<Longrightarrow> ends g Q"
  by (auto simp: ends_def)

section \<open>Expressions end\<close>

text \<open>At a token that no operator position accepts, the operator loop stops at once.\<close>

definition stuck :: "Parser \<Rightarrow> bool" where
  "stuck p \<longleftrightarrow> tok p \<notin> {TOKEN_LIKE, TOKEN_IN, TOKEN_BETWEEN} \<and>
     (get_precedence (tok p) = 0 \<or> tok p = TOKEN_NOT)"

lemma stuck_set_error [simp]: "stuck (parser_set_error msg p) = stuck p"
  by (simp add: stuck_def)

lemma stuck_loop:
  assumes "stuck p"
  shows "binary_loop (Suc n) left p = Some (Some left, p)"
  using assms by (auto simp: stuck_def Let_def)

lemma stuck_ends:
  assumes "stuck p" "P p"
  shows "ends (\<lambda>n. binary_loop n left p) P"
  using assms(2) by (intro ends_Suc[where g = "\<lambda>n. binary_loop n left p"])
    (simp only: stuck_loop[OF assms(1)], rule ends_Some)

lemma loop_not_stuck_cases:
  assumes "\<not> stuck p"
  shows "tok p \<noteq> TOKEN_EOF"
  using assms by (auto simp: stuck_def get_precedence_def)

text \<open>The states an expression may leave behind, below a bound on what remains to be read.\<close>

definition left_at :: "nat \<Rightarrow> Parser \<Rightarrow> bool" where
  "left_at k q \<longleftrightarrow> lexed q \<and> (pr_has_error q \<longrightarrow> stuck q) \<and> (\<not> pr_has_error q \<longrightarrow> todo q < k)"

lemma left_atI: "lexed q \<Longrightarrow> \<not> pr_has_error q \<Longrightarrow> todo q < k \<Longrightarrow> left_at k q"
  by (simp add: left_at_def)

lemma check_not: "lexed p \<Longrightarrow> check_keyword ''NOT'' p \<longleftrightarrow> tok p = TOKEN_NOT"
  and check_and: "lexed p \<Longrightarrow> check_keyword ''AND'' p \<longleftrightarrow> tok p = TOKEN_AND"
  by (auto simp: check_keyword_lexed lookup_keyword_eq keyword_table_def is_lower_def
      keyword_to_token_type_def parser_keywords_def)

definition expr_ends :: "Parser \<Rightarrow> bool" where
  "expr_ends p \<longleftrightarrow>
     ends (\<lambda>n. parse_literal n p) (left_at (todo p)) \<and>
     ends (\<lambda>n. parse_unary_not n p) (left_at (todo p)) \<and>
     ends (\<lambda>n. parse_binary_expr n p) (\<lambda>q. stuck q \<and> left_at (todo p) q) \<and>
     (\<forall>left. ends (\<lambda>n. binary_loop n left p) (\<lambda>q. stuck q \<and> left_at (Suc (todo p)) q)) \<and>
     (\<forall>acc. ends (\<lambda>n. expr_list_loop n acc p) (\<lambda>q. stuck q \<and> left_at (todo p) q))"

lemma left_at_mono: "left_at k q \<Longrightarrow> k \<le> l \<Longrightarrow> left_at l q"
  by (auto simp: left_at_def)

lemma parse_column_ref_ends:
  assumes "lexed p" "\<not> pr_has_error p" "tok p = TOKEN_IDENTIFIER"
  shows "ends (\<lambda>n. Some (parse_column_ref p)) (left_at (todo p))"
proof -
  let ?p = "parser_advance p"
  have p: "lexed ?p" "\<not> pr_has_error ?p" "todo ?p < todo p"
    using assms todo_advance[of p] by (simp_all add: lexed_advance)
  show ?thesis
  proof (cases "tok ?p = TOKEN_DOT")
    case True
    let ?q = "parser_advance ?p"
    have q: "lexed ?q" "\<not> pr_has_error ?q" "todo ?q < todo ?p"
      using p todo_advance[of ?p] True by (simp_all add: lexed_advance)
    then have "tok ?q = TOKEN_IDENTIFIER \<Longrightarrow> left_at (todo p) (parser_advance ?q)"
      using p(3) todo_advance[of ?q] by (intro left_atI) (auto simp: lexed_advance)
    with True assms(3) show ?thesis
      by (auto simp: parse_column_ref_def parse_identifier_def intro: ends_Some ends_null)
  next
    case False
    with assms(3) p show ?thesis
      by (auto simp: parse_column_ref_def parse_identifier_def intro!: ends_Some left_atI)
  qed
qed

lemma literal_ends:
  assumes p: "lexed p" "\<not> pr_has_error p"
    and IH: "\<And>q. todo q < todo p \<Longrightarrow> lexed q \<Longrightarrow> \<not> pr_has_error q \<Longrightarrow> expr_ends q"
  shows "ends (\<lambda>n. parse_literal n p) (left_at (todo p))"
proof -
  let ?p = "parser_advance p"
  have adv: "left_at (todo p) ?p" if "tok p \<noteq> TOKEN_EOF"
    using p that todo_advance[of p] by (intro left_atI) (auto simp: lexed_advance)
  have ih: "expr_ends ?p" "todo ?p < todo p" if "tok p \<noteq> TOKEN_EOF"
    using IH[of ?p] p that todo_advance[of p] by (simp_all add: lexed_advance)
  have sign: "ends (\<lambda>n. nonnull (parse_literal n ?p) (\<lambda>e q. Some (Some (EXPR_UNARY op e), q))) (left_at (todo p))"
    if "tok p \<noteq> TOKEN_EOF" for op
    using ih[OF that] by (intro ends_nonnull[of _ "left_at (todo ?p)"] ends_Some)
      (auto simp: expr_ends_def left_at_def)
  have paren: "ends (\<lambda>n. case parse_binary_expr n ?p of None \<Rightarrow> None | Some (e, q) \<Rightarrow>
        if tok q = TOKEN_RPAREN then Some (e, parser_advance q) else Some (e, parser_set_error msg q))
      (left_at (todo p))" if "tok p \<noteq> TOKEN_EOF" for msg
  proof (rule ends_case[of _ "\<lambda>q. stuck q \<and> left_at (todo ?p) q"])
    show "ends (\<lambda>n. parse_binary_expr n ?p) (\<lambda>q. stuck q \<and> left_at (todo ?p) q)"
      using ih(1)[OF that] by (simp add: expr_ends_def)
    fix x q assume q: "stuck q \<and> left_at (todo ?p) q"
    then have "left_at (todo p) (parser_advance q)" if "tok q = TOKEN_RPAREN"
      using ih(2) \<open>tok p \<noteq> TOKEN_EOF\<close> todo_advance[of q] that
      by (cases "pr_has_error q") (auto simp: left_at_def lexed_advance)
    with q show "ends (\<lambda>n. if tok q = TOKEN_RPAREN then Some (Some x, parser_advance q)
        else Some (Some x, parser_set_error msg q)) (left_at (todo p))"
      by (auto intro!: ends_Some simp: left_at_def)
  qed (auto intro: ends_null)
  show ?thesis
    by (rule ends_Suc, unfold parse_literal.simps Let_def,
        intro ends_if ends_null ends_Some parse_column_ref_ends p paren sign adv) simp_all
qed

text \<open>The operator loop, from a state without error.\<close>

lemma loop_continues:
  assumes IH: "\<And>q. todo q < k \<Longrightarrow> lexed q \<Longrightarrow> \<not> pr_has_error q \<Longrightarrow> expr_ends q"
    and q: "left_at k q"
  shows "ends (\<lambda>n. binary_loop n left q) (\<lambda>q. stuck q \<and> left_at (Suc k) q)"
proof (cases "pr_has_error q")
  case True
  with q show ?thesis by (intro stuck_ends) (auto simp: left_at_def)
next
  case False
  with q IH[of q] have "ends (\<lambda>n. binary_loop n left q) (\<lambda>p. stuck p \<and> left_at (Suc (todo q)) p)"
    "todo q < k" by (auto simp: left_at_def expr_ends_def)
  then show ?thesis by (elim ends_mono) (auto simp: left_at_def)
qed

lemma loop_ends:
  assumes p: "lexed p" "\<not> pr_has_error p"
    and IH: "\<And>q. todo q < todo p \<Longrightarrow> lexed q \<Longrightarrow> \<not> pr_has_error q \<Longrightarrow> expr_ends q"
  shows "ends (\<lambda>n. binary_loop n left p) (\<lambda>q. stuck q \<and> left_at (Suc (todo p)) q)"
proof (cases "stuck p")
  case True
  with p show ?thesis by (intro stuck_ends) (auto simp: left_at_def)
next
  case False
  let ?k = "todo p" and ?p = "parser_advance p"
  have p1: "lexed ?p" "\<not> pr_has_error ?p" "todo ?p < ?k"
    using p loop_not_stuck_cases[OF False] todo_advance[of p] by (simp_all add: lexed_advance)
  have loop: "ends (\<lambda>n. binary_loop n e q) (\<lambda>q. stuck q \<and> left_at (Suc ?k) q)"
    if "left_at ?k q" for e q
    using IH that by (rule loop_continues)
  have bin: "ends (\<lambda>n. parse_binary_expr n q) (\<lambda>r. stuck r \<and> left_at ?k r)"
    if "left_at ?k q" "\<not> pr_has_error q" for q
    using IH[of q] that by (auto simp: expr_ends_def left_at_def elim: ends_mono)
  have lst: "ends (\<lambda>n. expr_list_loop n [] q) (\<lambda>r. stuck r \<and> left_at ?k r)"
    if "left_at ?k q" "\<not> pr_has_error q" for q
  proof -
    have "expr_ends q" "todo q < ?k" using IH[of q] that by (auto simp: left_at_def)
    then have "ends (\<lambda>n. expr_list_loop n [] q) (\<lambda>r. stuck r \<and> left_at (todo q) r)"
      by (simp add: expr_ends_def)
    then show ?thesis by (rule ends_mono) (use \<open>todo q < ?k\<close> in \<open>auto elim: left_at_mono\<close>)
  qed
  have adv: "left_at ?k (parser_advance q)" "\<not> pr_has_error (parser_advance q)"
    if "left_at ?k q" "\<not> pr_has_error q" "tok q \<noteq> TOKEN_EOF" for q
    using that todo_advance[of q] by (auto simp: left_at_def lexed_advance)
  have exp: "left_at ?k (expect_token TOKEN_RPAREN msg q)" if "left_at ?k q" "stuck q \<or> tok q = TOKEN_RPAREN" for msg q
    using that todo_advance[of q]
    by (cases "pr_has_error q"; cases "tok q = TOKEN_RPAREN")
      (auto simp: left_at_def expect_token_def lexed_advance)
  have l1: "left_at ?k ?p" using p1 by (intro left_atI)
  have in1: "left_at ?k (parser_advance ?p)" if "tok ?p = TOKEN_LPAREN"
    using adv(1)[OF l1 p1(2)] that by simp
  have and1: "left_at ?k (parser_advance q)" "\<not> pr_has_error (parser_advance q)"
    if "stuck q \<and> left_at ?k q" "check_keyword ''AND'' q" for q
    using that check_and[of q] by (auto simp: left_at_def stuck_def get_precedence_def)
  show ?thesis
    apply (rule ends_Suc)
    apply (unfold binary_loop.simps Let_def)
    apply (intro ends_if)
    subgoal by (rule ends_nonnull[OF bin[OF l1 p1(2)]], rule loop, simp)
    subgoal using in1 p1(2) by (intro ends_nonnull[OF lst] loop exp) auto
    subgoal using in1 by (intro loop exp) auto
    subgoal by (rule loop, rule l1)
    subgoal
      apply (rule ends_nonnull[OF bin[OF l1 p1(2)]])
      apply (intro ends_if ends_null)
      using and1 by (intro ends_nonnull[OF bin] loop) auto
    subgoal using False by (simp add: stuck_def)
    subgoal by (simp add: get_precedence_def)
    subgoal by (rule ends_null)
    subgoal using False by (simp add: stuck_def)
    subgoal by (rule ends_nonnull[OF bin[OF l1 p1(2)]], rule loop, simp)
    done
qed

lemma not_operand_null:
  assumes "tok p \<notin> {TOKEN_INTEGER, TOKEN_REAL, TOKEN_STRING, TOKEN_NULL, TOKEN_IDENTIFIER,
      TOKEN_LPAREN, TOKEN_MINUS, TOKEN_PLUS, TOKEN_NOT}" "lexed p"
  shows "parse_binary_expr (Suc (Suc (Suc n))) p =
    Some (None, parser_set_error ''Unexpected token in expression'' p)"
  using assms by (simp add: check_not nonnull_def Let_def)

lemma binary_ends:
  assumes p: "lexed p" "\<not> pr_has_error p"
    and IH: "\<And>q. todo q < todo p \<Longrightarrow> lexed q \<Longrightarrow> \<not> pr_has_error q \<Longrightarrow> expr_ends q"
    and un: "ends (\<lambda>n. parse_unary_not n p) (left_at (todo p))"
  shows "ends (\<lambda>n. parse_binary_expr n p) (\<lambda>q. stuck q \<and> left_at (todo p) q)"
proof -
  have loop: "ends (\<lambda>n. if pr_has_error q then Some (Some e, q) else binary_loop n e q)
      (\<lambda>q. stuck q \<and> left_at (todo p) q)" if q: "left_at (todo p) q" for e q
  proof (cases "pr_has_error q")
    case False
    with q IH[of q] have "ends (\<lambda>n. binary_loop n e q) (\<lambda>r. stuck r \<and> left_at (Suc (todo q)) r)"
      "Suc (todo q) \<le> todo p" by (auto simp: expr_ends_def left_at_def)
    with False show ?thesis by (auto elim!: ends_mono left_at_mono)
  qed (use q in \<open>auto simp: left_at_def intro: ends_Some\<close>)
  show ?thesis
    by (rule ends_Suc, unfold parse_binary_expr.simps) (rule ends_nonnull[OF un loop])
qed

lemma expr_list_ends:
  assumes p: "lexed p" "\<not> pr_has_error p"
    and IH: "\<And>q. todo q < todo p \<Longrightarrow> lexed q \<Longrightarrow> \<not> pr_has_error q \<Longrightarrow> expr_ends q"
    and bin: "ends (\<lambda>n. parse_binary_expr n p) (\<lambda>q. stuck q \<and> left_at (todo p) q)"
  shows "ends (\<lambda>n. expr_list_loop n acc p) (\<lambda>q. stuck q \<and> left_at (todo p) q)"
proof -
  have after_comma: "ends (\<lambda>n. expr_list_loop n acc' (parser_advance q)) (\<lambda>q. stuck q \<and> left_at (todo p) q)"
    if q: "left_at (todo p) q" "tok q = TOKEN_COMMA" for acc' q
  proof (cases "pr_has_error q")
    case True
    have "expr_list_loop (Suc (Suc (Suc (Suc n)))) acc' q =
        Some (None, parser_set_error ''Unexpected token in expression'' q)" for n
      using q not_operand_null[of q] by (simp add: left_at_def nonnull_def del: parse_binary_expr.simps)
    then have "ends (\<lambda>n. expr_list_loop n acc' q) (\<lambda>q. stuck q \<and> left_at (todo p) q)"
      by (intro ends_Suc[where g = "\<lambda>n. expr_list_loop n acc' q"]
          ends_Suc[where g = "\<lambda>n. expr_list_loop (Suc n) acc' q"]
          ends_Suc[where g = "\<lambda>n. expr_list_loop (Suc (Suc n)) acc' q"]
          ends_Suc[where g = "\<lambda>n. expr_list_loop (Suc (Suc (Suc n))) acc' q"])
        (simp only: ends_null)
    with True show ?thesis by simp
  next
    case False
    let ?q = "parser_advance q"
    have "todo ?q < todo q" "lexed ?q" "\<not> pr_has_error ?q" "todo q < todo p"
      using q False todo_advance[of q] by (auto simp: left_at_def lexed_advance)
    moreover from this have "ends (\<lambda>n. expr_list_loop n acc' ?q) (\<lambda>r. stuck r \<and> left_at (todo ?q) r)"
      using IH[of ?q] by (simp add: expr_ends_def)
    ultimately show ?thesis by (auto elim!: ends_mono left_at_mono)
  qed
  show ?thesis
    by (rule ends_Suc, unfold expr_list_loop.simps, rule ends_nonnull[OF bin])
      (auto intro!: ends_if after_comma ends_Some)
qed

lemma expr_ends_all: "lexed p \<Longrightarrow> \<not> pr_has_error p \<Longrightarrow> expr_ends p"
proof (induction "todo p" arbitrary: p rule: less_induct)
  case less
  then have IH: "\<And>q. todo q < todo p \<Longrightarrow> lexed q \<Longrightarrow> \<not> pr_has_error q \<Longrightarrow> expr_ends q" by blast
  note ih = less.prems IH
  have lit: "ends (\<lambda>n. parse_literal n p) (left_at (todo p))" by (rule literal_ends[OF ih])
  have un: "ends (\<lambda>n. parse_unary_not n p) (left_at (todo p))"
  proof (rule ends_Suc, unfold parse_unary_not.simps, intro ends_if)
    assume "check_keyword ''NOT'' p"
    then have q: "todo (parser_advance p) < todo p"
      using less.prems todo_advance[of p] by (simp add: check_not)
    then have "ends (\<lambda>n. parse_unary_not n (parser_advance p)) (left_at (todo (parser_advance p)))"
      using IH[of "parser_advance p"] less.prems by (simp add: expr_ends_def lexed_advance)
    then show "ends (\<lambda>n. nonnull (parse_unary_not n (parser_advance p))
        (\<lambda>operand p. Some (Some (EXPR_UNARY (token_code TOKEN_NOT) operand), p))) (left_at (todo p))"
      by (rule ends_nonnull) (use q in \<open>auto intro!: ends_Some elim: left_at_mono\<close>)
  qed (rule lit)
  have bin: "ends (\<lambda>n. parse_binary_expr n p) (\<lambda>q. stuck q \<and> left_at (todo p) q)"
    by (rule binary_ends[OF ih un])
  show ?case
    using lit un bin loop_ends[OF ih] expr_list_ends[OF ih bin] by (simp add: expr_ends_def)
qed

lemma parse_expression_ends:
  "lexed p \<Longrightarrow> \<not> pr_has_error p \<Longrightarrow> ends (\<lambda>n. parse_expression n p) lexed"
  using expr_ends_all[of p]
  by (auto simp: expr_ends_def parse_expression_def left_at_def elim: ends_mono)

section \<open>Queries end\<close>

lemma check_keyword_cases:
  "lexed p \<Longrightarrow> check_keyword ''WHERE'' p \<longleftrightarrow> tok p = TOKEN_WHERE"
  "lexed p \<Longrightarrow> check_keyword ''LIMIT'' p \<longleftrightarrow> tok p = TOKEN_LIMIT"
  "lexed p \<Longrightarrow> check_keyword ''OFFSET'' p \<longleftrightarrow> tok p = TOKEN_OFFSET"
  "lexed p \<Longrightarrow> check_keyword ''AS'' p \<longleftrightarrow> tok p = TOKEN_AS"
  "lexed p \<Longrightarrow> check_keyword ''DISTINCT'' p \<longleftrightarrow> False"
  "lexed p \<Longrightarrow> check_keyword ''TRANSACTION'' p \<longleftrightarrow> False"
  by (auto simp: check_keyword_lexed lookup_keyword_eq keyword_table_def is_lower_def
      keyword_to_token_type_def parser_keywords_def)

lemma ends_shift3:
  assumes "\<And>n. g (Suc (Suc (Suc n))) = Some (None, q)"
  shows "ends g P"
proof -
  have "g n = Some (None, q)" if "3 \<le> n" for n
  proof -
    have "Suc (Suc (Suc (n - 3))) = n" using that by simp
    with assms[of "n - 3"] show ?thesis by simp
  qed
  then have "settles g (None, q)" unfolding settles_def by blast
  then show ?thesis by (auto simp: ends_def)
qed

lemma clause_keyword_null:
  assumes "lexed p" "tok p \<in> {TOKEN_WHERE, TOKEN_LIMIT, TOKEN_OFFSET}"
  shows "ends (\<lambda>n. parse_expression n p) P"
proof -
  have "parse_expression (Suc (Suc (Suc n))) p =
      Some (None, parser_set_error ''Unexpected token in expression'' p)" for n
    using assms unfolding parse_expression_def by (intro not_operand_null) auto
  then show ?thesis by (rule ends_shift3)
qed

lemma clause_expression_ends:
  assumes "lexed p" "kw \<in> {''WHERE'', ''LIMIT'', ''OFFSET''}" "check_keyword kw p"
  shows "ends (\<lambda>n. parse_expression n (parser_advance p)) lexed"
proof (cases "pr_has_error p")
  case True
  have "tok p \<in> {TOKEN_WHERE, TOKEN_LIMIT, TOKEN_OFFSET}"
    using assms by (auto simp: check_keyword_cases)
  with True show ?thesis using clause_keyword_null[OF assms(1)] by simp
next
  case False
  then show ?thesis using assms(1) by (intro parse_expression_ends) (simp_all add: lexed_advance)
qed

lemma optional_clause_ends:
  assumes "lexed p" "kw \<in> {''WHERE'', ''LIMIT'', ''OFFSET''}"
  shows "ends (\<lambda>n. optional_clause kw n p) lexed"
  unfolding optional_clause_def
  by (intro ends_if ends_Some assms) (rule ends_nonnull[OF clause_expression_ends[OF assms] ends_Some])

lemma parse_identifier_lexed: "lexed p \<Longrightarrow> lexed (snd (parse_identifier p))"
  by (simp add: parse_identifier_def lexed_advance)

lemma column_list_error:
  assumes "lexed p" "pr_has_error p"
  shows "ends (\<lambda>n. column_list_loop n acc p) lexed"
proof -
  have "column_list_loop (Suc n) acc p =
      (if tok p = TOKEN_STAR then Some (Some (acc @ [\<lparr>cl_name = ''*'', cl_alias = None\<rparr>]), p)
       else if tok p \<noteq> TOKEN_IDENTIFIER then Some (None, parser_set_error ''Expected identifier'' p)
       else Some (Some (acc @ [\<lparr>cl_name = token_get_text (pr_token p), cl_alias = None\<rparr>]), p))" for n
    using assms check_keyword_cases(4)[OF assms(1)] by (simp add: parse_identifier_def)
  then show ?thesis
    using assms by (intro ends_Suc[where g = "\<lambda>n. column_list_loop n acc p"])
      (simp only:, intro ends_if ends_Some ends_null)
qed

lemma column_list_ends: "lexed p \<Longrightarrow> ends (\<lambda>n. column_list_loop n acc p) lexed"
proof (induction "todo p" arbitrary: p acc rule: less_induct)
  case less
  show ?case
  proof (cases "pr_has_error p \<or> tok p = TOKEN_STAR \<or> tok p \<noteq> TOKEN_IDENTIFIER")
    case True
    then show ?thesis
    proof (elim disjE)
      assume "tok p = TOKEN_STAR"
      with less.prems show ?thesis
        by (intro ends_Suc[where g = "\<lambda>n. column_list_loop n acc p"]) (simp add: lexed_advance ends_Some)
    next
      assume "tok p \<noteq> TOKEN_IDENTIFIER"
      with less.prems show ?thesis
        by (intro ends_Suc[where g = "\<lambda>n. column_list_loop n acc p"], unfold column_list_loop.simps)
          (intro ends_if, simp_all add: lexed_advance parse_identifier_def ends_Some ends_null)
    qed (use less.prems column_list_error in blast)
  next
    case False
    let ?p = "parser_advance p"
    have p1: "lexed ?p" "todo ?p < todo p" "\<not> pr_has_error ?p"
      using False less.prems todo_advance[of p] by (auto simp: lexed_advance)
    define z where "z = (if check_keyword ''AS'' ?p \<or> tok ?p = TOKEN_AS
      then parse_identifier (parser_advance ?p) else (None, ?p))"
    obtain al q where z: "z = (al, q)" by force
    have q: "lexed q" "\<not> pr_has_error q \<Longrightarrow> todo q < todo p"
    proof -
      have "lexed (parser_advance ?p)" using p1 by (simp add: lexed_advance)
      then show "lexed q" using p1 z parse_identifier_lexed[of "parser_advance ?p"]
        by (auto simp: z_def split: if_splits)
      have "todo (parser_advance (parser_advance ?p)) < todo p"
        if "tok ?p \<noteq> TOKEN_EOF" "tok (parser_advance ?p) = TOKEN_IDENTIFIER"
        using p1 that todo_advance[of ?p] todo_advance[of "parser_advance ?p"] by (auto simp: lexed_advance)
      then show "\<not> pr_has_error q \<Longrightarrow> todo q < todo p"
        using z p1 check_keyword_cases(4)[OF p1(1)]
        by (auto simp: z_def parse_identifier_def split: if_splits)
    qed
    have rec: "ends (\<lambda>n. column_list_loop n acc' (parser_advance q)) lexed" if "tok q = TOKEN_COMMA" for acc'
    proof (cases "pr_has_error q")
      case True
      with column_list_error[OF q(1)] show ?thesis by simp
    next
      case no_err: False
      then have "todo (parser_advance q) < todo p"
        using q(2) todo_advance[OF q(1) no_err] that by simp
      then show ?thesis using less.hyps q(1) by (simp add: lexed_advance)
    qed
    let ?acc = "acc @ [\<lparr>cl_name = token_get_text (pr_token p), cl_alias = al\<rparr>]"
    have "column_list_loop (Suc n) acc p = (if tok q = TOKEN_COMMA
        then column_list_loop n ?acc (parser_advance q) else Some (Some ?acc, q))" for n
      using False by (simp add: parse_identifier_def[of p] z_def[symmetric] z)
    then show ?thesis
      by (intro ends_Suc[where g = "\<lambda>n. column_list_loop n acc p"])
        (simp only:, intro ends_if rec ends_Some q(1))
  qed
qed

lemma ends_identifier:
  assumes "lexed p" "\<And>q. lexed q \<Longrightarrow> ends (\<lambda>n. f n q) P" "\<And>x q. lexed q \<Longrightarrow> ends (\<lambda>n. g n x q) P"
  shows "ends (\<lambda>n. case parse_identifier p of (None, q) \<Rightarrow> f n q | (Some x, q) \<Rightarrow> g n x q) P"
  using assms parse_identifier_lexed[OF assms(1)]
  by (cases "parse_identifier p"; cases "fst (parse_identifier p)") auto

lemma order_by_ends: "lexed p \<Longrightarrow> ends (\<lambda>n. order_by_loop n acc p) lexed"
proof (induction "todo p" arbitrary: p acc rule: less_induct)
  case less
  show ?case
  proof (cases "pr_has_error p \<or> tok p \<noteq> TOKEN_IDENTIFIER")
    case True
    have "order_by_loop (Suc n) acc p =
        (if pr_has_error p then Some (if acc = [] then None else Some acc, p)
         else Some (None, parser_set_error ''Expected identifier'' p))" for n
      using True by (auto simp: parse_identifier_def)
    then show ?thesis
      using less.prems by (intro ends_Suc[where g = "\<lambda>n. order_by_loop n acc p"])
        (simp only:, intro ends_if ends_Some ends_null)
  next
    case False
    let ?p = "parser_advance p"
    have p1: "lexed ?p" "todo ?p < todo p" "\<not> pr_has_error ?p"
      using False less.prems todo_advance[of p] by (auto simp: lexed_advance)
    define d where "d = check_keyword ''DESC'' ?p"
    define q where "q = (if d \<or> check_keyword ''ASC'' ?p then parser_advance ?p else ?p)"
    have "tok ?p \<noteq> TOKEN_EOF" if "d \<or> check_keyword ''ASC'' ?p"
      using that by (auto simp: d_def check_keyword_def keyword_to_token_type_def parser_keywords_def)
    then have q: "lexed q" "todo q < todo p" "\<not> pr_has_error q"
      using p1 todo_advance[of ?p] by (auto simp: q_def lexed_advance split: if_splits)
    let ?acc = "acc @ [\<lparr>ob_column_name = token_get_text (pr_token p), ob_descending = d\<rparr>]"
    have rec: "ends (\<lambda>n. order_by_loop n ?acc (parser_advance q)) lexed" if "tok q = TOKEN_COMMA"
      using less.hyps[of "parser_advance q"] q todo_advance[of q] that by (auto simp: lexed_advance)
    have "order_by_loop (Suc n) acc p = (if tok q = TOKEN_COMMA
        then order_by_loop n ?acc (parser_advance q) else Some (Some ?acc, q))" for n
      using False by (simp add: parse_identifier_def[of p] Let_def d_def[symmetric] q_def[symmetric])
    then show ?thesis
      by (intro ends_Suc[where g = "\<lambda>n. order_by_loop n acc p"])
        (simp only:, intro ends_if rec ends_Some q(1))
  qed
qed

lemma order_by_clause_ends: "lexed p \<Longrightarrow> ends (\<lambda>n. order_by_clause n p) lexed"
  unfolding order_by_clause_def parse_order_by_def Let_def
  by (intro ends_if order_by_ends ends_Some lexed_advance)

lemma parse_select_ends: "lexed p \<Longrightarrow> ends (\<lambda>n. parse_select n p) (\<lambda>q. True)"
  unfolding parse_select_def parse_column_list_def Let_def
  by (rule ends_nonnull, rule column_list_ends, simp add: lexed_advance, rule ends_if, rule ends_null,
      rule ends_identifier, erule lexed_advance, rule ends_null,
      (rule ends_nonnull, rule optional_clause_ends order_by_clause_ends, assumption, simp?)+, rule ends_Some, simp)

lemma parse_delete_ends:
  assumes "lexed p"
  shows "ends (\<lambda>n. parse_delete n p) (\<lambda>q. True)"
proof -
  have "lexed (expect_keyword ''FROM'' msg (parser_advance p))" for msg
    using assms(1) by (simp add: expect_keyword_def lexed_advance)
  moreover have "ends (\<lambda>n. nonnull (parse_expression n (parser_advance q)) (\<lambda>e r. Some (Some (f e), g r))) (\<lambda>q. True)"
    if "lexed q" "check_keyword ''WHERE'' q" for q and f :: "AstNode Expression \<Rightarrow> AstNode" and g
    using clause_expression_ends[OF that(1) _ that(2)] by (intro ends_nonnull[of _ lexed] ends_Some) simp_all
  ultimately show ?thesis
    unfolding parse_delete_def by (intro ends_identifier ends_if ends_null) simp_all
qed

section \<open>After an error some calls never end\<close>

lemma error_sign_loops:
  assumes "pr_has_error p" "tok p = TOKEN_MINUS \<or> tok p = TOKEN_PLUS"
  shows "parse_literal n p = None"
  using assms by (induction n) (auto simp: nonnull_def Let_def)

lemma error_not_loops:
  assumes "pr_has_error p" "tok p = TOKEN_NOT"
  shows "parse_unary_not n p = None"
  using assms
  by (induction n) (auto simp: nonnull_def check_keyword_def keyword_to_token_type_def parser_keywords_def)

lemma error_paren_loops:
  assumes "pr_has_error p" "tok p = TOKEN_LPAREN" "lexed p"
  shows "parse_literal n p = None \<and> parse_unary_not n p = None \<and> parse_binary_expr n p = None"
  using assms by (induction n) (auto simp: nonnull_def Let_def check_not)

text \<open>An operand is looked for at a sign, a parenthesis or \<^verbatim>\<open>NOT\<close> after an error.\<close>

lemma error_expression_loops:
  assumes "pr_has_error p" "lexed p" "tok p \<in> {TOKEN_MINUS, TOKEN_PLUS, TOKEN_LPAREN, TOKEN_NOT}"
  shows "parse_binary_expr n p = None"
proof (cases n)
  case (Suc m)
  have "parse_unary_not m p = None"
    using assms error_sign_loops[of p] error_not_loops[of p m] error_paren_loops[of p m]
    by (cases m) (auto simp: check_not)
  with Suc show ?thesis by (simp add: nonnull_def)
qed simp

lemma values_loop_diverges:
  assumes "lexed p" "\<not> pr_has_error p" "tok p \<in> {TOKEN_MINUS, TOKEN_PLUS, TOKEN_NOT}"
  shows "values_loop n acc p = None"
proof (cases n)
  case (Suc m)
  let ?q = "parser_set_error (''Expected '' @ quoted ''('' @ '' before VALUES'') p"
  have "parse_binary_expr k ?q = None" for k
    using assms by (intro error_expression_loops) auto
  then have "expr_list_loop m [] ?q = None" by (cases m) (simp_all add: nonnull_def)
  with assms Suc show ?thesis
    by (auto simp: expect_token_def parse_expression_list_def nonnull_def)
qed simp

lemma set_loop_diverges:
  assumes "lexed p" "\<not> pr_has_error p" "tok p = TOKEN_IDENTIFIER"
    "tok (parser_advance p) \<in> {TOKEN_MINUS, TOKEN_PLUS, TOKEN_LPAREN, TOKEN_NOT}"
  shows "set_loop n acc p = None"
proof (cases n)
  case (Suc m)
  let ?q = "parser_set_error (''Expected '' @ quoted ''='' @ '' in SET clause'') (parser_advance p)"
  have "parse_binary_expr m ?q = None"
    using assms by (intro error_expression_loops) (auto simp: lexed_advance)
  with assms Suc show ?thesis
    by (auto simp: expect_token_def parse_identifier_def parse_expression_def nonnull_def)
qed simp

lemma constraint_loop_diverges:
  assumes "pr_has_error p" "tok p \<in> {TOKEN_NOT, TOKEN_PRIMARY, TOKEN_AUTOINCREMENT}"
  shows "constraint_loop n col p = None"
  using assms
proof (induction n arbitrary: col)
  case (Suc n)
  then show ?case
    by (cases col) (auto simp: Let_def check_keyword_def keyword_to_token_type_def parser_keywords_def)
qed simp

end
