(* ===== verification/Grammar.thy ===== *)
theory Grammar
  imports Parser_Total
begin

text \<open>
  The expressions the parser of \<^verbatim>\<open>src/sql/parser.c\<close> accepts, as a grammar over tokens.  Every
  phrase of the grammar is parsed to its tree, and whatever is parsed without an error is a
  phrase of it.  The grammar shows what the precedence table does not do: a binary operator
  takes everything to its right as its right operand, and \<^verbatim>\<open>BETWEEN\<close> has no phrase at all.
\<close>

section \<open>The grammar\<close>

definition binary_operators :: "TokenType set" where
  "binary_operators = {TOKEN_OR, TOKEN_AND, TOKEN_EQ, TOKEN_NEQ, TOKEN_LT, TOKEN_GT, TOKEN_LTE,
     TOKEN_GTE, TOKEN_LIKE_OP, TOKEN_IN_OP, TOKEN_BETWEEN_OP, TOKEN_PLUS, TOKEN_MINUS, TOKEN_STAR,
     TOKEN_SLASH, TOKEN_PERCENT}"

text \<open>
  \<open>g_tail l e ts\<close>: after the operand \<open>l\<close> the tokens \<open>ts\<close> complete the expression \<open>e\<close>.
\<close>

inductive g_atom :: "AstNode Expression \<Rightarrow> Token list \<Rightarrow> bool"
  and g_unary :: "AstNode Expression \<Rightarrow> Token list \<Rightarrow> bool"
  and g_expr :: "AstNode Expression \<Rightarrow> Token list \<Rightarrow> bool"
  and g_tail :: "AstNode Expression \<Rightarrow> AstNode Expression \<Rightarrow> Token list \<Rightarrow> bool"
  and g_list :: "AstNode Expression list \<Rightarrow> Token list \<Rightarrow> bool"
where
  g_int: "t_type t = TOKEN_INTEGER \<Longrightarrow> g_atom (EXPR_LITERAL_INT (token_int t)) [t]"
| g_float: "t_type t = TOKEN_REAL \<Longrightarrow> g_atom (EXPR_LITERAL_FLOAT (token_float t)) [t]"
| g_string: "t_type t = TOKEN_STRING \<Longrightarrow> g_atom (EXPR_LITERAL_STRING (token_string t)) [t]"
| g_null: "t_type t = TOKEN_NULL \<Longrightarrow> g_atom EXPR_LITERAL_NULL [t]"
| g_column: "t_type t = TOKEN_IDENTIFIER \<Longrightarrow> g_atom (EXPR_COLUMN (- 1) (token_get_text t)) [t]"
| g_qualified: "t_type t = TOKEN_IDENTIFIER \<Longrightarrow> t_type d = TOKEN_DOT \<Longrightarrow> t_type c = TOKEN_IDENTIFIER \<Longrightarrow>
    g_atom (EXPR_COLUMN 0 (token_get_text c)) [t, d, c]"
| g_paren: "g_expr e ts \<Longrightarrow> t_type o1 = TOKEN_LPAREN \<Longrightarrow> t_type o2 = TOKEN_RPAREN \<Longrightarrow>
    g_atom e (o1 # ts @ [o2])"
| g_sign: "g_atom e ts \<Longrightarrow> t_type t = TOKEN_MINUS \<or> t_type t = TOKEN_PLUS \<Longrightarrow>
    g_atom (EXPR_UNARY (token_code (t_type t)) e) (t # ts)"
| g_operand: "g_atom e ts \<Longrightarrow> g_unary e ts"
| g_not: "g_unary e ts \<Longrightarrow> t_type t = TOKEN_NOT \<Longrightarrow>
    g_unary (EXPR_UNARY (token_code TOKEN_NOT) e) (t # ts)"
| g_binary: "g_unary l ts \<Longrightarrow> g_tail l e us \<Longrightarrow> g_expr e (ts @ us)"
| g_stop: "g_tail e e []"
| g_operator: "t_type t \<in> binary_operators \<Longrightarrow> g_expr r us \<Longrightarrow>
    g_tail l (EXPR_BINARY l (token_code (t_type t)) r) (t # us)"
| g_like: "t_type t = TOKEN_LIKE \<Longrightarrow> g_expr r us \<Longrightarrow> g_tail l (EXPR_LIKE l r 0 False) (t # us)"
| g_in: "t_type t = TOKEN_IN \<Longrightarrow> t_type o1 = TOKEN_LPAREN \<Longrightarrow> t_type o2 = TOKEN_RPAREN \<Longrightarrow>
    g_list es us \<Longrightarrow> g_tail (EXPR_IN l es False) e vs \<Longrightarrow> g_tail l e (t # o1 # us @ o2 # vs)"
| g_in_empty: "t_type t = TOKEN_IN \<Longrightarrow> t_type o1 = TOKEN_LPAREN \<Longrightarrow> t_type o2 = TOKEN_RPAREN \<Longrightarrow>
    g_tail (EXPR_IN l [] False) e vs \<Longrightarrow> g_tail l e (t # o1 # o2 # vs)"
| g_in_ignored: "t_type t = TOKEN_IN \<Longrightarrow> g_tail l e us \<Longrightarrow> us = [] \<or> t_type (hd us) \<noteq> TOKEN_LPAREN \<Longrightarrow>
    g_tail l e (t # us)"
| g_last: "g_expr e ts \<Longrightarrow> g_list [e] ts"
| g_more: "g_expr e ts \<Longrightarrow> t_type t = TOKEN_COMMA \<Longrightarrow> g_list es us \<Longrightarrow> g_list (e # es) (ts @ t # us)"

section \<open>Phrases are parsed to their trees\<close>

text \<open>\<open>reads p ts q\<close>: from \<open>p\<close> the parser sees the tokens \<open>ts\<close> and is then at \<open>q\<close>.\<close>

fun reads :: "Parser \<Rightarrow> Token list \<Rightarrow> Parser \<Rightarrow> bool" where
  "reads p [] q \<longleftrightarrow> q = p"
| "reads p (t # ts) q \<longleftrightarrow> pr_token p = t \<and> reads (parser_advance p) ts q"

lemma reads_append: "reads p (ss @ ts) q \<longleftrightarrow> (\<exists>r. reads p ss r \<and> reads r ts q)"
  by (induction ss arbitrary: p) auto

definition fine :: "Parser \<Rightarrow> bool" where
  "fine p \<longleftrightarrow> lexed p \<and> \<not> pr_has_error p"

lemma fine_advance [simp, intro]: "fine p \<Longrightarrow> fine (parser_advance p)"
  by (simp add: fine_def lexed_advance)

lemma fine_reads: "fine p \<Longrightarrow> reads p ss q \<Longrightarrow> fine q"
  by (induction ss arbitrary: p) auto

text \<open>Where an expression may end: at no operator, and not at a dot or a parenthesis.\<close>

definition stops :: "Parser \<Rightarrow> bool" where
  "stops q \<longleftrightarrow> stuck q \<and> tok q \<notin> {TOKEN_DOT, TOKEN_LPAREN}"

lemma settles_nonnull:
  assumes "settles g (Some x, q)" "settles (\<lambda>n. k n x q) r"
  shows "settles (\<lambda>n. nonnull (g n) (k n)) r"
proof -
  obtain M N where "\<forall>n \<ge> M. g n = Some (Some x, q)" "\<forall>n \<ge> N. k n x q = Some r"
    using assms by (auto simp: settles_def)
  then show ?thesis unfolding settles_def by (intro exI[of _ "max M N"]) (simp add: nonnull_def)
qed

lemma settles_const: "settles (\<lambda>n. Some r) r"
  by (simp add: settles_def)

definition operand_starts :: "TokenType set" where
  "operand_starts = {TOKEN_INTEGER, TOKEN_REAL, TOKEN_STRING, TOKEN_NULL, TOKEN_IDENTIFIER, TOKEN_LPAREN,
     TOKEN_MINUS, TOKEN_PLUS}"

lemma g_starts:
  "g_atom e ts \<Longrightarrow> ts \<noteq> [] \<and> t_type (hd ts) \<in> operand_starts"
  "g_unary e ts \<Longrightarrow> ts \<noteq> [] \<and> t_type (hd ts) \<in> insert TOKEN_NOT operand_starts"
  "g_expr e ts \<Longrightarrow> ts \<noteq> [] \<and> t_type (hd ts) \<in> insert TOKEN_NOT operand_starts"
  "g_tail l e ts \<Longrightarrow> ts \<noteq> [] \<longrightarrow> t_type (hd ts) \<in> binary_operators \<union> {TOKEN_LIKE, TOKEN_IN}"
  "g_list es ts \<Longrightarrow> ts \<noteq> [] \<and> t_type (hd ts) \<in> insert TOKEN_NOT operand_starts"
proof (induction rule: g_atom_g_unary_g_expr_g_tail_g_list.inducts)
  case (g_sign e ts t)
  then show ?case by (elim disjE) (simp_all add: operand_starts_def)
qed (simp_all add: operand_starts_def)

lemma reads_hd: "reads p ts q \<Longrightarrow> ts \<noteq> [] \<Longrightarrow> tok p = t_type (hd ts)"
  by (cases ts) (auto simp: tok_def)

lemma operators_not:
  "TOKEN_DOT \<notin> binary_operators" "TOKEN_LPAREN \<notin> binary_operators" "TOKEN_LIKE \<notin> binary_operators"
  "TOKEN_IN \<notin> binary_operators" "TOKEN_BETWEEN \<notin> binary_operators" "TOKEN_IS \<notin> binary_operators"
  "TOKEN_NOT \<notin> binary_operators"
  by (simp_all add: binary_operators_def)

lemma tail_follows:
  assumes "g_tail l e us" "reads r us q" "stops q"
  shows "tok r \<noteq> TOKEN_DOT" "us \<noteq> [] \<or> tok r \<noteq> TOKEN_LPAREN"
proof -
  show "tok r \<noteq> TOKEN_DOT"
  proof (cases us)
    case Nil
    with assms(2,3) show ?thesis by (simp add: stops_def)
  next
    case (Cons t ts)
    then show ?thesis
      using g_starts(4)[OF assms(1)] reads_hd[OF assms(2)] operators_not(1) by auto
  qed
  show "us \<noteq> [] \<or> tok r \<noteq> TOKEN_LPAREN"
    using assms(2,3) by (cases us) (auto simp: stops_def)
qed

lemma operator_precedence: "op \<in> binary_operators \<longleftrightarrow> get_precedence op \<noteq> 0 \<and> op \<noteq> TOKEN_NOT"
  by (simp add: binary_operators_def get_precedence_def)

lemma operator_step:
  assumes "tok p \<in> binary_operators"
  shows "binary_loop (Suc n) l p = nonnull (parse_binary_expr n (parser_advance p))
     (\<lambda>r q. binary_loop n (EXPR_BINARY l (token_code (tok p)) r) q)"
proof -
  have "tok p \<notin> {TOKEN_LIKE, TOKEN_IN, TOKEN_BETWEEN, TOKEN_IS, TOKEN_NOT}" "get_precedence (tok p) \<noteq> 0"
    using assms operators_not operator_precedence[of "tok p"] by auto
  then show ?thesis by (simp add: Let_def)
qed

definition parses_to :: "(nat \<Rightarrow> Parser \<Rightarrow> 'a parse_result) \<Rightarrow> (Parser \<Rightarrow> bool) \<Rightarrow> 'a \<Rightarrow> Token list \<Rightarrow> bool" where
  "parses_to f P x ts \<longleftrightarrow>
     (\<forall>p q. fine p \<longrightarrow> reads p ts q \<longrightarrow> P q \<longrightarrow> settles (\<lambda>n. f n p) (Some x, q))"

lemma parses_toI:
  assumes "\<And>p q. fine p \<Longrightarrow> reads p ts q \<Longrightarrow> P q \<Longrightarrow> settles (\<lambda>n. f (Suc n) p) (Some x, q)"
  shows "parses_to f P x ts"
  using assms by (auto simp: parses_to_def intro: settles_Suc)

lemma parses_toD: "parses_to f P x ts \<Longrightarrow> fine p \<Longrightarrow> reads p ts q \<Longrightarrow> P q \<Longrightarrow> settles (\<lambda>n. f n p) (Some x, q)"
  by (simp add: parses_to_def)

abbreviation not_dot :: "Parser \<Rightarrow> bool" where
  "not_dot q \<equiv> tok q \<noteq> TOKEN_DOT"

abbreviation closes :: "Parser \<Rightarrow> bool" where
  "closes q \<equiv> tok q = TOKEN_RPAREN"

lemma stops_at: "closes q \<Longrightarrow> stops q" "tok q = TOKEN_COMMA \<Longrightarrow> stops q"
  by (simp_all add: stops_def stuck_def get_precedence_def)

lemma fine_not: "fine p \<Longrightarrow> check_keyword ''NOT'' p \<longleftrightarrow> tok p = TOKEN_NOT"
  by (simp add: fine_def check_not)

lemma parses_constant:
  "t_type t = TOKEN_INTEGER \<Longrightarrow> parses_to parse_literal not_dot (EXPR_LITERAL_INT (token_int t)) [t]"
  "t_type t = TOKEN_REAL \<Longrightarrow> parses_to parse_literal not_dot (EXPR_LITERAL_FLOAT (token_float t)) [t]"
  "t_type t = TOKEN_STRING \<Longrightarrow> parses_to parse_literal not_dot (EXPR_LITERAL_STRING (token_string t)) [t]"
  "t_type t = TOKEN_NULL \<Longrightarrow> parses_to parse_literal not_dot EXPR_LITERAL_NULL [t]"
  by (rule parses_toI, simp add: tok_def settles_const)+

lemma parses_column:
  "t_type t = TOKEN_IDENTIFIER \<Longrightarrow>
   parses_to parse_literal not_dot (EXPR_COLUMN (- 1) (token_get_text t)) [t]"
  "t_type t = TOKEN_IDENTIFIER \<Longrightarrow> t_type d = TOKEN_DOT \<Longrightarrow> t_type c = TOKEN_IDENTIFIER \<Longrightarrow>
   parses_to parse_literal not_dot (EXPR_COLUMN 0 (token_get_text c)) [t, d, c]"
  by (rule parses_toI, auto simp: tok_def parse_column_ref_def parse_identifier_def settles_const)+

lemma parses_paren:
  assumes "parses_to parse_binary_expr stops e ts" "t_type o1 = TOKEN_LPAREN" "t_type o2 = TOKEN_RPAREN"
  shows "parses_to parse_literal not_dot e (o1 # ts @ [o2])"
proof (rule parses_toI)
  fix p q assume p: "fine p" "reads p (o1 # ts @ [o2]) q"
  then obtain r where r: "tok p = TOKEN_LPAREN" "reads (parser_advance p) ts r" "closes r" "q = parser_advance r"
    using assms(2,3) by (auto simp: reads_append tok_def)
  then have "settles (\<lambda>n. parse_binary_expr n (parser_advance p)) (Some e, r)"
    using parses_toD[OF assms(1)] p(1) stops_at by simp
  then obtain N where "\<forall>n \<ge> N. parse_binary_expr n (parser_advance p) = Some (Some e, r)"
    by (auto simp: settles_def)
  with r show "settles (\<lambda>n. parse_literal (Suc n) p) (Some e, q)"
    unfolding settles_def by (intro exI[of _ N]) simp
qed

lemma parses_sign:
  assumes "parses_to parse_literal not_dot e ts" "t_type t = TOKEN_MINUS \<or> t_type t = TOKEN_PLUS"
  shows "parses_to parse_literal not_dot (EXPR_UNARY (token_code (t_type t)) e) (t # ts)"
proof (rule parses_toI)
  fix p q assume p: "fine p" "reads p (t # ts) q" "not_dot q"
  with assms(1) have "settles (\<lambda>n. parse_literal n (parser_advance p)) (Some e, q)"
    by (auto intro: parses_toD)
  with p(2) show "settles (\<lambda>n. parse_literal (Suc n) p) (Some (EXPR_UNARY (token_code (t_type t)) e), q)"
    using assms(2)
    by (elim disjE) (simp_all add: tok_def del: token_code.simps, (rule settles_nonnull, assumption, rule settles_const)+)
qed

lemma parses_operand:
  assumes "g_atom e ts" "parses_to parse_literal not_dot e ts"
  shows "parses_to parse_unary_not not_dot e ts"
proof (rule parses_toI)
  fix p q assume p: "fine p" "reads p ts q" "not_dot q"
  have "tok p \<noteq> TOKEN_NOT"
    using g_starts(1)[OF assms(1)] reads_hd[OF p(2)] by (auto simp: operand_starts_def)
  with p assms(2) show "settles (\<lambda>n. parse_unary_not (Suc n) p) (Some e, q)"
    by (simp add: fine_not parses_toD)
qed

lemma parses_not:
  assumes "parses_to parse_unary_not not_dot e ts" "t_type t = TOKEN_NOT"
  shows "parses_to parse_unary_not not_dot (EXPR_UNARY (token_code TOKEN_NOT) e) (t # ts)"
proof (rule parses_toI)
  fix p q assume p: "fine p" "reads p (t # ts) q" "not_dot q"
  then have "settles (\<lambda>n. parse_unary_not n (parser_advance p)) (Some e, q)" "tok p = TOKEN_NOT"
    using parses_toD[OF assms(1)] assms(2) by (auto simp: tok_def)
  with p(1) show "settles (\<lambda>n. parse_unary_not (Suc n) p) (Some (EXPR_UNARY (token_code TOKEN_NOT) e), q)"
    by (simp add: fine_not del: token_code.simps) (rule settles_nonnull, assumption, rule settles_const)
qed

lemma parses_binary:
  assumes "g_tail l e us" "parses_to parse_unary_not not_dot l ts" "parses_to (\<lambda>n. binary_loop n l) stops e us"
  shows "parses_to parse_binary_expr stops e (ts @ us)"
proof (rule parses_toI)
  fix p q assume p: "fine p" "reads p (ts @ us) q" "stops q"
  then obtain r where r: "reads p ts r" "reads r us q" by (auto simp: reads_append)
  then have "fine r" "not_dot r" using p(1,3) fine_reads tail_follows(1)[OF assms(1)] by blast+
  then have "settles (\<lambda>n. parse_unary_not n p) (Some l, r)" "settles (\<lambda>n. binary_loop n l r) (Some e, q)"
    using parses_toD[OF assms(2) p(1) r(1)] parses_toD[OF assms(3) _ r(2) p(3)] by simp_all
  then show "settles (\<lambda>n. parse_binary_expr (Suc n) p) (Some e, q)"
    using \<open>fine r\<close> unfolding parse_binary_expr.simps
    by (intro settles_nonnull[of _ l r]) (simp_all add: fine_def)
qed

lemma settles_stop: "stops q \<Longrightarrow> settles (\<lambda>n. binary_loop n e q) (Some e, q)"
  by (rule settles_Suc) (simp add: stops_def stuck_loop settles_const del: binary_loop.simps)

lemma parses_stop: "parses_to (\<lambda>n. binary_loop n e) stops e []"
  by (simp add: parses_to_def settles_stop)

lemma parses_operator:
  assumes "t_type t \<in> binary_operators" "parses_to parse_binary_expr stops r us"
  shows "parses_to (\<lambda>n. binary_loop n l) stops (EXPR_BINARY l (token_code (t_type t)) r) (t # us)"
proof (rule parses_toI)
  fix p q assume p: "fine p" "reads p (t # us) q" "stops q"
  then have "settles (\<lambda>n. parse_binary_expr n (parser_advance p)) (Some r, q)" "tok p = t_type t"
    using parses_toD[OF assms(2)] by (auto simp: tok_def)
  with assms(1) p(3) show "settles (\<lambda>n. binary_loop (Suc n) l p) (Some (EXPR_BINARY l (token_code (t_type t)) r), q)"
    by (simp add: operator_step del: binary_loop.simps token_code.simps)
      (rule settles_nonnull, assumption, rule settles_stop)
qed

lemma parses_like:
  assumes "parses_to parse_binary_expr stops r us" "t_type t = TOKEN_LIKE"
  shows "parses_to (\<lambda>n. binary_loop n l) stops (EXPR_LIKE l r 0 False) (t # us)"
proof (rule parses_toI)
  fix p q assume p: "fine p" "reads p (t # us) q" "stops q"
  then have "settles (\<lambda>n. parse_binary_expr n (parser_advance p)) (Some r, q)" "tok p = TOKEN_LIKE"
    using parses_toD[OF assms(1)] assms(2) by (auto simp: tok_def)
  with p(3) show "settles (\<lambda>n. binary_loop (Suc n) l p) (Some (EXPR_LIKE l r 0 False), q)"
    by simp (rule settles_nonnull, assumption, rule settles_stop)
qed

lemma in_step:
  assumes "tok p = TOKEN_IN"
  shows "binary_loop (Suc n) l p =
    (let p = parser_advance p in
     if tok p = TOKEN_LPAREN then
       (let p = parser_advance p in
        if tok p \<noteq> TOKEN_RPAREN then
          nonnull (expr_list_loop n [] p)
            (\<lambda>es q. binary_loop n (EXPR_IN l es False)
              (expect_token TOKEN_RPAREN (''Expected '' @ [CHR 0x27] @ '')'' @ [CHR 0x27]) q))
        else binary_loop n (EXPR_IN l [] False)
              (expect_token TOKEN_RPAREN (''Expected '' @ [CHR 0x27] @ '')'' @ [CHR 0x27]) p))
     else binary_loop n l p)"
  using assms by (simp only: binary_loop.simps Let_def) simp

lemma expect_found: "tok p = ty \<Longrightarrow> expect_token ty msg p = parser_advance p"
  by (simp add: expect_token_def)

lemma parses_in:
  assumes "g_list es us" "parses_to (\<lambda>n. expr_list_loop n []) closes es us"
    "parses_to (\<lambda>n. binary_loop n (EXPR_IN l es False)) stops e vs"
    "t_type t = TOKEN_IN" "t_type o1 = TOKEN_LPAREN" "t_type o2 = TOKEN_RPAREN"
  shows "parses_to (\<lambda>n. binary_loop n l) stops e (t # o1 # us @ o2 # vs)"
proof (rule parses_toI)
  fix p q assume p: "fine p" "reads p (t # o1 # us @ o2 # vs) q" "stops q"
  let ?p = "parser_advance (parser_advance p)"
  obtain r where r: "tok p = TOKEN_IN" "tok (parser_advance p) = TOKEN_LPAREN" "reads ?p us r" "closes r"
    "reads (parser_advance r) vs q"
    using p(2) assms(4-6) by (auto simp: reads_append tok_def)
  then have "settles (\<lambda>n. expr_list_loop n [] ?p) (Some es, r)"
    "settles (\<lambda>n. binary_loop n (EXPR_IN l es False) (parser_advance r)) (Some e, q)"
    using parses_toD[OF assms(2) _ r(3)] parses_toD[OF assms(3) _ r(5) p(3)] p(1) fine_reads[OF _ r(3)] by auto
  moreover have "tok ?p \<noteq> TOKEN_RPAREN"
    using g_starts(5)[OF assms(1)] reads_hd[OF r(3)] by (auto simp: operand_starts_def)
  ultimately show "settles (\<lambda>n. binary_loop (Suc n) l p) (Some e, q)"
    unfolding in_step[OF r(1)] Let_def using r(2,4)
    by (simp add: settles_nonnull expect_found del: binary_loop.simps)
qed

lemma parses_in_empty:
  assumes "parses_to (\<lambda>n. binary_loop n (EXPR_IN l [] False)) stops e vs"
    "t_type t = TOKEN_IN" "t_type o1 = TOKEN_LPAREN" "t_type o2 = TOKEN_RPAREN"
  shows "parses_to (\<lambda>n. binary_loop n l) stops e (t # o1 # o2 # vs)"
proof (rule parses_toI)
  fix p q assume p: "fine p" "reads p (t # o1 # o2 # vs) q" "stops q"
  then have "tok p = TOKEN_IN" using assms(2) by (simp add: tok_def)
  with p assms(3,4) parses_toD[OF assms(1)] show "settles (\<lambda>n. binary_loop (Suc n) l p) (Some e, q)"
    by (simp add: in_step Let_def expect_found tok_def del: binary_loop.simps)
qed

lemma parses_in_ignored:
  assumes "g_tail l e us" "parses_to (\<lambda>n. binary_loop n l) stops e us"
    "us = [] \<or> t_type (hd us) \<noteq> TOKEN_LPAREN" "t_type t = TOKEN_IN"
  shows "parses_to (\<lambda>n. binary_loop n l) stops e (t # us)"
proof (rule parses_toI)
  fix p q assume p: "fine p" "reads p (t # us) q" "stops q"
  then have "tok p = TOKEN_IN" "tok (parser_advance p) \<noteq> TOKEN_LPAREN"
    using tail_follows(2)[OF assms(1), of "parser_advance p" q] reads_hd[of "parser_advance p" us q] assms(3,4)
    by (auto simp: tok_def)
  with p parses_toD[OF assms(2)] show "settles (\<lambda>n. binary_loop (Suc n) l p) (Some e, q)"
    by (simp add: in_step Let_def del: binary_loop.simps)
qed

lemma parses_last:
  assumes "parses_to parse_binary_expr stops e ts"
  shows "parses_to (\<lambda>n. expr_list_loop n acc) closes (acc @ [e]) ts"
proof (rule parses_toI)
  fix p q assume p: "fine p" "reads p ts q" "closes q"
  then show "settles (\<lambda>n. expr_list_loop (Suc n) acc p) (Some (acc @ [e]), q)"
    using parses_toD[OF assms p(1,2) stops_at(1)] unfolding expr_list_loop.simps
    by (intro settles_nonnull[of _ e q]) (simp_all add: settles_const)
qed

lemma parses_more:
  assumes "parses_to parse_binary_expr stops e ts" "t_type t = TOKEN_COMMA"
    "\<And>acc. parses_to (\<lambda>n. expr_list_loop n acc) closes (acc @ es) us"
  shows "parses_to (\<lambda>n. expr_list_loop n acc) closes (acc @ e # es) (ts @ t # us)"
proof (rule parses_toI)
  fix p q assume p: "fine p" "reads p (ts @ t # us) q" "closes q"
  then obtain r where r: "reads p ts r" "tok r = TOKEN_COMMA" "reads (parser_advance r) us q"
    using assms(2) by (auto simp: reads_append tok_def)
  then have "settles (\<lambda>n. parse_binary_expr n p) (Some e, r)"
    "settles (\<lambda>n. expr_list_loop n (acc @ [e]) (parser_advance r)) (Some (acc @ e # es), q)"
    using parses_toD[OF assms(1) p(1) r(1) stops_at(2)] parses_toD[OF assms(3)[of "acc @ [e]"] _ r(3)]
      fine_reads[OF p(1) r(1)] p(3) by simp_all
  with r(2) show "settles (\<lambda>n. expr_list_loop (Suc n) acc p) (Some (acc @ e # es), q)"
    unfolding expr_list_loop.simps by (intro settles_nonnull[of _ e r]) simp_all
qed

lemma phrases_parse:
  "g_atom e ts \<Longrightarrow> parses_to parse_literal not_dot e ts"
  "g_unary e ts \<Longrightarrow> parses_to parse_unary_not not_dot e ts"
  "g_expr e ts \<Longrightarrow> parses_to parse_binary_expr stops e ts"
  "g_tail l e ts \<Longrightarrow> parses_to (\<lambda>n. binary_loop n l) stops e ts"
  "g_list es ts \<Longrightarrow> \<forall>acc. parses_to (\<lambda>n. expr_list_loop n acc) closes (acc @ es) ts"
proof (induction rule: g_atom_g_unary_g_expr_g_tail_g_list.inducts)
  case (g_in t o1 o2 es us l e vs)
  then have "parses_to (\<lambda>n. expr_list_loop n []) closes es us" by (metis append_Nil)
  then show ?case using g_in by (intro parses_in)
next
  case (g_more e ts t es us)
  then show ?case by (intro allI parses_more) auto
qed (blast intro: parses_constant parses_column parses_paren parses_sign parses_operand parses_not
    parses_binary parses_stop parses_operator parses_like parses_in_empty parses_in_ignored parses_last)+

section \<open>What is parsed is a phrase\<close>

lemma preach_error: "preach p q \<Longrightarrow> pr_has_error p \<Longrightarrow> pr_has_error q"
  by (induction rule: preach.induct) simp_all

lemma no_error_before:
  assumes "\<not> pr_has_error q"
  shows "binary_loop n l p = Some (x, q) \<Longrightarrow> \<not> pr_has_error p"
    "parse_binary_expr n p = Some (x, q) \<Longrightarrow> \<not> pr_has_error p"
    "expr_list_loop n acc p = Some (y, q) \<Longrightarrow> \<not> pr_has_error p"
  using assms expression_keeps[of n p l acc] preach_error by (auto simp: keeps_def)

lemma nonnull_Some:
  "nonnull r k = Some (Some y, q) \<longleftrightarrow> (\<exists>x p. r = Some (Some x, p) \<and> k x p = Some (Some y, q))"
  by (auto simp: nonnull_def split: option.splits)

lemma stuck_loop_result: "stuck p \<Longrightarrow> binary_loop n l p = Some (x, q) \<Longrightarrow> x = Some l \<and> q = p"
  by (cases n) (simp_all add: stuck_loop del: binary_loop.simps(2))

definition yields :: "(Parser \<Rightarrow> 'a parse_result) \<Rightarrow> ('a \<Rightarrow> Token list \<Rightarrow> bool) \<Rightarrow> bool" where
  "yields f G \<longleftrightarrow> (\<forall>p x q. fine p \<longrightarrow> f p = Some (Some x, q) \<longrightarrow> \<not> pr_has_error q \<longrightarrow>
     (\<exists>ts. G x ts \<and> reads p ts q))"

lemma yieldsI:
  assumes "\<And>p x q. fine p \<Longrightarrow> f p = Some (Some x, q) \<Longrightarrow> \<not> pr_has_error q \<Longrightarrow> \<exists>ts. G x ts \<and> reads p ts q"
  shows "yields f G"
  using assms by (auto simp: yields_def)

lemma yieldsE:
  assumes "yields f G" "fine p" "f p = Some (Some x, q)" "\<not> pr_has_error q"
  obtains ts where "G x ts" "reads p ts q" "fine q"
  using assms fine_reads by (fastforce simp: yields_def)

text \<open>The end of a binary expression is a state where the operator loop is stuck.\<close>

lemma loop_stuck: "binary_loop n l p = Some (Some e, q) \<Longrightarrow> stuck q"
proof (induction n arbitrary: l p)
  case (Suc n)
  then show ?case
    by (simp only: binary_loop.simps Let_def nonnull_Some split: if_splits)
      (auto simp: stuck_def nonnull_Some)
qed simp

lemma expr_stuck:
  assumes "parse_binary_expr n p = Some (Some e, q)" "\<not> pr_has_error q"
  shows "stuck q"
  using assms by (cases n) (auto simp: nonnull_Some split: if_splits dest: loop_stuck)

lemma literal_yields:
  assumes "yields (parse_literal n) g_atom" "yields (parse_binary_expr n) g_expr"
  shows "yields (parse_literal (Suc n)) g_atom"
proof (rule yieldsI)
  fix p e q assume p: "fine p" "parse_literal (Suc n) p = Some (Some e, q)" "\<not> pr_has_error q"
  let ?p = "parser_advance p"
  have sign: "\<exists>ts. g_atom e ts \<and> reads p ts q"
    if s: "tok p = op" "op = TOKEN_MINUS \<or> op = TOKEN_PLUS" "e = EXPR_UNARY (token_code op) x"
      "parse_literal n ?p = Some (Some x, q)" for x op
  proof -
    obtain ts where "g_atom x ts" "reads ?p ts q"
      using yieldsE[OF assms(1) _ s(4) p(3)] p(1) by auto
    then have "g_atom e (pr_token p # ts)" using s g_sign[of x ts "pr_token p"] by (auto simp: tok_def)
    with \<open>reads ?p ts q\<close> show ?thesis by (intro exI[of _ "pr_token p # ts"]) simp
  qed
  have paren: "\<exists>ts. g_atom e ts \<and> reads p ts q"
    if s: "tok p = TOKEN_LPAREN" "parse_binary_expr n ?p = Some (Some e, r)" "closes r" "q = parser_advance r" for r
  proof -
    have "\<not> pr_has_error r" using p(3) s(4) by simp
    then obtain ts where "g_expr e ts" "reads ?p ts r"
      using yieldsE[OF assms(2) _ s(2)] p(1) by auto
    then show ?thesis
      using s g_paren[of e ts "pr_token p" "pr_token r"]
      by (intro exI[of _ "pr_token p # ts @ [pr_token r]"]) (auto simp: tok_def reads_append)
  qed
  have one: "\<exists>ts. g_atom e ts \<and> reads p ts q" if "g_atom e [pr_token p]" "q = ?p"
    using that by (intro exI[of _ "[pr_token p]"]) simp
  have column: "\<exists>ts. g_atom e ts \<and> reads p ts q"
    if "tok p = TOKEN_IDENTIFIER" "parse_column_ref p = (Some e, q)"
  proof (cases "tok ?p = TOKEN_DOT")
    case True
    let ?q = "parser_advance ?p"
    have "g_atom e [pr_token p, pr_token ?p, pr_token ?q]" "q = parser_advance ?q"
      using that True g_qualified[of "pr_token p" "pr_token ?p" "pr_token ?q"]
      by (auto simp: parse_column_ref_def parse_identifier_def tok_def split: if_splits)
    then show ?thesis by (intro exI[of _ "[pr_token p, pr_token ?p, pr_token ?q]"]) simp
  next
    case False
    with that g_column[of "pr_token p"] show ?thesis
      by (intro one) (auto simp: parse_column_ref_def parse_identifier_def tok_def)
  qed
  consider "tok p = TOKEN_INTEGER" | "tok p = TOKEN_REAL" | "tok p = TOKEN_STRING" | "tok p = TOKEN_NULL"
    | "tok p = TOKEN_IDENTIFIER" | "tok p = TOKEN_LPAREN" | "tok p = TOKEN_MINUS" | "tok p = TOKEN_PLUS"
    | "tok p \<notin> operand_starts"
    unfolding operand_starts_def by blast
  then show "\<exists>ts. g_atom e ts \<and> reads p ts q"
  proof cases
    case 1
    with p(2) show ?thesis using g_int[of "pr_token p"] by (intro one) (auto simp: tok_def)
  next
    case 2
    with p(2) show ?thesis using g_float[of "pr_token p"] by (intro one) (auto simp: tok_def)
  next
    case 3
    with p(2) show ?thesis using g_string[of "pr_token p"] by (intro one) (auto simp: tok_def)
  next
    case 4
    with p(2) show ?thesis using g_null[of "pr_token p"] by (intro one) (auto simp: tok_def)
  next
    case 5
    with p(2) show ?thesis by (intro column) auto
  next
    case 6
    with p(2,3) obtain r where "parse_binary_expr n ?p = Some (Some e, r)" "closes r" "q = parser_advance r"
      by (auto split: option.splits if_splits)
    with 6 show ?thesis by (intro paren)
  next
    case 7
    with p(2) obtain x where "parse_literal n ?p = Some (Some x, q)" "e = EXPR_UNARY (token_code TOKEN_MINUS) x"
      by (auto simp: nonnull_Some)
    then show ?thesis using sign[OF 7] by blast
  next
    case 8
    with p(2) obtain x where "parse_literal n ?p = Some (Some x, q)" "e = EXPR_UNARY (token_code TOKEN_PLUS) x"
      by (auto simp: nonnull_Some)
    then show ?thesis using sign[OF 8] by blast
  next
    case 9
    with p(2) show ?thesis by (simp add: operand_starts_def)
  qed
qed

lemma unary_yields:
  assumes "yields (parse_unary_not n) g_unary" "yields (parse_literal n) g_atom"
  shows "yields (parse_unary_not (Suc n)) g_unary"
proof (rule yieldsI)
  fix p e q assume p: "fine p" "parse_unary_not (Suc n) p = Some (Some e, q)" "\<not> pr_has_error q"
  show "\<exists>ts. g_unary e ts \<and> reads p ts q"
  proof (cases "tok p = TOKEN_NOT")
    case True
    with p obtain x where x: "parse_unary_not n (parser_advance p) = Some (Some x, q)"
      "e = EXPR_UNARY (token_code TOKEN_NOT) x"
      by (auto simp: fine_not nonnull_Some)
    with p obtain ts where "g_unary x ts" "reads (parser_advance p) ts q"
      using yieldsE[OF assms(1) _ x(1)] by auto
    with True x(2) g_not[of x ts "pr_token p"] show ?thesis
      by (intro exI[of _ "pr_token p # ts"]) (simp add: tok_def)
  next
    case False
    with p have "parse_literal n p = Some (Some e, q)" by (simp add: fine_not)
    then show ?thesis using p g_operand by (elim yieldsE[OF assms(2), rotated]) blast+
  qed
qed

lemma binary_yields:
  assumes "yields (parse_unary_not n) g_unary" "\<And>l. yields (binary_loop n l) (g_tail l)"
  shows "yields (parse_binary_expr (Suc n)) g_expr"
proof (rule yieldsI)
  fix p e q assume p: "fine p" "parse_binary_expr (Suc n) p = Some (Some e, q)" "\<not> pr_has_error q"
  then obtain l r where l: "parse_unary_not n p = Some (Some l, r)" "binary_loop n l r = Some (Some e, q)"
    "\<not> pr_has_error r"
    using no_error_before(1)[OF p(3)] by (auto simp: nonnull_Some split: if_splits)
  obtain ts where ts: "g_unary l ts" "reads p ts r" "fine r" using assms(1) p(1) l(1,3) by (rule yieldsE)
  obtain us where "g_tail l e us" "reads r us q" using assms(2) ts(3) l(2) p(3) by (rule yieldsE)
  with ts show "\<exists>ts. g_expr e ts \<and> reads p ts q"
    using g_binary[of l ts e us] by (intro exI[of _ "ts @ us"]) (auto simp: reads_append)
qed

lemma list_yields:
  assumes "yields (parse_binary_expr n) g_expr"
    "\<And>acc. yields (expr_list_loop n acc) (\<lambda>xs ts. \<exists>es. xs = acc @ es \<and> g_list es ts)"
  shows "yields (expr_list_loop (Suc n) acc) (\<lambda>xs ts. \<exists>es. xs = acc @ es \<and> g_list es ts)"
proof (rule yieldsI)
  fix p xs q assume p: "fine p" "expr_list_loop (Suc n) acc p = Some (Some xs, q)" "\<not> pr_has_error q"
  then obtain e r where e: "parse_binary_expr n p = Some (Some e, r)"
    "(if tok r = TOKEN_COMMA then expr_list_loop n (acc @ [e]) (parser_advance r)
      else Some (Some (acc @ [e]), r)) = Some (Some xs, q)"
    by (auto simp: nonnull_Some)
  have "\<not> pr_has_error r"
    using e(2) p(3) no_error_before(3)[OF p(3)] by (auto split: if_splits)
  with assms(1) p(1) e(1) obtain ts where ts: "g_expr e ts" "reads p ts r" "fine r" by (rule yieldsE)
  show "\<exists>ts. (\<exists>es. xs = acc @ es \<and> g_list es ts) \<and> reads p ts q"
  proof (cases "tok r = TOKEN_COMMA")
    case True
    with e(2) have "expr_list_loop n (acc @ [e]) (parser_advance r) = Some (Some xs, q)" by simp
    with assms(2) fine_advance[OF ts(3)] obtain us
      where us: "\<exists>es. xs = (acc @ [e]) @ es \<and> g_list es us" "reads (parser_advance r) us q"
      using p(3) by (rule yieldsE)
    then obtain es where "xs = acc @ e # es" "g_list (e # es) (ts @ pr_token r # us)"
      using g_more[OF ts(1), of "pr_token r"] True by (auto simp: tok_def)
    with us(2) ts(2) show ?thesis by (auto simp: reads_append intro!: exI[of _ "ts @ pr_token r # us"])
  next
    case False
    with e(2) ts g_last[OF ts(1)] show ?thesis by auto
  qed
qed

lemma in_yields:
  assumes loop: "\<And>l. yields (binary_loop n l) (g_tail l)" and lst: "yields (expr_list_loop n []) g_list"
    and p: "fine p" "binary_loop (Suc n) l p = Some (Some e, q)" "\<not> pr_has_error q" "tok p = TOKEN_IN"
  shows "\<exists>ts. g_tail l e ts \<and> reads p ts q"
proof -
  let ?p = "parser_advance p" and ?t = "pr_token p"
  let ?q = "parser_advance ?p"
  have f: "fine ?p" "fine ?q" using p(1) by simp_all
  consider (list) es s where "tok ?p = TOKEN_LPAREN" "expr_list_loop n [] ?q = Some (Some es, s)"
      "tok s = TOKEN_RPAREN" "binary_loop n (EXPR_IN l es False) (parser_advance s) = Some (Some e, q)"
    | (empty) "tok ?p = TOKEN_LPAREN" "closes ?q" "binary_loop n (EXPR_IN l [] False) (parser_advance ?q) = Some (Some e, q)"
    | (skip) "tok ?p \<noteq> TOKEN_LPAREN" "binary_loop n l ?p = Some (Some e, q)"
    using p(2) no_error_before(1)[OF p(3)] expect_token_error
    by (fastforce simp: in_step[OF p(4)] Let_def nonnull_Some expect_found simp del: binary_loop.simps
        split: if_splits)
  then show ?thesis
  proof cases
    case list
    then have "\<not> pr_has_error s" using no_error_before(1)[OF p(3)] by fastforce
    with lst f(2) list(2) obtain us where us: "g_list es us" "reads ?q us s" "fine s" by (rule yieldsE)
    obtain vs where "g_tail (EXPR_IN l es False) e vs" "reads (parser_advance s) vs q"
      using loop fine_advance[OF us(3)] list(4) p(3) by (rule yieldsE)
    with us list(1,3) p(4) g_in[of ?t "pr_token ?p" "pr_token s"] show ?thesis
      by (intro exI[of _ "?t # pr_token ?p # us @ pr_token s # vs"]) (auto simp: tok_def reads_append)
  next
    case empty
    obtain vs where "g_tail (EXPR_IN l [] False) e vs" "reads (parser_advance ?q) vs q"
      using loop fine_advance[OF f(2)] empty(3) p(3) by (rule yieldsE)
    with empty(1,2) p(4) g_in_empty[of ?t "pr_token ?p" "pr_token ?q"] show ?thesis
      by (intro exI[of _ "?t # pr_token ?p # pr_token ?q # vs"]) (auto simp: tok_def)
  next
    case skip
    obtain us where us: "g_tail l e us" "reads ?p us q" using loop f(1) skip(2) p(3) by (rule yieldsE)
    then have "us = [] \<or> t_type (hd us) \<noteq> TOKEN_LPAREN" using reads_hd[OF us(2)] skip(1) by auto
    with us p(4) g_in_ignored[of ?t l e us] show ?thesis
      by (intro exI[of _ "?t # us"]) (simp add: tok_def)
  qed
qed

lemma loop_yields:
  assumes bin: "yields (parse_binary_expr n) g_expr" and loop: "\<And>l. yields (binary_loop n l) (g_tail l)"
    and lst: "yields (expr_list_loop n []) g_list"
  shows "yields (binary_loop (Suc n) l) (g_tail l)"
proof (rule yieldsI)
  fix p e q assume p: "fine p" "binary_loop (Suc n) l p = Some (Some e, q)" "\<not> pr_has_error q"
  let ?p = "parser_advance p" and ?t = "pr_token p"
  have right: "\<exists>ts. g_tail l e ts \<and> reads p ts q"
    if s: "parse_binary_expr n ?p = Some (Some r, s)" "binary_loop n (f r) s = Some (Some e, q)"
      "\<And>r us. g_expr r us \<Longrightarrow> g_tail l (f r) (?t # us)" for f r s
  proof -
    have s': "\<not> pr_has_error s" using no_error_before(1)[OF p(3) s(2)] .
    have "e = f r" "q = s" using stuck_loop_result[OF expr_stuck[OF s(1) s'] s(2)] by simp_all
    moreover obtain us where "g_expr r us" "reads ?p us s"
      using bin fine_advance[OF p(1)] s(1) s' by (rule yieldsE)
    ultimately show ?thesis using s(3) by (intro exI[of _ "?t # us"]) simp
  qed
  consider "stuck p" | "tok p = TOKEN_LIKE" | "tok p = TOKEN_IN" | "tok p = TOKEN_BETWEEN"
    | "tok p \<in> binary_operators"
    unfolding stuck_def using operator_precedence[of "tok p"] by blast
  then show "\<exists>ts. g_tail l e ts \<and> reads p ts q"
  proof cases
    case 1
    then have "e = l" "q = p" using stuck_loop_result[OF _ p(2)] by simp_all
    then show ?thesis using g_stop by (intro exI[of _ "[]"]) simp
  next
    case 2
    with p(2) obtain r s where "parse_binary_expr n ?p = Some (Some r, s)"
      "binary_loop n (EXPR_LIKE l r 0 False) s = Some (Some e, q)"
      by (auto simp: nonnull_Some)
    then show ?thesis by (rule right) (use 2 g_like in \<open>simp add: tok_def\<close>)
  next
    case 3
    then show ?thesis using in_yields[OF loop lst p] by blast
  next
    case 4
    with p(2) obtain r s h z where r: "parse_binary_expr n ?p = Some (Some r, s)" "check_keyword ''AND'' s"
      "parse_binary_expr n (parser_advance s) = Some (Some h, z)"
      "binary_loop n (EXPR_BETWEEN l r h False) z = Some (Some e, q)"
      by (auto simp: nonnull_Some split: if_splits)
    then have s: "\<not> pr_has_error s" using no_error_before[OF no_error_before(1)[OF p(3)]] by fastforce
    obtain us where "fine s" using bin fine_advance[OF p(1)] r(1) s by (rule yieldsE)
    then show ?thesis
      using expr_stuck[OF r(1) s] r(2) by (simp add: fine_def check_and stuck_def get_precedence_def)
  next
    case 5
    with p(2) obtain r s where "parse_binary_expr n ?p = Some (Some r, s)"
      "binary_loop n (EXPR_BINARY l (token_code (tok p)) r) s = Some (Some e, q)"
      by (auto simp: operator_step nonnull_Some simp del: binary_loop.simps)
    then show ?thesis by (rule right) (use 5 g_operator[of ?t] in \<open>simp add: tok_def\<close>)
  qed
qed

lemma parsed_phrases:
  "yields (parse_literal n) g_atom \<and> yields (parse_unary_not n) g_unary \<and> yields (parse_binary_expr n) g_expr \<and>
   (\<forall>l. yields (binary_loop n l) (g_tail l)) \<and>
   (\<forall>acc. yields (expr_list_loop n acc) (\<lambda>xs ts. \<exists>es. xs = acc @ es \<and> g_list es ts))"
proof (induction n)
  case (Suc n)
  then have "yields (expr_list_loop n []) g_list" by (elim conjE allE[of _ "[]"]) simp
  with Suc show ?case
    by (intro conjI allI literal_yields unary_yields binary_yields loop_yields list_yields) blast+
qed (simp add: yields_def)

end
