(* ===== verification/Parser_Props.thy ===== *)
theory Parser_Props
  imports Grammar
begin

text \<open>
  Properties of the parser of \<^verbatim>\<open>src/sql/parser.c\<close>: which statements it always finishes parsing,
  which exhaust the stack, the expression grammar it accepts, and the syntax it can never produce.
  Concrete statements are evaluated token by token: \<open>lexer_at\<close> and \<open>parser_at\<close> are the states
  reached inside a one-line statement.
\<close>

section \<open>Evaluating concrete statements\<close>

definition tk :: "TokenType \<Rightarrow> string option \<Rightarrow> int \<Rightarrow> TokenValue \<Rightarrow> Token" where
  "tk ty s c v = \<lparr>t_type = ty, t_lexeme = s, t_lexeme_len = (case s of None \<Rightarrow> 0 | Some u \<Rightarrow> length u),
     t_line = 1, t_column = c, t_value = v\<rparr>"

definition lexer_at :: "string \<Rightarrow> nat \<Rightarrow> int \<Rightarrow> Token \<Rightarrow> Lexer" where
  "lexer_at sql pos col t = \<lparr>l_sql = sql, l_pos = pos, l_line = 1, l_column = col, l_current_token = t,
     l_peek_token = zero_token, l_peeked = False, l_error = [], l_error_line = 0, l_error_column = 0\<rparr>"

definition parser_at :: "Lexer \<Rightarrow> Token \<Rightarrow> Parser" where
  "parser_at lx t = \<lparr>pr_lexer = lx, pr_token = t, pr_has_error = False, pr_error = [], pr_error_line = 0,
     pr_error_column = 0\<rparr>"

lemmas lex_eval = lexer_at_def tk_def lexer_create_def lexer_next_token_def next_token_internal_def
  skip_whitespace_def advance_while.simps current_char_def peek_char_def lex_advance_def is_whitespace_def
  is_identifier_start_def is_identifier_char_def is_alphanumeric_def is_alpha_def is_digit_def
  scan_identifier_def text_from_def get_at_def to_upper_def make_token_def scan_operator_def
  single_char_tokens_def zero_token_def Let_def lookup_keyword_eq keyword_table_def is_lower_def
  scan_number_def scan_fraction_def scan_exponent_def atoll_def dec_val_def digit_val_def

lemma parser_at_simps [simp]:
  "pr_has_error (parser_at lx t) = False" "pr_token (parser_at lx t) = t" "tok (parser_at lx t) = t_type t"
  "t_type (tk ty s c v) = ty" "token_get_text (tk ty (Some u) c v) = u" "t_value (tk ty s c v) = v"
  by (simp_all add: parser_at_def tok_def tk_def token_get_text_def)

lemma adv_at: "lexer_next_token lx = (t', lx') \<Longrightarrow> parser_advance (parser_at lx t) = parser_at lx' t'"
  by (simp add: parser_advance_def parser_at_def)

lemma let_at: "Let (parser_at a b) f = f (parser_at a b)"
  by simp

lemma create_at:
  "lexer_next_token (lexer_at sql 0 1 zero_token) = (t, lx) \<Longrightarrow> sql \<noteq> [] \<Longrightarrow>
   parser_create sql = Some (parser_at lx t)"
  by (simp add: parser_create_def lexer_create_def lexer_at_def parser_at_def)

lemmas parse_eval = let_at adv_at parser_parse_def parse_statement_def parse_create_table_def
  parse_if_not_exists_def parse_identifier_def expect_token_def nonnull_def parse_column_def_def
  parse_column_type_def check_keyword_def keyword_to_token_type_def parser_keywords_def to_upper_def
  expect_keyword_def parse_insert_def parse_update_def parse_transaction_def

definition sql_create :: string where
  "sql_create = ''CREATE TABLE t (a TEXT);''"

lemma sql_create_steps:
  "lexer_next_token (lexer_at sql_create 0 1 zero_token) =
     ((tk TOKEN_CREATE (Some ''CREATE'') 1 NoValue), lexer_at sql_create 6 7 (tk TOKEN_CREATE (Some ''CREATE'') 1 NoValue))"
  "lexer_next_token (lexer_at sql_create 6 7 (tk TOKEN_CREATE (Some ''CREATE'') 1 NoValue)) =
     ((tk TOKEN_TABLE (Some ''TABLE'') 8 NoValue), lexer_at sql_create 12 13 (tk TOKEN_TABLE (Some ''TABLE'') 8 NoValue))"
  "lexer_next_token (lexer_at sql_create 12 13 (tk TOKEN_TABLE (Some ''TABLE'') 8 NoValue)) =
     ((tk TOKEN_IDENTIFIER (Some ''t'') 14 NoValue), lexer_at sql_create 14 15 (tk TOKEN_IDENTIFIER (Some ''t'') 14 NoValue))"
  "lexer_next_token (lexer_at sql_create 14 15 (tk TOKEN_IDENTIFIER (Some ''t'') 14 NoValue)) =
     ((tk TOKEN_LPAREN (Some ''('') 16 NoValue), lexer_at sql_create 16 17 (tk TOKEN_LPAREN (Some ''('') 16 NoValue))"
  "lexer_next_token (lexer_at sql_create 16 17 (tk TOKEN_LPAREN (Some ''('') 16 NoValue)) =
     ((tk TOKEN_IDENTIFIER (Some ''a'') 17 NoValue), lexer_at sql_create 17 18 (tk TOKEN_IDENTIFIER (Some ''a'') 17 NoValue))"
  "lexer_next_token (lexer_at sql_create 17 18 (tk TOKEN_IDENTIFIER (Some ''a'') 17 NoValue)) =
     ((tk TOKEN_TEXT_KW (Some ''TEXT'') 19 NoValue), lexer_at sql_create 22 23 (tk TOKEN_TEXT_KW (Some ''TEXT'') 19 NoValue))"
  "lexer_next_token (lexer_at sql_create 22 23 (tk TOKEN_TEXT_KW (Some ''TEXT'') 19 NoValue)) =
     ((tk TOKEN_RPAREN (Some '')'') 23 NoValue), lexer_at sql_create 23 24 (tk TOKEN_RPAREN (Some '')'') 23 NoValue))"
  "lexer_next_token (lexer_at sql_create 23 24 (tk TOKEN_RPAREN (Some '')'') 23 NoValue)) =
     ((tk TOKEN_SEMICOLON (Some '';'') 24 NoValue), lexer_at sql_create 24 25 (tk TOKEN_SEMICOLON (Some '';'') 24 NoValue))"
  "lexer_next_token (lexer_at sql_create 24 25 (tk TOKEN_SEMICOLON (Some '';'') 24 NoValue)) =
     ((tk TOKEN_EOF None 25 NoValue), lexer_at sql_create 24 25 (tk TOKEN_EOF None 25 NoValue))"
  by (simp_all add: sql_create_def lex_eval)

lemma sql_create_nonempty: "sql_create \<noteq> []"
  by (simp add: sql_create_def)

definition sql_arith :: string where
  "sql_arith = ''20*3+4;''"

lemma sql_arith_steps:
  "lexer_next_token (lexer_at sql_arith 0 1 zero_token) =
     ((tk TOKEN_INTEGER (Some ''20'') (-1) (IntegerValue 20)), lexer_at sql_arith 2 1 (tk TOKEN_INTEGER (Some ''20'') (-1) (IntegerValue 20)))"
  "lexer_next_token (lexer_at sql_arith 2 1 (tk TOKEN_INTEGER (Some ''20'') (-1) (IntegerValue 20))) =
     ((tk TOKEN_STAR (Some ''*'') 1 NoValue), lexer_at sql_arith 3 2 (tk TOKEN_STAR (Some ''*'') 1 NoValue))"
  "lexer_next_token (lexer_at sql_arith 3 2 (tk TOKEN_STAR (Some ''*'') 1 NoValue)) =
     ((tk TOKEN_INTEGER (Some ''3'') 1 (IntegerValue 3)), lexer_at sql_arith 4 2 (tk TOKEN_INTEGER (Some ''3'') 1 (IntegerValue 3)))"
  "lexer_next_token (lexer_at sql_arith 4 2 (tk TOKEN_INTEGER (Some ''3'') 1 (IntegerValue 3))) =
     ((tk TOKEN_PLUS (Some ''+'') 2 NoValue), lexer_at sql_arith 5 3 (tk TOKEN_PLUS (Some ''+'') 2 NoValue))"
  "lexer_next_token (lexer_at sql_arith 5 3 (tk TOKEN_PLUS (Some ''+'') 2 NoValue)) =
     ((tk TOKEN_INTEGER (Some ''4'') 2 (IntegerValue 4)), lexer_at sql_arith 6 3 (tk TOKEN_INTEGER (Some ''4'') 2 (IntegerValue 4)))"
  "lexer_next_token (lexer_at sql_arith 6 3 (tk TOKEN_INTEGER (Some ''4'') 2 (IntegerValue 4))) =
     ((tk TOKEN_SEMICOLON (Some '';'') 3 NoValue), lexer_at sql_arith 7 4 (tk TOKEN_SEMICOLON (Some '';'') 3 NoValue))"
  "lexer_next_token (lexer_at sql_arith 7 4 (tk TOKEN_SEMICOLON (Some '';'') 3 NoValue)) =
     ((tk TOKEN_EOF None 4 NoValue), lexer_at sql_arith 7 4 (tk TOKEN_EOF None 4 NoValue))"
  by (simp_all add: sql_arith_def lex_eval)

lemma sql_arith_nonempty: "sql_arith \<noteq> []"
  by (simp add: sql_arith_def)

definition sql_between :: string where
  "sql_between = ''BETWEEN 1 AND 2;''"

lemma sql_between_steps:
  "lexer_next_token (lexer_at sql_between 0 1 zero_token) =
     ((tk TOKEN_BETWEEN (Some ''BETWEEN'') 1 NoValue), lexer_at sql_between 7 8 (tk TOKEN_BETWEEN (Some ''BETWEEN'') 1 NoValue))"
  "lexer_next_token (lexer_at sql_between 7 8 (tk TOKEN_BETWEEN (Some ''BETWEEN'') 1 NoValue)) =
     ((tk TOKEN_INTEGER (Some ''1'') 8 (IntegerValue 1)), lexer_at sql_between 9 9 (tk TOKEN_INTEGER (Some ''1'') 8 (IntegerValue 1)))"
  "lexer_next_token (lexer_at sql_between 9 9 (tk TOKEN_INTEGER (Some ''1'') 8 (IntegerValue 1))) =
     ((tk TOKEN_AND (Some ''AND'') 10 NoValue), lexer_at sql_between 13 13 (tk TOKEN_AND (Some ''AND'') 10 NoValue))"
  "lexer_next_token (lexer_at sql_between 13 13 (tk TOKEN_AND (Some ''AND'') 10 NoValue)) =
     ((tk TOKEN_INTEGER (Some ''2'') 13 (IntegerValue 2)), lexer_at sql_between 15 14 (tk TOKEN_INTEGER (Some ''2'') 13 (IntegerValue 2)))"
  "lexer_next_token (lexer_at sql_between 15 14 (tk TOKEN_INTEGER (Some ''2'') 13 (IntegerValue 2))) =
     ((tk TOKEN_SEMICOLON (Some '';'') 14 NoValue), lexer_at sql_between 16 15 (tk TOKEN_SEMICOLON (Some '';'') 14 NoValue))"
  "lexer_next_token (lexer_at sql_between 16 15 (tk TOKEN_SEMICOLON (Some '';'') 14 NoValue)) =
     ((tk TOKEN_EOF None 15 NoValue), lexer_at sql_between 16 15 (tk TOKEN_EOF None 15 NoValue))"
  by (simp_all add: sql_between_def lex_eval)

lemma sql_between_nonempty: "sql_between \<noteq> []"
  by (simp add: sql_between_def)

definition sql_insert_minus :: string where
  "sql_insert_minus = ''INSERT INTO t VALUES -1;''"

lemma sql_insert_minus_steps:
  "lexer_next_token (lexer_at sql_insert_minus 0 1 zero_token) =
     ((tk TOKEN_INSERT (Some ''INSERT'') 1 NoValue), lexer_at sql_insert_minus 6 7 (tk TOKEN_INSERT (Some ''INSERT'') 1 NoValue))"
  "lexer_next_token (lexer_at sql_insert_minus 6 7 (tk TOKEN_INSERT (Some ''INSERT'') 1 NoValue)) =
     ((tk TOKEN_INTO (Some ''INTO'') 8 NoValue), lexer_at sql_insert_minus 11 12 (tk TOKEN_INTO (Some ''INTO'') 8 NoValue))"
  "lexer_next_token (lexer_at sql_insert_minus 11 12 (tk TOKEN_INTO (Some ''INTO'') 8 NoValue)) =
     ((tk TOKEN_IDENTIFIER (Some ''t'') 13 NoValue), lexer_at sql_insert_minus 13 14 (tk TOKEN_IDENTIFIER (Some ''t'') 13 NoValue))"
  "lexer_next_token (lexer_at sql_insert_minus 13 14 (tk TOKEN_IDENTIFIER (Some ''t'') 13 NoValue)) =
     ((tk TOKEN_VALUES (Some ''VALUES'') 15 NoValue), lexer_at sql_insert_minus 20 21 (tk TOKEN_VALUES (Some ''VALUES'') 15 NoValue))"
  "lexer_next_token (lexer_at sql_insert_minus 20 21 (tk TOKEN_VALUES (Some ''VALUES'') 15 NoValue)) =
     ((tk TOKEN_MINUS (Some ''-'') 22 NoValue), lexer_at sql_insert_minus 22 23 (tk TOKEN_MINUS (Some ''-'') 22 NoValue))"
  by (simp_all add: sql_insert_minus_def lex_eval)

lemma sql_insert_minus_nonempty: "sql_insert_minus \<noteq> []"
  by (simp add: sql_insert_minus_def)

definition sql_update_paren :: string where
  "sql_update_paren = ''UPDATE t SET a (1);''"

lemma sql_update_paren_steps:
  "lexer_next_token (lexer_at sql_update_paren 0 1 zero_token) =
     ((tk TOKEN_UPDATE (Some ''UPDATE'') 1 NoValue), lexer_at sql_update_paren 6 7 (tk TOKEN_UPDATE (Some ''UPDATE'') 1 NoValue))"
  "lexer_next_token (lexer_at sql_update_paren 6 7 (tk TOKEN_UPDATE (Some ''UPDATE'') 1 NoValue)) =
     ((tk TOKEN_IDENTIFIER (Some ''t'') 8 NoValue), lexer_at sql_update_paren 8 9 (tk TOKEN_IDENTIFIER (Some ''t'') 8 NoValue))"
  "lexer_next_token (lexer_at sql_update_paren 8 9 (tk TOKEN_IDENTIFIER (Some ''t'') 8 NoValue)) =
     ((tk TOKEN_SET (Some ''SET'') 10 NoValue), lexer_at sql_update_paren 12 13 (tk TOKEN_SET (Some ''SET'') 10 NoValue))"
  "lexer_next_token (lexer_at sql_update_paren 12 13 (tk TOKEN_SET (Some ''SET'') 10 NoValue)) =
     ((tk TOKEN_IDENTIFIER (Some ''a'') 14 NoValue), lexer_at sql_update_paren 14 15 (tk TOKEN_IDENTIFIER (Some ''a'') 14 NoValue))"
  "lexer_next_token (lexer_at sql_update_paren 14 15 (tk TOKEN_IDENTIFIER (Some ''a'') 14 NoValue)) =
     ((tk TOKEN_LPAREN (Some ''('') 16 NoValue), lexer_at sql_update_paren 16 17 (tk TOKEN_LPAREN (Some ''('') 16 NoValue))"
  by (simp_all add: sql_update_paren_def lex_eval)

lemma sql_update_paren_nonempty: "sql_update_paren \<noteq> []"
  by (simp add: sql_update_paren_def)

definition sql_default_primary :: string where
  "sql_default_primary = ''CREATE TABLE t (a TEXT DEFAULT PRIMARY);''"

lemma sql_default_primary_steps:
  "lexer_next_token (lexer_at sql_default_primary 0 1 zero_token) =
     ((tk TOKEN_CREATE (Some ''CREATE'') 1 NoValue), lexer_at sql_default_primary 6 7 (tk TOKEN_CREATE (Some ''CREATE'') 1 NoValue))"
  "lexer_next_token (lexer_at sql_default_primary 6 7 (tk TOKEN_CREATE (Some ''CREATE'') 1 NoValue)) =
     ((tk TOKEN_TABLE (Some ''TABLE'') 8 NoValue), lexer_at sql_default_primary 12 13 (tk TOKEN_TABLE (Some ''TABLE'') 8 NoValue))"
  "lexer_next_token (lexer_at sql_default_primary 12 13 (tk TOKEN_TABLE (Some ''TABLE'') 8 NoValue)) =
     ((tk TOKEN_IDENTIFIER (Some ''t'') 14 NoValue), lexer_at sql_default_primary 14 15 (tk TOKEN_IDENTIFIER (Some ''t'') 14 NoValue))"
  "lexer_next_token (lexer_at sql_default_primary 14 15 (tk TOKEN_IDENTIFIER (Some ''t'') 14 NoValue)) =
     ((tk TOKEN_LPAREN (Some ''('') 16 NoValue), lexer_at sql_default_primary 16 17 (tk TOKEN_LPAREN (Some ''('') 16 NoValue))"
  "lexer_next_token (lexer_at sql_default_primary 16 17 (tk TOKEN_LPAREN (Some ''('') 16 NoValue)) =
     ((tk TOKEN_IDENTIFIER (Some ''a'') 17 NoValue), lexer_at sql_default_primary 17 18 (tk TOKEN_IDENTIFIER (Some ''a'') 17 NoValue))"
  "lexer_next_token (lexer_at sql_default_primary 17 18 (tk TOKEN_IDENTIFIER (Some ''a'') 17 NoValue)) =
     ((tk TOKEN_TEXT_KW (Some ''TEXT'') 19 NoValue), lexer_at sql_default_primary 22 23 (tk TOKEN_TEXT_KW (Some ''TEXT'') 19 NoValue))"
  "lexer_next_token (lexer_at sql_default_primary 22 23 (tk TOKEN_TEXT_KW (Some ''TEXT'') 19 NoValue)) =
     ((tk TOKEN_DEFAULT (Some ''DEFAULT'') 24 NoValue), lexer_at sql_default_primary 30 31 (tk TOKEN_DEFAULT (Some ''DEFAULT'') 24 NoValue))"
  "lexer_next_token (lexer_at sql_default_primary 30 31 (tk TOKEN_DEFAULT (Some ''DEFAULT'') 24 NoValue)) =
     ((tk TOKEN_PRIMARY (Some ''PRIMARY'') 32 NoValue), lexer_at sql_default_primary 38 39 (tk TOKEN_PRIMARY (Some ''PRIMARY'') 32 NoValue))"
  by (simp_all add: sql_default_primary_def lex_eval)

lemma sql_default_primary_nonempty: "sql_default_primary \<noteq> []"
  by (simp add: sql_default_primary_def)

definition sql_begin :: string where
  "sql_begin = ''BEGIN TRANSACTION;''"

lemma sql_begin_steps:
  "lexer_next_token (lexer_at sql_begin 0 1 zero_token) =
     ((tk TOKEN_BEGIN (Some ''BEGIN'') 1 NoValue), lexer_at sql_begin 5 6 (tk TOKEN_BEGIN (Some ''BEGIN'') 1 NoValue))"
  "lexer_next_token (lexer_at sql_begin 5 6 (tk TOKEN_BEGIN (Some ''BEGIN'') 1 NoValue)) =
     ((tk TOKEN_TRANSACTION (Some ''TRANSACTION'') 7 NoValue), lexer_at sql_begin 17 18 (tk TOKEN_TRANSACTION (Some ''TRANSACTION'') 7 NoValue))"
  "lexer_next_token (lexer_at sql_begin 17 18 (tk TOKEN_TRANSACTION (Some ''TRANSACTION'') 7 NoValue)) =
     ((tk TOKEN_SEMICOLON (Some '';'') 18 NoValue), lexer_at sql_begin 18 19 (tk TOKEN_SEMICOLON (Some '';'') 18 NoValue))"
  "lexer_next_token (lexer_at sql_begin 18 19 (tk TOKEN_SEMICOLON (Some '';'') 18 NoValue)) =
     ((tk TOKEN_EOF None 19 NoValue), lexer_at sql_begin 18 19 (tk TOKEN_EOF None 19 NoValue))"
  by (simp_all add: sql_begin_def lex_eval)

lemma sql_begin_nonempty: "sql_begin \<noteq> []"
  by (simp add: sql_begin_def)


section \<open>Parsing that ends\<close>

lemma statement_ends:
  assumes "lexed p" "tok p \<notin> {TOKEN_INSERT, TOKEN_UPDATE}"
    "tok p = TOKEN_CREATE \<longrightarrow> tok (parser_advance p) \<noteq> TOKEN_TABLE"
  shows "ends (\<lambda>n. parse_statement n p) (\<lambda>q. True)"
proof -
  have pair: "ends (\<lambda>n. Some z) (\<lambda>q. True)" for z :: "AstNode option \<times> Parser"
    by (cases z) (simp add: ends_Some)
  show ?thesis
    unfolding parse_statement_def Let_def using assms
    by (intro ends_if pair parse_delete_ends parse_select_ends) simp_all
qed

lemma create_lexed:
  assumes "parser_create sql = Some p" "preach p q"
  shows "lexed q"
  using assms lexed_create lexed_preach by blast

lemma parse_settles:
  assumes "parser_create sql = Some p" "tok p \<notin> {TOKEN_INSERT, TOKEN_UPDATE}"
    "tok p = TOKEN_CREATE \<longrightarrow> tok (parser_advance p) \<noteq> TOKEN_TABLE"
  shows "\<exists>N r. \<forall>n \<ge> N. parser_parse n p = Some r"
  using statement_ends[OF lexed_create(1)[OF assms(1)] assms(2,3)] lexed_create(2)[OF assms(1)]
  by (auto simp: parser_parse_def ends_def settles_def)

text \<open>C21: Parsing a query always ends: for every SQL text that does not start an \<^verbatim>\<open>INSERT\<close>, an \<^verbatim>\<open>UPDATE\<close>
  or a \<^verbatim>\<open>CREATE TABLE\<close> there is an amount of fuel from which on \<^verbatim>\<open>parser_parse\<close> returns the same
  result, a tree or an error.\<close>

theorem parse_query_terminates:
  assumes "parser_create sql = Some p" "tok p \<notin> {TOKEN_INSERT, TOKEN_UPDATE}"
    "tok p = TOKEN_CREATE \<longrightarrow> tok (parser_advance p) \<noteq> TOKEN_TABLE"
  shows "\<exists>N r. \<forall>n \<ge> N. parser_parse n p = Some r"
  using parse_settles[OF assms] .

theorem parse_query_terminates_witness:
  "\<exists>N r. \<forall>n \<ge> N. parser_parse n (the (parser_create sql_begin)) = Some r"
proof -
  note p = create_at[OF sql_begin_steps(1) sql_begin_nonempty]
  show ?thesis unfolding p option.sel by (rule parse_query_terminates[OF p]) simp_all
qed

section \<open>Parsing that does not end\<close>

lemma lexed_steps:
  "parser_create sql = Some p \<Longrightarrow> lexed ((parser_advance ^^ k) p)"
  by (induction k) (simp_all add: lexed_create lexed_advance)


lemma expect_advance: "tok p = ty \<Longrightarrow> expect_token ty msg p = parser_advance p"
  by (simp add: expect_token_def)

lemma insert_minus_diverges:
  "parser_parse n (the (parser_create sql_insert_minus)) = None"
proof -
  note c = create_at[OF sql_insert_minus_steps(1) sql_insert_minus_nonempty]
  let ?q = "parser_at (lexer_at sql_insert_minus 22 23 (tk TOKEN_MINUS (Some ''-'') 22 NoValue))
    (tk TOKEN_MINUS (Some ''-'') 22 NoValue)"
  have "lexed ?q"
    using lexed_steps[OF c, of "Suc (Suc (Suc (Suc 0)))"] by (simp add: adv_at sql_insert_minus_steps)
  then have "values_loop n [] ?q = None" by (intro values_loop_diverges) simp_all
  then show ?thesis by (simp add: c sql_insert_minus_steps parse_eval)
qed

lemma update_paren_diverges:
  "parser_parse n (the (parser_create sql_update_paren)) = None"
proof -
  note c = create_at[OF sql_update_paren_steps(1) sql_update_paren_nonempty]
  let ?q = "parser_at (lexer_at sql_update_paren 14 15 (tk TOKEN_IDENTIFIER (Some ''a'') 14 NoValue))
    (tk TOKEN_IDENTIFIER (Some ''a'') 14 NoValue)"
  have "lexed ?q"
    using lexed_steps[OF c, of "Suc (Suc (Suc 0))"] by (simp add: adv_at sql_update_paren_steps)
  then have "set_loop n [] ?q = None"
    by (intro set_loop_diverges) (simp_all add: adv_at sql_update_paren_steps)
  then show ?thesis by (simp add: c sql_update_paren_steps parse_eval)
qed

lemma default_primary_diverges:
  "parser_parse n (the (parser_create sql_default_primary)) = None"
proof -
  note c = create_at[OF sql_default_primary_steps(1) sql_default_primary_nonempty]
  let ?d = "parser_at (lexer_at sql_default_primary 30 31 (tk TOKEN_DEFAULT (Some ''DEFAULT'') 24 NoValue))
    (tk TOKEN_DEFAULT (Some ''DEFAULT'') 24 NoValue)"
  let ?q = "parser_at (lexer_at sql_default_primary 38 39 (tk TOKEN_PRIMARY (Some ''PRIMARY'') 32 NoValue))
    (tk TOKEN_PRIMARY (Some ''PRIMARY'') 32 NoValue)"
  have q: "parser_advance ?d = ?q" by (simp add: adv_at sql_default_primary_steps)
  have l: "lexed ?q"
    using lexed_steps[OF c, of "Suc (Suc (Suc (Suc (Suc (Suc (Suc 0))))))"]
    by (simp add: adv_at sql_default_primary_steps)
  have e: "parse_expression m ?q = None \<or>
      parse_expression m ?q = Some (None, parser_set_error ''Unexpected token in expression'' ?q)" for m
  proof (cases "\<exists>k. m = Suc (Suc (Suc k))")
    case True
    then show ?thesis unfolding parse_expression_def using not_operand_null[OF _ l] by auto
  next
    case False
    then have "m = 0 \<or> m = Suc 0 \<or> m = Suc (Suc 0)" by presburger
    then show ?thesis using l by (auto simp: parse_expression_def nonnull_def check_not)
  qed
  have c1: "constraint_loop m col (parser_set_error msg ?q) = None" for m col msg
    by (rule constraint_loop_diverges) simp_all
  have "constraint_loop m (ColumnDef name ty a b x y) ?d = None" for m name ty a b x y
  proof (cases m)
    case (Suc k)
    then show ?thesis
      using e[of k] q c1 by (elim disjE)
        (simp_all add: check_keyword_def keyword_to_token_type_def parser_keywords_def del: error_advance)
  qed simp
  then have "column_defs_loop m [] (parser_at (lexer_at sql_default_primary 17 18
      (tk TOKEN_IDENTIFIER (Some ''a'') 17 NoValue)) (tk TOKEN_IDENTIFIER (Some ''a'') 17 NoValue)) = None" for m
    by (cases m) (simp_all add: sql_default_primary_steps parse_eval del: constraint_loop.simps)
  then show ?thesis by (simp add: c sql_default_primary_steps parse_eval)
qed

text \<open>C22: Three malformed statements are parsed without end, whatever the fuel: after the missing
  parenthesis, the missing equals sign and the missing default value the parser no longer advances
  and looks for an operand or a constraint at the same token again and again.\<close>

theorem malformed_statements_diverge:
  "parser_parse n (the (parser_create ''INSERT INTO t VALUES -1;'')) = None \<and>
   parser_parse n (the (parser_create ''UPDATE t SET a (1);'')) = None \<and>
   parser_parse n (the (parser_create ''CREATE TABLE t (a TEXT DEFAULT PRIMARY);'')) = None"
  by (intro conjI; rule insert_minus_diverges[unfolded sql_insert_minus_def]
      update_paren_diverges[unfolded sql_update_paren_def] default_primary_diverges[unfolded sql_default_primary_def])

section \<open>The language of expressions\<close>

text \<open>C4: The expression parser accepts exactly the grammar: in any error-free state of the parser of a
  statement, and for an end where no operator, dot or parenthesis follows, an expression is parsed
  without error, with some fuel, iff the tokens read are a phrase of the grammar for that expression.
  In the grammar a binary operator takes all that follows as its right operand, whatever the
  precedence of the operators.\<close>

theorem parse_expression_grammar:
  assumes "parser_create sql = Some p0" "preach p0 p" "\<not> pr_has_error p" "stops q" "\<not> pr_has_error q"
  shows "(\<exists>n. parse_expression n p = Some (Some e, q)) \<longleftrightarrow> (\<exists>ts. g_expr e ts \<and> reads p ts q)"
proof
  have p: "fine p" using create_lexed[OF assms(1,2)] assms(3) by (simp add: fine_def)
  show "\<exists>ts. g_expr e ts \<and> reads p ts q" if "\<exists>n. parse_expression n p = Some (Some e, q)"
    using that parsed_phrases p assms(5) unfolding parse_expression_def yields_def by blast
  show "\<exists>n. parse_expression n p = Some (Some e, q)" if "\<exists>ts. g_expr e ts \<and> reads p ts q"
    using that phrases_parse(3) p assms(4)
    unfolding parses_to_def parse_expression_def settles_def by blast
qed

lemma g_int_tail:
  "t_type t = TOKEN_INTEGER \<Longrightarrow> g_tail (EXPR_LITERAL_INT (token_int t)) e us \<Longrightarrow> g_expr e (t # us)"
  using g_binary[OF g_operand[OF g_int]] by fastforce

text \<open>The tree of \<^verbatim>\<open>20*3+4;\<close>.\<close>

abbreviation arith_tree :: "AstNode Expression" where
  "arith_tree \<equiv> EXPR_BINARY (EXPR_LITERAL_INT 20) (token_code TOKEN_STAR)
     (EXPR_BINARY (EXPR_LITERAL_INT 3) (token_code TOKEN_PLUS) (EXPR_LITERAL_INT 4))"

lemma arith_phrase:
  "\<exists>ts q. g_expr arith_tree ts \<and> reads (the (parser_create sql_arith)) ts q \<and> stops q \<and> \<not> pr_has_error q"
proof -
  note p = create_at[OF sql_arith_steps(1) sql_arith_nonempty]
  let ?n2 = "tk TOKEN_INTEGER (Some ''20'') (- 1) (IntegerValue 20)" and ?st = "tk TOKEN_STAR (Some ''*'') 1 NoValue"
    and ?n3 = "tk TOKEN_INTEGER (Some ''3'') 1 (IntegerValue 3)" and ?pl = "tk TOKEN_PLUS (Some ''+'') 2 NoValue"
    and ?n4 = "tk TOKEN_INTEGER (Some ''4'') 2 (IntegerValue 4)"
  let ?q = "parser_at (lexer_at sql_arith 7 4 (tk TOKEN_SEMICOLON (Some '';'') 3 NoValue))
    (tk TOKEN_SEMICOLON (Some '';'') 3 NoValue)"
  have i: "token_int (tk TOKEN_INTEGER s c (IntegerValue v)) = v" for s c v by (simp add: token_int_def)
  have "g_expr (EXPR_LITERAL_INT 4) [?n4]" using g_int_tail[of ?n4, OF _ g_stop] by (simp add: i)
  then have "g_expr (EXPR_BINARY (EXPR_LITERAL_INT 3) (token_code TOKEN_PLUS) (EXPR_LITERAL_INT 4)) [?n3, ?pl, ?n4]"
    using g_int_tail[of ?n3, OF _ g_operator[of ?pl]] by (simp add: i binary_operators_def)
  then have "g_expr arith_tree [?n2, ?st, ?n3, ?pl, ?n4]"
    using g_int_tail[of ?n2, OF _ g_operator[of ?st]] by (simp add: i binary_operators_def)
  moreover have "reads (the (parser_create sql_arith)) [?n2, ?st, ?n3, ?pl, ?n4] ?q"
    by (simp add: p adv_at sql_arith_steps)
  moreover have "stops ?q" by (simp add: stops_def stuck_def get_precedence_def)
  moreover have "\<not> pr_has_error ?q" by simp
  ultimately show ?thesis by blast
qed

theorem parse_expression_grammar_witness:
  "\<exists>n q. parse_expression n (the (parser_create sql_arith)) =
     Some (Some (EXPR_BINARY (EXPR_LITERAL_INT 20) (token_code TOKEN_STAR)
                  (EXPR_BINARY (EXPR_LITERAL_INT 3) (token_code TOKEN_PLUS) (EXPR_LITERAL_INT 4))), q)"
proof -
  note p = create_at[OF sql_arith_steps(1) sql_arith_nonempty]
  obtain ts q where q: "g_expr arith_tree ts" "reads (the (parser_create sql_arith)) ts q" "stops q" "\<not> pr_has_error q"
    using arith_phrase by blast
  then have "\<exists>n. parse_expression n (the (parser_create sql_arith)) = Some (Some arith_tree, q)"
    unfolding p option.sel by (intro iffD2[OF parse_expression_grammar[OF p preach_refl]]) auto
  then show ?thesis by blast
qed

text \<open>\<^verbatim>\<open>BETWEEN\<close> never parses: the lower bound takes the \<^verbatim>\<open>AND\<close> as its own operator, so from
  any error-free state at \<^verbatim>\<open>BETWEEN\<close> the loop over operators either fails or leaves an error.\<close>

theorem between_never_parses:
  assumes "parser_create sql = Some p0" "preach p0 p" "\<not> pr_has_error p" "tok p = TOKEN_BETWEEN"
    "binary_loop n l p = Some (r, q)"
  shows "r = None \<or> pr_has_error q"
proof (rule ccontr)
  assume "\<not> (r = None \<or> pr_has_error q)"
  then obtain e where e: "binary_loop n l p = Some (Some e, q)" "\<not> pr_has_error q" using assms(5) by auto
  have "fine p" using create_lexed[OF assms(1,2)] assms(3) by (simp add: fine_def)
  then obtain ts where ts: "g_tail l e ts" "reads p ts q"
    using parsed_phrases[of n] e unfolding yields_def by blast
  have "ts \<noteq> []" using ts(2) loop_stuck[OF e(1)] assms(4) by (auto simp: stuck_def)
  then have "t_type (hd ts) = TOKEN_BETWEEN" using reads_hd[OF ts(2)] assms(4) by simp
  with g_starts(4)[OF ts(1)] \<open>ts \<noteq> []\<close> show False using operators_not(5) by auto
qed

theorem between_never_parses_witness:
  "\<exists>n q. binary_loop n EXPR_LITERAL_NULL (the (parser_create sql_between)) = Some (None, q) \<and>
     (None = None \<or> pr_has_error q)"
proof -
  note p = create_at[OF sql_between_steps(1) sql_between_nonempty]
  have *: "\<exists>q. binary_loop (Suc (Suc (Suc (Suc (Suc (Suc (Suc 0))))))) EXPR_LITERAL_NULL
      (the (parser_create sql_between)) = Some (None, q)"
    by (simp add: p sql_between_steps parse_eval get_precedence_def token_int_def)
  then obtain q where q: "binary_loop (Suc (Suc (Suc (Suc (Suc (Suc (Suc 0))))))) EXPR_LITERAL_NULL
      (the (parser_create sql_between)) = Some (None, q)" by blast
  have "None = (None :: AstNode Expression option) \<or> pr_has_error q"
    by (rule between_never_parses[OF p preach_refl _ _ q[unfolded p option.sel]]) simp_all
  with q show ?thesis by blast
qed

section \<open>Syntax the parser never produces\<close>

lemma constraint_loop_type: "constraint_loop n col p = Some (col', q) \<Longrightarrow> cd_type col' = cd_type col"
proof (induction n arbitrary: col p)
  case (Suc n)
  then show ?case by (cases col) (fastforce simp: Let_def split: if_splits option.splits)
qed simp

lemma column_def_type:
  assumes "lexed p" "parse_column_def n p = Some (Some col, q)"
  shows "cd_type col \<noteq> COL_TYPE_INTEGER"
proof -
  have "tok r \<noteq> TOKEN_INTEGER_KW" if "lexed r" for r
    using that by (simp add: lexed_def from_lexer_def tok_def)
  then have "fst (parse_column_type r) \<noteq> COL_TYPE_INTEGER" if "lexed r" for r
    using that by (simp add: parse_column_type_def)
  then show ?thesis
    using assms parse_identifier_lexed[OF assms(1)]
    by (auto simp: parse_column_def_def split: prod.splits option.splits dest!: constraint_loop_type)
      (metis fst_conv snd_conv)
qed

lemma column_defs_type:
  "lexed p \<Longrightarrow> column_defs_loop n acc p = Some (Some cols, q) \<Longrightarrow> COL_TYPE_INTEGER \<notin> cd_type ` set acc \<Longrightarrow>
   COL_TYPE_INTEGER \<notin> cd_type ` set cols"
proof (induction n arbitrary: acc p)
  case (Suc n)
  show ?case
  proof (cases "tok p \<noteq> TOKEN_RPAREN \<and> \<not> pr_has_error p")
    case True
    with Suc.prems obtain col r where r: "parse_column_def n p = Some (Some col, r)"
      "(if tok r = TOKEN_COMMA then column_defs_loop n (acc @ [col]) (parser_advance r)
        else Some (Some (acc @ [col]), r)) = Some (Some cols, q)"
      by (auto simp: nonnull_Some)
    have "lexed r"
      using parse_column_def_keeps[OF preach_refl, of n p] r(1) Suc.prems(1) lexed_preach by (auto simp: keeps_def)
    moreover have "COL_TYPE_INTEGER \<notin> cd_type ` set (acc @ [col])"
      using column_def_type[OF Suc.prems(1) r(1)] Suc.prems(3) by auto
    ultimately show ?thesis
      using r(2) Suc.IH[of "parser_advance r" "acc @ [col]"] by (auto simp: lexed_advance split: if_splits)
  next
    case False
    with Suc.prems show ?thesis by auto
  qed
qed simp

lemma select_not_distinct:
  assumes "lexed p" "parse_select n p = Some (Some a, q)"
  shows "\<exists>columns tab cond ord lim ofs. a = AST_SELECT columns False tab cond ord lim ofs"
  using assms check_keyword_cases(5)[OF lexed_advance[OF assms(1)]]
  by (auto simp: parse_select_def Let_def nonnull_Some split: if_splits option.splits prod.splits)

lemma create_table_types:
  assumes "lexed p" "parse_create_table n p = Some (Some a, q)"
  shows "\<exists>tab ine cols. a = AST_CREATE_TABLE tab ine cols \<and> COL_TYPE_INTEGER \<notin> cd_type ` set cols"
proof -
  have l: "lexed (snd (parse_if_not_exists p))"
    using assms(1) by (simp add: parse_if_not_exists_def Let_def lexed_advance)
  have e: "lexed (expect_token TOKEN_LPAREN msg (snd (parse_identifier (snd (parse_if_not_exists p)))))" for msg
    using l by (simp add: lexed_expect parse_identifier_lexed)
  show ?thesis
    using assms(2) e column_defs_type[where acc = "[]"]
    by (fastforce simp: parse_create_table_def Let_def nonnull_Some split: option.splits prod.splits)
qed

lemma other_statements:
  "parse_create_index p = (Some a, q) \<Longrightarrow> \<exists>i t c u. a = AST_CREATE_INDEX i t c u"
  "parse_drop_table p = (Some a, q) \<Longrightarrow> \<exists>t e. a = AST_DROP_TABLE t e"
  "parse_drop_index p = (Some a, q) \<Longrightarrow> \<exists>i. a = AST_DROP_INDEX i"
  "parse_transaction p = (Some a, q) \<Longrightarrow> \<exists>t. a = AST_TRANSACTION t"
  "parse_insert n p = Some (Some a, q) \<Longrightarrow> \<exists>t cs vs. a = AST_INSERT t cs vs"
  "parse_update n p = Some (Some a, q) \<Longrightarrow> \<exists>t cs c. a = AST_UPDATE t cs c"
  "parse_delete n p = Some (Some a, q) \<Longrightarrow> \<exists>t c. a = AST_DELETE t c"
       apply (auto simp: parse_create_index_def Let_def split: prod.splits option.splits if_splits)[1]
      apply (auto simp: parse_drop_table_def Let_def split: prod.splits option.splits if_splits)[1]
     apply (auto simp: parse_drop_index_def split: prod.splits option.splits)[1]
    apply (auto simp: parse_transaction_def Let_def split: if_splits)[1]
   apply (auto simp: parse_insert_def nonnull_Some split: prod.splits option.splits)[1]
  apply (auto simp: parse_update_def nonnull_Some split: prod.splits option.splits if_splits)[1]
  apply (auto simp: parse_delete_def nonnull_Some split: prod.splits option.splits if_splits)[1]
  done

text \<open>C23: For every SQL text and any fuel, a parsed \<^verbatim>\<open>CREATE TABLE\<close> has no \<^verbatim>\<open>INTEGER\<close> column and a
  parsed \<^verbatim>\<open>SELECT\<close> is never \<^verbatim>\<open>DISTINCT\<close>: the lexer gives both words token types that the parser
  does not look for.\<close>

theorem parse_no_integer_no_distinct:
  assumes "parser_create sql = Some p" "parser_parse n p = Some (Some a, q)"
  shows "(\<forall>tab ine cols. a = AST_CREATE_TABLE tab ine cols \<longrightarrow> COL_TYPE_INTEGER \<notin> cd_type ` set cols) \<and>
    (\<forall>columns d tab cond ord lim ofs. a = AST_SELECT columns d tab cond ord lim ofs \<longrightarrow> \<not> d)"
proof -
  have l: "lexed p" "lexed (parser_advance p)" "lexed (parser_advance (parser_advance p))"
    using lexed_create(1)[OF assms(1)] by (simp_all add: lexed_advance)
  have "parse_statement n p = Some (Some a, q)"
    using assms(2) by (simp add: parser_parse_def split: if_splits)
  then show ?thesis
    by (auto simp: parse_statement_def Let_def split: if_splits
        dest!: other_statements create_table_types[OF l(3)] select_not_distinct[OF l(1)])
qed

theorem parse_no_integer_no_distinct_witness:
  "\<exists>q tab ine cols. parser_parse (Suc (Suc (Suc (Suc 0)))) (the (parser_create sql_create)) =
     Some (Some (AST_CREATE_TABLE tab ine cols), q) \<and> COL_TYPE_INTEGER \<notin> cd_type ` set cols"
proof -
  note p = create_at[OF sql_create_steps(1) sql_create_nonempty]
  have "\<exists>q. parser_parse (Suc (Suc (Suc (Suc 0)))) (the (parser_create sql_create)) =
      Some (Some (AST_CREATE_TABLE ''t'' False [ColumnDef ''a'' COL_TYPE_TEXT False False False None]), q)"
    by (simp add: p sql_create_steps parse_eval)
  then obtain q where q: "parser_parse (Suc (Suc (Suc (Suc 0)))) (the (parser_create sql_create)) =
      Some (Some (AST_CREATE_TABLE ''t'' False [ColumnDef ''a'' COL_TYPE_TEXT False False False None]), q)"
    by blast
  have "COL_TYPE_INTEGER \<notin> cd_type ` set [ColumnDef ''a'' COL_TYPE_TEXT False False False None :: AstNode ColumnDef]"
    by (rule parse_no_integer_no_distinct[OF p q[unfolded p option.sel], THEN conjunct1, rule_format, OF refl])
  with q show ?thesis by (intro exI conjI)
qed

end
