(* ===== verification/Server.thy ===== *)
theory Server
  imports Parser_Props
begin

text \<open>
  The server loop of \<^verbatim>\<open>src/server/server.c\<close>.  A client is the list of the chunks that \<^verbatim>\<open>read\<close> delivers
  for its connection, at most \<^verbatim>\<open>SERVER_BUFFER_SIZE - 1\<close> characters each; a reply is the text
  written back.  What \<^verbatim>\<open>select\<close> and \<^verbatim>\<open>accept\<close> report is a list of events.  The fuel is that of the parser: \<open>None\<close> means that the parser
  has not come to an end.  Creating directories, sockets and files is not modelled.
\<close>

section \<open>One request\<close>

definition SERVER_BUFFER_SIZE :: nat where
  "SERVER_BUFFER_SIZE = 8192"

definition trim_end :: "string \<Rightarrow> string" where
  "trim_end sql = rev (dropWhile (\<lambda>c. c \<in> {CHR 0x0A, CHR 0x0D, CHR '' ''}) (rev sql))"

definition is_ddl :: "AstNode \<Rightarrow> bool" where
  "is_ddl ast = (case ast of AST_CREATE_TABLE _ _ _ \<Rightarrow> True | AST_DROP_TABLE _ _ \<Rightarrow> True
     | AST_CREATE_INDEX _ _ _ _ \<Rightarrow> True | AST_DROP_INDEX _ \<Rightarrow> True | _ \<Rightarrow> False)"

text \<open>The text of \<^verbatim>\<open>parser_error\<close> as \<^verbatim>\<open>snprintf\<close> prints it; without an error it is a \<^verbatim>\<open>NULL\<close> pointer.\<close>

definition error_text :: "Parser \<Rightarrow> string" where
  "error_text p = (case parser_error p of None \<Rightarrow> ''(null)'' | Some msg \<Rightarrow> msg)"

definition server_query :: "nat \<Rightarrow> string \<Rightarrow> string option" where
  "server_query n sql =
     (if sql = [] then Some (''ERROR empty query'' @ [CHR 0x0A])
      else case parser_create sql of
        None \<Rightarrow> Some (''ERROR failed to create parser'' @ [CHR 0x0A])
      | Some parser \<Rightarrow>
          (case parser_parse n parser of
             None \<Rightarrow> None
           | Some (None, p) \<Rightarrow> Some (take 255 (''ERROR parse error: '' @ error_text p @ [CHR 0x0A]))
           | Some (Some ast, p) \<Rightarrow>
               Some (if is_ddl ast then ''Query OK'' @ [CHR 0x0A] else ''OK 0 rows'' @ [CHR 0x0A])))"

text \<open>The reply to one chunk, and whether the server is to shut down.\<close>

definition server_request :: "nat \<Rightarrow> string \<Rightarrow> (string \<times> bool) option" where
  "server_request n buffer =
     (if take 4 buffer = ''PING'' then Some (''PONG'' @ [CHR 0x0A], False)
      else if take 8 buffer = ''SHUTDOWN'' then Some (''OK shutdown'' @ [CHR 0x0A], True)
      else if take 6 buffer = ''QUERY:'' then
        map_option (\<lambda>reply. (reply, False)) (server_query n (trim_end (drop 6 buffer)))
      else Some (''ERROR unknown command'' @ [CHR 0x0A], False))"

section \<open>Connections\<close>

fun server_handle_client :: "nat \<Rightarrow> string list \<Rightarrow> (string list \<times> bool) option" where
  "server_handle_client n [] = Some ([], False)"
| "server_handle_client n (buffer # chunks) =
     (if buffer = [] then Some ([], False)
      else case server_request n buffer of
        None \<Rightarrow> None
      | Some (reply, True) \<Rightarrow> Some ([reply], True)
      | Some (reply, False) \<Rightarrow>
          map_option (\<lambda>(replies, down). (reply # replies, down)) (server_handle_client n chunks))"

record Server =
  server_fd :: int
  socket_path :: string
  pid_file :: string
  lock_file :: string
  running :: bool
  client_count :: int

definition server_init :: Server where
  "server_init =
     \<lparr>server_fd = - 1, socket_path = ''/run/tinydb/tinydb.sock'', pid_file = ''/run/tinydb/tinydb.pid'',
      lock_file = ''/run/tinydb/tinydb.lock'', running = False, client_count = 0\<rparr>"

definition server_signal_handler :: "Server \<Rightarrow> Server" where
  "server_signal_handler srv = srv\<lparr>running := False\<rparr>"

text \<open>What one turn of the loop of \<^verbatim>\<open>server_run\<close> meets.\<close>

datatype event =
    SelectTimeout
  | SelectInterrupted bool
  | SelectFailed
  | AcceptFailed
  | ClientConnected "string list"

text \<open>
  The flag of \<^verbatim>\<open>SelectInterrupted\<close> says whether the interruption was a signal for the handler.  The replies
  of the clients are collected in order.
\<close>

fun serve :: "nat \<Rightarrow> event list \<Rightarrow> Server \<Rightarrow> (string list list \<times> Server) option" where
  "serve n [] srv = Some ([], srv)"
| "serve n (ev # evs) srv =
     (if \<not> running srv then Some ([], srv)
      else case ev of
        SelectTimeout \<Rightarrow> serve n evs srv
      | SelectInterrupted sig \<Rightarrow> serve n evs (if sig then server_signal_handler srv else srv)
      | SelectFailed \<Rightarrow> Some ([], srv)
      | AcceptFailed \<Rightarrow> serve n evs srv
      | ClientConnected chunks \<Rightarrow>
          let srv = srv\<lparr>client_count := client_count srv + 1\<rparr> in
          (case server_handle_client n chunks of
             None \<Rightarrow> None
           | Some (replies, down) \<Rightarrow>
               if down then Some ([replies], srv\<lparr>running := False\<rparr>)
               else map_option (\<lambda>(rs, srv). (replies # rs, srv)) (serve n evs srv)))"

definition server_run :: "nat \<Rightarrow> event list \<Rightarrow> Server \<Rightarrow> (string list list \<times> Server) option" where
  "server_run n evs srv = serve n evs (srv\<lparr>running := True\<rparr>)"

section \<open>What clients are told\<close>

text \<open>A chunk whose statement, if it carries one, is not of a kind on which the parser may run forever.\<close>

definition answerable :: "string \<Rightarrow> bool" where
  "answerable buffer \<longleftrightarrow>
     (take 6 buffer = ''QUERY:'' \<longrightarrow>
        (\<forall>p. parser_create (trim_end (drop 6 buffer)) = Some p \<longrightarrow>
           tok p \<notin> {TOKEN_INSERT, TOKEN_UPDATE} \<and>
           (tok p = TOKEN_CREATE \<longrightarrow> tok (parser_advance p) \<noteq> TOKEN_TABLE)))"






lemma begin_request:
  "answerable (''QUERY:BEGIN TRANSACTION;'' @ [CHR 0x0A])"
  "server_request n (''QUERY:BEGIN TRANSACTION;'' @ [CHR 0x0A]) = Some (''OK 0 rows'' @ [CHR 0x0A], False)"
  "\<exists>p. parser_parse n (the (parser_create sql_begin)) = Some (Some (AST_TRANSACTION TX_BEGIN), p) \<and> pr_has_error p"
proof -
  note c = create_at[OF sql_begin_steps(1) sql_begin_nonempty]
  show p: "\<exists>p. parser_parse n (the (parser_create sql_begin)) = Some (Some (AST_TRANSACTION TX_BEGIN), p) \<and> pr_has_error p"
    by (simp add: c sql_begin_steps parse_eval)
  have t: "trim_end (''BEGIN TRANSACTION;'' @ [CHR 0x0A]) = sql_begin"
    by (simp add: trim_end_def sql_begin_def)
  then have "server_request n (''QUERY:BEGIN TRANSACTION;'' @ [CHR 0x0A]) = map_option (\<lambda>r. (r, False)) (server_query n sql_begin)"
    by (simp add: server_request_def)
  moreover have "server_query n sql_begin = Some (''OK 0 rows'' @ [CHR 0x0A])"
    using p by (auto simp: server_query_def sql_begin_nonempty c is_ddl_def)
  ultimately show "server_request n (''QUERY:BEGIN TRANSACTION;'' @ [CHR 0x0A]) = Some (''OK 0 rows'' @ [CHR 0x0A], False)" by simp
  have "drop 6 (''QUERY:BEGIN TRANSACTION;'' @ [CHR 0x0A]) = ''BEGIN TRANSACTION;'' @ [CHR 0x0A]" by simp
  then show "answerable (''QUERY:BEGIN TRANSACTION;'' @ [CHR 0x0A])"
    unfolding answerable_def using c t by simp
qed


text \<open>C28: Once a client has sent one of these statements the server answers nobody any more: for every
  amount of fuel the run has no result, whatever happens later.\<close>

theorem query_hangs_server:
  "server_run n (ClientConnected [''QUERY:INSERT INTO t VALUES -1;'' @ [CHR 0x0A]] # evs) server_init = None"
proof -
  have "trim_end (''INSERT INTO t VALUES -1;'' @ [CHR 0x0A]) = sql_insert_minus"
    by (simp add: trim_end_def sql_insert_minus_def)
  then have "server_request n (''QUERY:INSERT INTO t VALUES -1;'' @ [CHR 0x0A]) = map_option (\<lambda>r. (r, False)) (server_query n sql_insert_minus)"
    by (simp add: server_request_def)
  moreover have "server_query n sql_insert_minus = None"
    using insert_minus_diverges[of n] create_at[OF sql_insert_minus_steps(1) sql_insert_minus_nonempty]
    by (simp add: server_query_def sql_insert_minus_nonempty)
  ultimately show ?thesis by (simp add: server_run_def)
qed

text \<open>A statement with a syntax error may be reported as executed: for \<^verbatim>\<open>BEGIN TRANSACTION;\<close> the
  parser records an error but returns a tree, and the server answers \<^verbatim>\<open>OK\<close>.\<close>

theorem syntax_error_answered_ok:
  "server_request n (''QUERY:BEGIN TRANSACTION;'' @ [CHR 0x0A]) = Some (''OK 0 rows'' @ [CHR 0x0A], False) \<and>
   (\<exists>ast p. parser_parse n (the (parser_create ''BEGIN TRANSACTION;'')) = Some (Some ast, p) \<and> pr_has_error p)"
  using begin_request(2,3)[of n] unfolding sql_begin_def by auto

end
