(* ===== verification/Cli.thy ===== *)
theory Cli
  imports Security
begin

text \<open>
  The command line client, \<^verbatim>\<open>src/cli/cli.c\<close>.  A session carries the client's record, the chunks that
  \<^verbatim>\<open>read\<close> will deliver from the socket, what was printed, and the shell commands that were run.  Three
  arguments stand for the outside: which socket paths accept a connection (\<open>reach\<close>), what the peer
  sends back for a request (\<open>peer\<close>, \<open>None\<close> when the write fails or is short), and the contents of files
  (\<open>files\<close>).  A
  pointer to a local array that has gone out of scope is \<open>None\<close>.
\<close>

section \<open>State\<close>

datatype OutputMode = OUTPUT_MODE_BOX | OUTPUT_MODE_CSV | OUTPUT_MODE_LINE | OUTPUT_MODE_LIST

record CLI =
  socket_fd :: int
  connected :: bool
  mode :: OutputMode
  show_headers :: bool
  show_timer :: bool
  null_string :: "string option"
  pager_enabled :: bool
  pager_cmd :: "string option"
  verbose :: bool
  quiet :: bool
  executed_command :: bool

record Session =
  ses_cli :: CLI
  ses_inbox :: "string list"
  ses_out :: string
  ses_err :: string
  ses_shell :: "string list"

definition CLI_DEFAULT_SOCKET :: string where
  "CLI_DEFAULT_SOCKET = ''/run/tinydb/tinydb.sock''"

definition CLI_MAX_LINE :: nat where
  "CLI_MAX_LINE = 4096"

abbreviation nl :: string where
  "nl \<equiv> [CHR 0x0A]"

definition cli_init :: CLI where
  "cli_init = \<lparr>socket_fd = - 1, connected = False, mode = OUTPUT_MODE_BOX, show_headers = True,
     show_timer = False, null_string = Some [], pager_enabled = True, pager_cmd = Some ''less -R'',
     verbose = False, quiet = False, executed_command = False\<rparr>"

definition print :: "string \<Rightarrow> Session \<Rightarrow> Session" where
  "print s ses = ses\<lparr>ses_out := ses_out ses @ s\<rparr>"

definition print_err :: "string \<Rightarrow> Session \<Rightarrow> Session" where
  "print_err s ses = ses\<lparr>ses_err := ses_err ses @ s\<rparr>"

section \<open>Connection\<close>

text \<open>
  \<^verbatim>\<open>cli_connect\<close>; the descriptor of a new connection is written as 3.  The path is copied into the 108
  bytes of a socket address without a check of its length.
\<close>

definition cli_connect :: "(string \<Rightarrow> bool) \<Rightarrow> string option \<Rightarrow> Session \<Rightarrow> (int \<times> Session) comp" where
  "cli_connect reach path ses =
     (let path = (case path of None \<Rightarrow> CLI_DEFAULT_SOCKET | Some s \<Rightarrow> s) in
      if 108 \<le> length path then undef
      else if reach path
      then ret (0, ses\<lparr>ses_cli := (ses_cli ses)\<lparr>socket_fd := 3, connected := True\<rparr>, ses_inbox := []\<rparr>)
      else ret (- 1, ses))"

definition cli_disconnect :: "Session \<Rightarrow> Session" where
  "cli_disconnect ses =
     ses\<lparr>ses_cli := (ses_cli ses)\<lparr>socket_fd := - 1, connected := False\<rparr>, ses_inbox := []\<rparr>"

section \<open>C strings\<close>

definition cstr :: "string \<Rightarrow> string" where
  "cstr s = takeWhile (\<lambda>c. c \<noteq> NUL) s"

definition chomp :: "string \<Rightarrow> string" where
  "chomp s = rev (dropWhile (\<lambda>c. c = CHR 0x0A \<or> c = CHR 0x0D) (rev s))"

fun strstr :: "string \<Rightarrow> string \<Rightarrow> bool" where
  "strstr [] pat = (pat = [])"
| "strstr (c # s) pat = (take (length pat) (c # s) = pat \<or> strstr s pat)"

text \<open>\<^verbatim>\<open>sscanf("%d")\<close>: the number is read as a \<^verbatim>\<open>long\<close>, which saturates, and stored in 32 bits.\<close>

definition scan_int :: "string \<Rightarrow> int option" where
  "scan_int s =
     (let r = dropWhile isspace s;
          neg = (r \<noteq> [] \<and> hd r = CHR ''-'');
          ds = takeWhile is_digit (if r \<noteq> [] \<and> (hd r = CHR ''-'' \<or> hd r = CHR ''+'') then tl r else r) in
      if ds = [] then None
      else let v = (if neg then - int (dec_val ds) else int (dec_val ds));
               v = max (- (2 ^ 63)) (min (2 ^ 63 - 1) v)
           in Some (sint (word_of_int v :: 32 word)))"

definition scan_word :: "nat \<Rightarrow> string \<Rightarrow> string" where
  "scan_word k s = take k (takeWhile (\<lambda>c. \<not> isspace c) (dropWhile isspace s))"

text \<open>\<^verbatim>\<open>strtok\<close> with tab as separator: the non-empty fields, at most 64 of them.\<close>

fun split_tab :: "string \<Rightarrow> string \<Rightarrow> string list" where
  "split_tab acc [] = [acc]"
| "split_tab acc (c # s) = (if c = CHR 0x09 then acc # split_tab [] s else split_tab (acc @ [c]) s)"

definition fields :: "string \<Rightarrow> string list" where
  "fields s = take 64 (filter (\<lambda>f. f \<noteq> []) (split_tab [] s))"

fun join_tab :: "string list \<Rightarrow> string" where
  "join_tab [] = []"
| "join_tab [f] = f"
| "join_tab (f # fs) = f @ [CHR 0x09] @ join_tab fs"

section \<open>Queries\<close>

text \<open>
  The response loop: chunks are appended until the text ends in a line feed, the peer closes, or the
  4096 bytes of the response are full.  What did not fit stays in the socket.
\<close>

fun read_response :: "string \<Rightarrow> string list \<Rightarrow> string \<times> string list" where
  "read_response resp [] = (resp, [])"
| "read_response resp (c # cs) =
     (let room = 4096 - length resp - 1; got = take room c; left = drop room c in
      if got = [] then (resp, if room = 0 then c # cs else cs)
      else if last got = CHR 0x0A then (resp @ got, if left = [] then cs else left # cs)
      else if left \<noteq> [] then (resp @ got, left # cs)
      else read_response (resp @ got) cs)"

text \<open>One \<^verbatim>\<open>read\<close> of at most \<open>n\<close> bytes; an empty text is the end of the stream.\<close>

definition read_chunk :: "nat \<Rightarrow> string list \<Rightarrow> string \<times> string list" where
  "read_chunk n inbox =
     (case inbox of [] \<Rightarrow> ([], []) | c # cs \<Rightarrow> (take n c, if drop n c = [] then cs else drop n c # cs))"

fun print_rows :: "nat \<Rightarrow> bool \<Rightarrow> string list \<Rightarrow> Session \<Rightarrow> Session comp" where
  "print_rows 0 heading headers ses = ret ses"
| "print_rows (Suc k) heading headers ses =
     (let (row, inbox) = read_chunk 4095 (ses_inbox ses); ses = ses\<lparr>ses_inbox := inbox\<rparr> in
      if row = [] then print_rows k False headers ses
      else
        let line = cstr (chomp row) in
        if 4095 \<le> length line then undef
        else
          let ses = (if show_headers (ses_cli ses) \<and> heading then print (join_tab headers @ nl) ses else ses)
          in print_rows k False headers (print (join_tab (fields line) @ nl) ses))"

definition cli_display_rows :: "string \<Rightarrow> Session \<Rightarrow> (int \<times> Session) comp" where
  "cli_display_rows resp ses =
     (let rows = (case scan_int (drop 3 resp) of None \<Rightarrow> 0 | Some k \<Rightarrow> k) in
      bindc
        (if rows > 0 then
           let (hline, inbox) = read_chunk 1023 (ses_inbox ses); ses = ses\<lparr>ses_inbox := inbox\<rparr>;
               line = cstr (chomp hline) in
           if hline = [] \<or> 1023 \<le> length line then undef
           else print_rows (nat rows) True (fields line) ses
         else ret ses)
        (\<lambda>ses. ret (rows, print (''Query OK, '' @ fmt_lld (word_of_int rows) @ '' row(s) returned'' @ nl) ses)))"

definition cli_display_ok :: "int \<Rightarrow> Session \<Rightarrow> Session" where
  "cli_display_ok changes = print (''OK: '' @ fmt_lld (word_of_int changes) @ '' row(s) affected'' @ nl)"

definition cli_response :: "string \<Rightarrow> Session \<Rightarrow> (int \<times> Session) comp" where
  "cli_response resp ses =
     (if resp = [] then ret (- 1, print_err (''Error: no response from server'' @ nl) ses)
      else
        let received = length resp; resp = cstr (chomp resp) in
        if take 5 resp = ''ERROR'' then
          if received < 6 then undef else ret (- 1, print_err (''Error: '' @ drop 6 resp @ nl) ses)
        else if take 2 resp = ''OK'' \<or> take 8 resp = ''Query OK'' then
          let rows_part = strstr resp ''rows''; affected_part = strstr resp ''affected'' in
          if rows_part \<and> \<not> affected_part then cli_display_rows resp ses
          else if affected_part then
            let affected = (case scan_int (dropWhile (\<lambda>c. \<not> is_digit c) resp) of None \<Rightarrow> 0 | Some k \<Rightarrow> k)
            in ret (affected, cli_display_ok affected ses)
          else ret (0, print (''Query OK'' @ nl) ses)
        else ret (- 1, print_err (''Error: unknown response format'' @ nl) ses))"

definition ensure_connected :: "(string \<Rightarrow> bool) \<Rightarrow> Session \<Rightarrow> (int \<times> Session) comp" where
  "ensure_connected reach ses =
     (if connected (ses_cli ses) then ret (0, ses) else cli_connect reach None ses)"

definition cli_execute_sql ::
    "(string \<Rightarrow> bool) \<Rightarrow> (string \<Rightarrow> string list option) \<Rightarrow> string \<Rightarrow> Session \<Rightarrow> (int \<times> Session) comp" where
  "cli_execute_sql reach peer sql ses =
     bindc (ensure_connected reach ses) (\<lambda>(ok, ses).
       if ok \<noteq> 0 then ret (- 1, print_err (''Error: not connected to server'' @ nl) ses)
       else
         case peer (take (CLI_MAX_LINE + 63) (''QUERY:'' @ sql @ nl)) of
           None \<Rightarrow> ret (- 1, ses)
         | Some chunks \<Rightarrow>
             let (resp, inbox) = read_response [] (ses_inbox ses @ chunks)
             in cli_response resp (ses\<lparr>ses_inbox := inbox\<rparr>))"

definition cli_single_query ::
    "(string \<Rightarrow> bool) \<Rightarrow> (string \<Rightarrow> string list option) \<Rightarrow> string \<Rightarrow> Session \<Rightarrow> (int \<times> Session) comp" where
  "cli_single_query reach peer sql ses =
     bindc (ensure_connected reach ses) (\<lambda>(ok, ses).
       if ok \<noteq> 0 then ret (- 1, ses) else cli_execute_sql reach peer sql ses)"

section \<open>Settings\<close>

definition cli_parse_output_mode :: "string \<Rightarrow> OutputMode" where
  "cli_parse_output_mode s =
     (if s = ''box'' then OUTPUT_MODE_BOX else if s = ''csv'' then OUTPUT_MODE_CSV
      else if s = ''line'' then OUTPUT_MODE_LINE else if s = ''list'' then OUTPUT_MODE_LIST
      else OUTPUT_MODE_BOX)"

definition cli_get_output_mode_name :: "OutputMode \<Rightarrow> string" where
  "cli_get_output_mode_name m =
     (case m of OUTPUT_MODE_BOX \<Rightarrow> ''box'' | OUTPUT_MODE_CSV \<Rightarrow> ''csv'' | OUTPUT_MODE_LINE \<Rightarrow> ''line''
      | OUTPUT_MODE_LIST \<Rightarrow> ''list'')"

definition set_cli :: "(CLI \<Rightarrow> CLI) \<Rightarrow> Session \<Rightarrow> Session" where
  "set_cli f ses = ses\<lparr>ses_cli := f (ses_cli ses)\<rparr>"

text \<open>\<^verbatim>\<open>cli_set_pager\<close> with the text of the command and whether the pointer to it stays valid.\<close>

definition cli_set_pager :: "string \<Rightarrow> bool \<Rightarrow> CLI \<Rightarrow> CLI" where
  "cli_set_pager cmd lasting cli =
     cli\<lparr>pager_cmd := (if lasting then Some cmd else None), pager_enabled := (cmd \<noteq> ''cat'')\<rparr>"

definition help_text :: string where
  "help_text =
     ''TinyDB CLI v2.0.0 - Available commands:'' @ nl @ nl @ ''Meta-commands:'' @ nl @
     ''  .help           Show this help'' @ nl @ ''  .quit            Exit the CLI'' @ nl @
     ''  .exit            Exit the CLI'' @ nl @ ''  .tables          List all tables'' @ nl @
     ''  .schema <table>  Show CREATE TABLE statement'' @ nl @ ''  .indexes <table> List indexes on a table'' @ nl @
     ''  .plan <sql>      Show query plan'' @ nl @ ''  .timer on/off    Enable/disable query timing'' @ nl @
     ''  .mode <mode>     Output mode: box, csv, line, list'' @ nl @ ''  .headers on/off  Show/hide column headers'' @ nl @
     ''  .null <string>   String to display for NULL values'' @ nl @ ''  .pager <cmd>     Set pager command'' @ nl @
     ''  .shell <cmd>     Execute shell command'' @ nl @ ''  .read <file>     Read and execute SQL from file'' @ nl @
     ''  .trace on/off    Enable server trace'' @ nl"

section \<open>Commands and files\<close>

text \<open>\<^verbatim>\<open>fgets\<close> with a buffer of \<open>k + 1\<close> bytes: a text ends with its line feed or after \<open>k\<close> characters.\<close>

fun fgets_lines :: "nat \<Rightarrow> string \<Rightarrow> string \<Rightarrow> string list" where
  "fgets_lines k acc [] = (if acc = [] then [] else [acc])"
| "fgets_lines k acc (c # s) =
     (let acc = acc @ [c] in
      if c = CHR 0x0A \<or> k \<le> length acc then acc # fgets_lines k [] s else fgets_lines k acc s)"

text \<open>
  \<^verbatim>\<open>cli_handle_meta_command\<close> and \<^verbatim>\<open>cli_execute_file\<close> call each other through \<^verbatim>\<open>.read\<close>; the fuel bounds the
  nesting, and a file that reads itself has no result.
\<close>

fun cli_handle_meta_command :: "nat \<Rightarrow> (string \<Rightarrow> bool) \<Rightarrow> (string \<Rightarrow> string list option) \<Rightarrow>
      (string \<Rightarrow> string option) \<Rightarrow> string \<Rightarrow> Session \<Rightarrow> (int \<times> Session) comp"
  and cli_execute_lines :: "nat \<Rightarrow> (string \<Rightarrow> bool) \<Rightarrow> (string \<Rightarrow> string list option) \<Rightarrow>
      (string \<Rightarrow> string option) \<Rightarrow> string list \<Rightarrow> int \<Rightarrow> Session \<Rightarrow> (int \<times> Session) comp"
where
  "cli_handle_meta_command 0 reach peer files cmd ses = None"
| "cli_handle_meta_command (Suc n) reach peer files cmd ses =
     (if cmd = ''.quit'' \<or> cmd = ''.exit'' then ret (1, ses)
      else if cmd = ''.help'' then ret (0, print help_text ses)
      else if cmd = ''.tables'' then ret (0, print (''Tables: (use .tables to list)'' @ nl) ses)
      else if take 7 cmd = ''.schema'' then ret (0, print (''Schema: (not yet implemented)'' @ nl) ses)
      else if take 8 cmd = ''.indexes'' then ret (0, print (''Indexes: (not yet implemented)'' @ nl) ses)
      else if cmd = ''.timer on'' then
        ret (0, print (''Timer enabled.'' @ nl) (set_cli (\<lambda>c. c\<lparr>show_timer := True\<rparr>) ses))
      else if cmd = ''.timer off'' then
        ret (0, print (''Timer disabled.'' @ nl) (set_cli (\<lambda>c. c\<lparr>show_timer := False\<rparr>) ses))
      else if take 5 cmd = ''.mode'' then
        (let m = cli_parse_output_mode (scan_word 15 (drop 5 cmd)) in
         ret (0, print (''Output mode set to '' @ cli_get_output_mode_name m @ ''.'' @ nl)
                   (set_cli (\<lambda>c. c\<lparr>mode := m\<rparr>) ses)))
      else if cmd = ''.headers on'' then ret (0, set_cli (\<lambda>c. c\<lparr>show_headers := True\<rparr>) ses)
      else if cmd = ''.headers off'' then ret (0, set_cli (\<lambda>c. c\<lparr>show_headers := False\<rparr>) ses)
      else if take 5 cmd = ''.null'' then ret (0, set_cli (\<lambda>c. c\<lparr>null_string := None\<rparr>) ses)
      else if take 6 cmd = ''.pager'' then
        ret (0, set_cli (cli_set_pager (scan_word 127 (drop 6 cmd)) False) ses)
      else if take 6 cmd = ''.shell'' then
        ret (0, ses\<lparr>ses_shell := ses_shell ses @ [scan_word 255 (drop 6 cmd)]\<rparr>)
      else if take 5 cmd = ''.read'' then
        (let filepath = scan_word 255 (drop 5 cmd) in
         case files filepath of
           None \<Rightarrow> ret (0, print_err (''Error: cannot open file '' @ filepath @ nl) ses)
         | Some content \<Rightarrow>
             bindc (cli_execute_lines n reach peer files (fgets_lines (CLI_MAX_LINE - 1) [] content) 0 ses)
               (\<lambda>(count, ses). ret (0, ses)))
      else ret (0, print (''Unknown command: '' @ cmd @ nl) ses))"
| "cli_execute_lines 0 reach peer files lines count ses = None"
| "cli_execute_lines (Suc n) reach peer files [] count ses = ret (count, ses)"
| "cli_execute_lines (Suc n) reach peer files (raw # lines) count ses =
     (let line = chomp (cstr raw) in
      if line = [] \<or> hd line = CHR ''#'' then cli_execute_lines n reach peer files lines count ses
      else if hd line = CHR ''.'' then
        bindc (cli_handle_meta_command n reach peer files line ses)
          (\<lambda>(r, ses). cli_execute_lines n reach peer files lines count ses)
      else
        bindc (cli_execute_sql reach peer line ses)
          (\<lambda>(r, ses). cli_execute_lines n reach peer files lines (if r = 0 then count + 1 else count) ses))"

definition cli_execute_file :: "nat \<Rightarrow> (string \<Rightarrow> bool) \<Rightarrow> (string \<Rightarrow> string list option) \<Rightarrow>
    (string \<Rightarrow> string option) \<Rightarrow> string \<Rightarrow> Session \<Rightarrow> (int \<times> Session) comp" where
  "cli_execute_file n reach peer files filepath ses =
     (case files filepath of
        None \<Rightarrow> ret (- 1, print_err (''Error: cannot open file '' @ filepath @ nl) ses)
      | Some content \<Rightarrow>
          cli_execute_lines n reach peer files (fgets_lines (CLI_MAX_LINE - 1) [] content) 0 ses)"

section \<open>Interactive mode\<close>

text \<open>
  The loop of \<^verbatim>\<open>cli_interactive_loop\<close> after connecting.  The length of a line is shortened by its line end, but
  the line itself keeps it: a command is handed over with its line feed.
\<close>

fun interact :: "nat \<Rightarrow> (string \<Rightarrow> bool) \<Rightarrow> (string \<Rightarrow> string list option) \<Rightarrow> (string \<Rightarrow> string option) \<Rightarrow>
    string list \<Rightarrow> bool \<Rightarrow> string \<Rightarrow> Session \<Rightarrow> (string list \<times> Session) comp" where
  "interact n reach peer files [] multiline sql_buf ses =
     ret ([], print ((if multiline then ''   ...> '' else ''tinydb> '') @ nl) ses)"
| "interact n reach peer files (raw # lines) multiline sql_buf ses =
     (let ses = print (if multiline then ''   ...> '' else ''tinydb> '') ses;
          line = cstr raw; short = chomp line in
      if short = [] then interact n reach peer files lines False [] ses
      else if hd line = CHR ''.'' \<and> \<not> multiline then
        bindc (cli_handle_meta_command n reach peer files line ses)
          (\<lambda>(r, ses). if r \<noteq> 0 then ret (lines, ses) else interact n reach peer files lines multiline sql_buf ses)
      else if CLI_MAX_LINE * 2 \<le> length sql_buf + length short + 1 then
        interact n reach peer files lines False [] (print_err (''SQL statement too long'' @ nl) ses)
      else
        let sql_buf = (if sql_buf = [] then short else sql_buf @ '' '' @ short) in
        if last short = CHR '';'' then
          bindc (cli_execute_sql reach peer sql_buf ses)
            (\<lambda>(r, ses). interact n reach peer files lines False [] ses)
        else interact n reach peer files lines True sql_buf ses)"

text \<open>\<^verbatim>\<open>cli_interactive_loop\<close>; \<open>env\<close> is the variable \<^verbatim>\<open>TINYDB_SOCKET_PATH\<close>, \<open>stdin\<close> what is typed.  The first component of
  the result is the input left unread.\<close>

definition cli_interactive_loop :: "nat \<Rightarrow> (string \<Rightarrow> bool) \<Rightarrow> (string \<Rightarrow> string list option) \<Rightarrow>
    (string \<Rightarrow> string option) \<Rightarrow> string option \<Rightarrow> string \<Rightarrow> Session \<Rightarrow> (string list \<times> Session) comp" where
  "cli_interactive_loop n reach peer files env stdin ses =
     bindc
       (if connected (ses_cli ses) then ret ses
        else bindc (cli_connect reach env ses) (\<lambda>(ok, ses).
          if ok \<noteq> 0
          then ret (print_err (''Warning: could not connect to '' @
                 (case env of None \<Rightarrow> CLI_DEFAULT_SOCKET | Some s \<Rightarrow> s) @ nl) ses)
          else ret ses))
       (\<lambda>ses. interact n reach peer files (fgets_lines (CLI_MAX_LINE - 1) [] stdin) False [] ses)"

section \<open>Arguments\<close>

definition usage_text :: string where
  "usage_text =
     ''Usage: tinydb-cli [OPTIONS] [SQL]'' @ nl @ ''Options:'' @ nl @
     ''  -h, --help             Show help'' @ nl @ ''  -v, --version          Show version'' @ nl @
     ''  -s, --socket <path>    Connect to socket'' @ nl @ ''  -c, --command <sql>    Execute SQL command'' @ nl @
     ''  -f, --file <file>      Execute SQL from file'' @ nl @ ''  -n, --no-pager         Disable pager'' @ nl @
     ''  -t, --stats            Show query statistics'' @ nl @ ''  -V, --verbose          Verbose output'' @ nl @
     ''  -q, --quiet            Quiet mode'' @ nl"

fun cli_parse_args :: "nat \<Rightarrow> (string \<Rightarrow> bool) \<Rightarrow> (string \<Rightarrow> string list option) \<Rightarrow>
    (string \<Rightarrow> string option) \<Rightarrow> string list \<Rightarrow> Session \<Rightarrow> (int \<times> Session) comp" where
  "cli_parse_args n reach peer files [] ses = ret (0, ses)"
| "cli_parse_args n reach peer files (arg # args) ses =
     (if arg = ''-h'' \<or> arg = ''--help'' then ret (- 1, print usage_text ses)
      else if arg = ''-v'' \<or> arg = ''--version'' then ret (- 1, print (''TinyDB CLI v2.0.0'' @ nl) ses)
      else if arg = ''-s'' \<or> arg = ''--socket'' then
        (case args of
           [] \<Rightarrow> ret (0, ses)
         | path # args \<Rightarrow>
             bindc (cli_connect reach (Some path) ses)
               (\<lambda>(r, ses). cli_parse_args n reach peer files args ses))
      else if arg = ''-c'' \<or> arg = ''--command'' then
        (case args of
           [] \<Rightarrow> ret (0, ses)
         | sql # args \<Rightarrow>
             bindc (cli_single_query reach peer sql (set_cli (\<lambda>c. c\<lparr>executed_command := True\<rparr>) ses))
               (\<lambda>(r, ses). ret (- 1, ses)))
      else if arg = ''-f'' \<or> arg = ''--file'' then
        (case args of
           [] \<Rightarrow> ret (0, ses)
         | path # args \<Rightarrow>
             bindc (cli_execute_file n reach peer files path (set_cli (\<lambda>c. c\<lparr>executed_command := True\<rparr>) ses))
               (\<lambda>(r, ses). cli_parse_args n reach peer files args ses))
      else if arg = ''-n'' \<or> arg = ''--no-pager'' then
        cli_parse_args n reach peer files args (set_cli (cli_set_pager ''cat'' True) ses)
      else if arg = ''-t'' \<or> arg = ''--stats'' then
        cli_parse_args n reach peer files args (set_cli (\<lambda>c. c\<lparr>show_timer := True\<rparr>) ses)
      else if arg = ''-V'' \<or> arg = ''--verbose'' then
        cli_parse_args n reach peer files args (set_cli (\<lambda>c. c\<lparr>verbose := True\<rparr>) ses)
      else if arg = ''-q'' \<or> arg = ''--quiet'' then
        cli_parse_args n reach peer files args (set_cli (\<lambda>c. c\<lparr>quiet := True\<rparr>) ses)
      else cli_parse_args n reach peer files args ses)"

section \<open>Leaving the interactive mode\<close>

lemma meta_command_zero:
  assumes "cmd \<noteq> ''.quit''" "cmd \<noteq> ''.exit''" "cli_handle_meta_command n reach peer files cmd ses = ret (r, ses')"
  shows "r = 0"
proof (cases n)
  case (Suc m)
  show ?thesis
    using assms unfolding Suc cli_handle_meta_command.simps
    by (simp only: if_False split: if_splits) (auto simp: Let_def bindc_eq_ret split: option.splits prod.splits)
qed (use assms in simp)

lemma fgets_line_end:
  assumes "raw \<in> set (fgets_lines k acc (s @ nl))" "\<forall>c \<in> set acc. c \<noteq> CHR 0x0A"
  shows "raw \<noteq> [] \<and> (last raw = CHR 0x0A \<or> k \<le> length raw) \<and> set raw \<subseteq> set acc \<union> set s \<union> {CHR 0x0A}"
  using assms
proof (induction s arbitrary: acc)
  case Nil
  then show ?case by (simp add: Let_def)
next
  case (Cons c s)
  show ?case
  proof (cases "c = CHR 0x0A \<or> k \<le> length (acc @ [c])")
    case True
    with Cons.prems(1) have "raw = acc @ [c] \<or> raw \<in> set (fgets_lines k [] (s @ nl))" by (simp add: Let_def)
    with True Cons.IH[of "[]"] show ?thesis by auto
  next
    case False
    with Cons.prems(1) have "raw \<in> set (fgets_lines k (acc @ [c]) (s @ nl))" by (simp add: Let_def)
    with False Cons.prems(2) Cons.IH[of "acc @ [c]"] show ?thesis by auto
  qed
qed

lemma cstr_id: "NUL \<notin> set s \<Longrightarrow> cstr s = s"
  by (auto simp: cstr_def takeWhile_eq_all_conv)

lemma interact_all:
  assumes "interact n reach peer files lines multiline buf ses = ret (left, ses')"
    "\<forall>raw \<in> set lines. NUL \<notin> set raw \<and> raw \<noteq> ''.quit'' \<and> raw \<noteq> ''.exit''"
  shows "left = []"
  using assms
proof (induction lines arbitrary: multiline buf ses)
  case (Cons raw lines)
  let ?ses = "print (if multiline then ''   ...> '' else ''tinydb> '') ses"
  have raw: "cstr raw = raw" "raw \<noteq> ''.quit''" "raw \<noteq> ''.exit''" using Cons.prems(2) by (simp_all add: cstr_id)
  have IH: "left = []" if "interact n reach peer files lines m b s = ret (left, ses')" for m b s
    using that Cons.prems(2) by (intro Cons.IH[of m b s]) auto
  show ?case
    using Cons.prems(1) raw IH unfolding interact.simps(2) Let_def raw(1)
    by (auto simp: bindc_eq_ret dest: meta_command_zero split: if_splits)
qed simp

text \<open>Typing \<^verbatim>\<open>.quit\<close> or \<^verbatim>\<open>.exit\<close> does not leave the interactive mode: whatever is typed, as long as the
  input ends with a line feed, the loop reads all of it.\<close>

theorem interactive_reads_all:
  assumes "cli_interactive_loop n reach peer files env (typed @ nl) ses = ret (left, ses')" "NUL \<notin> set typed"
  shows "left = []"
proof -
  let ?lines = "fgets_lines (CLI_MAX_LINE - 1) [] (typed @ nl)"
  obtain s where "interact n reach peer files ?lines False [] s = ret (left, ses')"
    using assms(1) by (auto simp: cli_interactive_loop_def bindc_eq_ret)
  moreover have "NUL \<notin> set raw \<and> raw \<noteq> ''.quit'' \<and> raw \<noteq> ''.exit''" if "raw \<in> set ?lines" for raw
    using fgets_line_end[OF that] assms(2) by (auto simp: CLI_MAX_LINE_def)
  ultimately show ?thesis by (intro interact_all) auto
qed

theorem interactive_reads_all_witness:
  "\<exists>ses. cli_interactive_loop 1 (\<lambda>_. True) (\<lambda>_. None) (\<lambda>_. None) None (''.quit'' @ nl @ ''.tables'' @ nl)
     \<lparr>ses_cli = cli_init, ses_inbox = [], ses_out = [], ses_err = [], ses_shell = []\<rparr> = ret ([], ses)"
proof -
  let ?ses = "\<lparr>ses_cli = cli_init, ses_inbox = [], ses_out = [], ses_err = [], ses_shell = []\<rparr>"
  have "\<exists>left ses. cli_interactive_loop 1 (\<lambda>_. True) (\<lambda>_. None) (\<lambda>_. None) None ((''.quit'' @ nl @ ''.tables'') @ nl) ?ses = ret (left, ses)"
    by (simp add: cli_interactive_loop_def cli_connect_def CLI_DEFAULT_SOCKET_def CLI_MAX_LINE_def Let_def cli_init_def
        chomp_def cstr_def)
  then obtain left ses where e: "cli_interactive_loop 1 (\<lambda>_. True) (\<lambda>_. None) (\<lambda>_. None) None ((''.quit'' @ nl @ ''.tables'') @ nl) ?ses = ret (left, ses)"
    by blast
  moreover have "left = []" by (rule interactive_reads_all[OF e]) simp
  ultimately show ?thesis by auto
qed

end
