(* ===== verification/Frames.thy ===== *)
theory Frames
  imports Prelude
begin

text \<open>
  The interface between the page cache and the B-tree: a page is pinned, which yields a frame;
  its contents are read and replaced through the frame; the frame is marked as changed and
  released.  The page cache provides it for the pages it holds (theory \<open>Page_Cache\<close>); the
  B-tree does every access through the two sequences proved here.
\<close>

text \<open>
  What an operation on frames leaves alone: the contents of every page that is present, and
  that a page which is not marked as changed agrees with the file.
\<close>

definition keeps_pages ::
    "('s \<Rightarrow> u32 \<Rightarrow> bool) \<Rightarrow> ('s \<Rightarrow> u32 \<Rightarrow> bytes) \<Rightarrow> ('s \<Rightarrow> u32 \<Rightarrow> bool) \<Rightarrow> 's \<Rightarrow> 's \<Rightarrow> bool" where
  "keeps_pages resident view insync s s' \<longleftrightarrow>
     (\<forall>p. resident s p \<longrightarrow> resident s' p \<and> view s' p = view s p) \<and> (\<forall>p. insync s p \<longrightarrow> insync s' p)"

lemma keeps_pages_refl [simp]: "keeps_pages resident view insync s s"
  by (simp add: keeps_pages_def)

lemma keeps_pages_trans [trans]:
  "keeps_pages resident view insync s t \<Longrightarrow> keeps_pages resident view insync t u \<Longrightarrow>
   keeps_pages resident view insync s u"
  by (simp add: keeps_pages_def)

locale page_frames =
  fixes ready :: "'s \<Rightarrow> bool"
    and resident :: "'s \<Rightarrow> u32 \<Rightarrow> bool"
    and view :: "'s \<Rightarrow> u32 \<Rightarrow> bytes"
    and insync :: "'s \<Rightarrow> u32 \<Rightarrow> bool"
    and holds :: "'s \<Rightarrow> 'a \<Rightarrow> u32 \<Rightarrow> bool"
    and pin :: "u32 \<Rightarrow> 's \<Rightarrow> ('a option \<times> 's) comp"
    and unpin :: "'a option \<Rightarrow> 's \<Rightarrow> 's comp"
    and mark :: "'a option \<Rightarrow> 's \<Rightarrow> 's comp"
    and load :: "'a \<Rightarrow> 's \<Rightarrow> bytes comp"
    and store :: "'a \<Rightarrow> bytes \<Rightarrow> 's \<Rightarrow> 's comp"
  assumes view_len: "ready s \<Longrightarrow> resident s p \<Longrightarrow> length (view s p) = PAGE_SIZE"
    and pin_law: "ready s \<Longrightarrow> resident s p \<Longrightarrow>
      \<exists>a s'. pin p s = ret (Some a, s') \<and> ready s' \<and> holds s' a p \<and> keeps_pages resident view insync s s'"
    and unpin_law: "ready s \<Longrightarrow> holds s a p \<Longrightarrow>
      \<exists>s'. unpin (Some a) s = ret s' \<and> ready s' \<and> keeps_pages resident view insync s s'"
    and mark_law: "ready s \<Longrightarrow> holds s a p \<Longrightarrow>
      \<exists>s'. mark (Some a) s = ret s' \<and> ready s' \<and> holds s' a p \<and> insync s' p \<and>
        keeps_pages resident view insync s s'"
    and load_law: "ready s \<Longrightarrow> holds s a p \<Longrightarrow> load a s = ret (view s p) \<and> resident s p"
    and store_law: "ready s \<Longrightarrow> holds s a p \<Longrightarrow> length b = PAGE_SIZE \<Longrightarrow>
      \<exists>s'. store a b s = ret s' \<and> ready s' \<and> holds s' a p \<and>
        (\<forall>q. resident s q \<longrightarrow> resident s' q \<and> view s' q = ((view s)(p := b)) q) \<and>
        (\<forall>q. q \<noteq> p \<longrightarrow> insync s q \<longrightarrow> insync s' q)"
begin

lemma read_access:
  assumes "ready s" "resident s p"
  obtains a s1 s2 where "pin p s = ret (Some a, s1)" "load a s1 = ret (view s p)"
    "unpin (Some a) s1 = ret s2" "ready s2" "keeps_pages resident view insync s s2"
proof -
  obtain a s1 where 1: "pin p s = ret (Some a, s1)" "ready s1" "holds s1 a p" "keeps_pages resident view insync s s1"
    using pin_law[OF assms] by blast
  obtain s2 where 2: "unpin (Some a) s1 = ret s2" "ready s2" "keeps_pages resident view insync s1 s2"
    using unpin_law[OF 1(2,3)] by blast
  have "load a s1 = ret (view s p)"
    using load_law[OF 1(2,3)] 1(4) assms(2) by (simp add: keeps_pages_def)
  then show thesis using that[OF 1(1) _ 2(1,2) keeps_pages_trans[OF 1(4) 2(3)]] by blast
qed

lemma write_access:
  assumes "ready s" "resident s p" "length b = PAGE_SIZE"
  obtains a s1 s2 s3 s4 where "pin p s = ret (Some a, s1)" "load a s1 = ret (view s p)"
    "store a b s1 = ret s2" "mark (Some a) s2 = ret s3" "unpin (Some a) s3 = ret s4" "ready s4"
    "\<forall>q. resident s q \<longrightarrow> resident s4 q \<and> view s4 q = ((view s)(p := b)) q"
    "\<forall>q. insync s q \<longrightarrow> insync s4 q"
proof -
  obtain a s1 where 1: "pin p s = ret (Some a, s1)" "ready s1" "holds s1 a p" "keeps_pages resident view insync s s1"
    using pin_law[OF assms(1,2)] by blast
  have l: "load a s1 = ret (view s p)" and p1: "resident s1 p"
    using load_law[OF 1(2,3)] 1(4) assms(2) by (simp_all add: keeps_pages_def)
  obtain s2 where 2: "store a b s1 = ret s2" "ready s2" "holds s2 a p"
    "\<forall>q. resident s1 q \<longrightarrow> resident s2 q \<and> view s2 q = ((view s1)(p := b)) q"
    "\<forall>q. q \<noteq> p \<longrightarrow> insync s1 q \<longrightarrow> insync s2 q"
    using store_law[OF 1(2,3) assms(3)] by blast
  obtain s3 where 3: "mark (Some a) s2 = ret s3" "ready s3" "holds s3 a p" "insync s3 p"
    "keeps_pages resident view insync s2 s3"
    using mark_law[OF 2(2,3)] by blast
  obtain s4 where 4: "unpin (Some a) s3 = ret s4" "ready s4" "keeps_pages resident view insync s3 s4"
    using unpin_law[OF 3(2,3)] by blast
  have "\<forall>q. resident s q \<longrightarrow> resident s4 q \<and> view s4 q = ((view s)(p := b)) q"
    "\<forall>q. insync s q \<longrightarrow> insync s4 q"
    using 1(4) 2(4,5) 3(4,5) 4(3) p1 by (auto simp: keeps_pages_def)
  then show thesis by (rule that[OF 1(1) l 2(1) 3(1) 4(1,2)])
qed

end

end
