(* ===== verification/Page_Cache.thy ===== *)
theory Page_Cache
  imports Pager Float64 Frames
begin

text \<open>
  The page cache, \<^verbatim>\<open>src/storage/page_cache.c\<close>: pages read from the pager are kept in a hash
  table with chaining and in a list ordered by last use; when the cache is full a page is
  evicted from the end of that list.

  The pages are objects of the C heap, linked to each other by pointers.  \<open>pc_heap\<close> maps the
  address of an allocated page to its contents, \<open>pc_brk\<close> is the next address that the
  allocator hands out.  An address is never handed out twice, so that an access through a
  pointer to a freed page finds no object and is undefined (\<open>undef\<close>).  A walk along the
  links of a list that has become cyclic does not end (\<open>None\<close>).  The buffer of a page is
  allocated and freed with the page and is a field of it.  The counters and the pin counts are
  unbounded here: they stand for runs of fewer than \<open>2 ^ 31\<close> calls.  The mutex is left out,
  and so are the locks that the source has commented out.
\<close>

section \<open>Data\<close>

type_synonym addr = nat

record Page =
  pg_data :: bytes
  pg_id :: u32
  pg_refcount :: int
  pg_is_dirty :: bool
  pg_is_wal :: bool
  pg_lru_next :: "addr option"
  pg_lru_prev :: "addr option"
  pg_hash_next :: "addr option"
  pg_hash_prev :: "addr option"

record PageCache =
  pc_pages :: "addr option list"
  pc_table_size :: nat
  pc_lru_head :: "addr option"
  pc_lru_tail :: "addr option"
  pc_count :: int
  pc_max_pages :: int
  pc_hit_count :: int
  pc_miss_count :: int
  pc_pager :: "Pager option"
  pc_pin_count :: int
  pc_evict_count :: int
  pc_heap :: "addr \<Rightarrow> Page option"
  pc_brk :: addr

text \<open>Access to a page through its address.\<close>

definition page_at :: "addr \<Rightarrow> PageCache \<Rightarrow> Page comp" where
  "page_at a c = ofopt (pc_heap c a)"

definition page_upd :: "addr \<Rightarrow> (Page \<Rightarrow> Page) \<Rightarrow> PageCache \<Rightarrow> PageCache comp" where
  "page_upd a f c =
     (case pc_heap c a of None \<Rightarrow> undef | Some p \<Rightarrow> ret (c\<lparr>pc_heap := (pc_heap c)(a \<mapsto> f p)\<rparr>))"

text \<open>An update through a pointer that the code has tested against \<^verbatim>\<open>NULL\<close>.\<close>

definition upd_if :: "addr option \<Rightarrow> (Page \<Rightarrow> Page) \<Rightarrow> PageCache \<Rightarrow> PageCache comp" where
  "upd_if q f c = (case q of None \<Rightarrow> ret c | Some a \<Rightarrow> page_upd a f c)"

definition hash_page_id :: "u32 \<Rightarrow> nat \<Rightarrow> nat" where
  "hash_page_id page_id table_size = unat ((page_id * 31) AND (of_nat table_size - 1))"

section \<open>The list of pages by last use\<close>

text \<open>The fields are read from memory again after the first store, as the code does.\<close>

definition lru_remove :: "addr \<Rightarrow> PageCache \<Rightarrow> PageCache comp" where
  "lru_remove page c =
     bindc (page_at page c) (\<lambda>p.
     bindc (upd_if (pg_lru_prev p) (\<lambda>q. q\<lparr>pg_lru_next := pg_lru_next p\<rparr>) c) (\<lambda>c.
     bindc (page_at page c) (\<lambda>p.
     bindc (upd_if (pg_lru_next p) (\<lambda>q. q\<lparr>pg_lru_prev := pg_lru_prev p\<rparr>) c) (\<lambda>c.
     page_upd page (\<lambda>p. p\<lparr>pg_lru_prev := None, pg_lru_next := None\<rparr>) c))))"

definition lru_add_front :: "addr \<Rightarrow> PageCache \<Rightarrow> PageCache comp" where
  "lru_add_front page c =
     bindc (page_upd page (\<lambda>p. p\<lparr>pg_lru_next := pc_lru_head c, pg_lru_prev := None\<rparr>) c) (\<lambda>c.
     bindc (upd_if (pc_lru_head c) (\<lambda>q. q\<lparr>pg_lru_prev := Some page\<rparr>) c) (\<lambda>c.
     ret (c\<lparr>pc_lru_head := Some page,
            pc_lru_tail := if pc_lru_tail c = None then Some page else pc_lru_tail c\<rparr>)))"

definition lru_add_back :: "addr \<Rightarrow> PageCache \<Rightarrow> PageCache comp" where
  "lru_add_back page c =
     bindc (page_upd page (\<lambda>p. p\<lparr>pg_lru_prev := pc_lru_tail c, pg_lru_next := None\<rparr>) c) (\<lambda>c.
     bindc (upd_if (pc_lru_tail c) (\<lambda>q. q\<lparr>pg_lru_next := Some page\<rparr>) c) (\<lambda>c.
     ret (c\<lparr>pc_lru_tail := Some page,
            pc_lru_head := if pc_lru_head c = None then Some page else pc_lru_head c\<rparr>)))"

definition lru_mru :: "addr \<Rightarrow> PageCache \<Rightarrow> PageCache comp" where
  "lru_mru page c = bindc (lru_remove page c) (lru_add_front page)"

definition lru_lru :: "addr \<Rightarrow> PageCache \<Rightarrow> PageCache comp" where
  "lru_lru page c = bindc (lru_remove page c) (lru_add_back page)"

section \<open>The hash table\<close>

definition bucket :: "nat \<Rightarrow> PageCache \<Rightarrow> addr option comp" where
  "bucket i c = (if i < length (pc_pages c) then ret (pc_pages c ! i) else undef)"

definition set_bucket :: "nat \<Rightarrow> addr option \<Rightarrow> PageCache \<Rightarrow> PageCache comp" where
  "set_bucket i q c =
     (if i < length (pc_pages c) then ret (c\<lparr>pc_pages := (pc_pages c)[i := q]\<rparr>) else undef)"

definition hash_insert :: "addr \<Rightarrow> PageCache \<Rightarrow> PageCache comp" where
  "hash_insert page c =
     bindc (page_at page c) (\<lambda>p.
     let idx = hash_page_id (pg_id p) (pc_table_size c) in
     bindc (bucket idx c) (\<lambda>first.
     bindc (page_upd page (\<lambda>p. p\<lparr>pg_hash_next := first, pg_hash_prev := None\<rparr>) c) (\<lambda>c.
     bindc (upd_if first (\<lambda>q. q\<lparr>pg_hash_prev := Some page\<rparr>) c) (\<lambda>c.
     set_bucket idx (Some page) c))))"

definition hash_remove :: "addr \<Rightarrow> PageCache \<Rightarrow> PageCache comp" where
  "hash_remove page c =
     bindc (page_at page c) (\<lambda>p.
     let idx = hash_page_id (pg_id p) (pc_table_size c) in
     bindc (case pg_hash_prev p of
              Some q \<Rightarrow> page_upd q (\<lambda>q. q\<lparr>pg_hash_next := pg_hash_next p\<rparr>) c
            | None \<Rightarrow> set_bucket idx (pg_hash_next p) c) (\<lambda>c.
     bindc (page_at page c) (\<lambda>p.
     bindc (upd_if (pg_hash_next p) (\<lambda>q. q\<lparr>pg_hash_prev := pg_hash_prev p\<rparr>) c) (\<lambda>c.
     page_upd page (\<lambda>p. p\<lparr>pg_hash_next := None, pg_hash_prev := None\<rparr>) c))))"

partial_function (option) hash_walk :: "u32 \<Rightarrow> addr option \<Rightarrow> PageCache \<Rightarrow> addr option comp" where
  "hash_walk page_id q c =
     (case q of
        None \<Rightarrow> ret None
      | Some a \<Rightarrow>
          bindc (page_at a c) (\<lambda>p.
          if pg_id p = page_id then ret (Some a) else hash_walk page_id (pg_hash_next p) c))"

definition hash_find :: "u32 \<Rightarrow> PageCache \<Rightarrow> addr option comp" where
  "hash_find page_id c =
     bindc (bucket (hash_page_id page_id (pc_table_size c)) c) (\<lambda>q. hash_walk page_id q c)"

section \<open>Allocation\<close>

definition page_alloc :: "u32 \<Rightarrow> PageCache \<Rightarrow> addr \<times> PageCache" where
  "page_alloc page_id c =
     (let page = pc_brk c in
      (page,
       c\<lparr>pc_heap := (pc_heap c)(page \<mapsto>
            \<lparr>pg_data = replicate PAGE_SIZE 0, pg_id = page_id, pg_refcount = 0, pg_is_dirty = False,
             pg_is_wal = False, pg_lru_next = None, pg_lru_prev = None, pg_hash_next = None,
             pg_hash_prev = None\<rparr>),
         pc_brk := Suc page\<rparr>))"

definition page_free :: "addr \<Rightarrow> PageCache \<Rightarrow> PageCache comp" where
  "page_free page c =
     (case pc_heap c page of
        None \<Rightarrow> undef
      | Some _ \<Rightarrow> ret (c\<lparr>pc_heap := (pc_heap c)(page := None)\<rparr>))"

section \<open>Eviction\<close>

text \<open>
  \<open>write_back page c\<close> is the test \<^verbatim>\<open>is_dirty && pager\<close> with the write behind it that all of the
  functions below contain: \<open>None\<close> when there is nothing to write, else whether the write
  succeeded.
\<close>

definition write_back :: "Page \<Rightarrow> PageCache \<Rightarrow> bool option \<times> PageCache" where
  "write_back p c =
     (case pc_pager c of
        None \<Rightarrow> (None, c)
      | Some pg \<Rightarrow>
          if pg_is_dirty p then
            (case pager_write_page (pg_id p) (pg_data p) pg of (ok, pg) \<Rightarrow> (Some ok, c\<lparr>pc_pager := Some pg\<rparr>))
          else (None, c))"

partial_function (option) lru_victim :: "addr option \<Rightarrow> PageCache \<Rightarrow> addr option comp" where
  "lru_victim q c =
     (case q of
        None \<Rightarrow> ret None
      | Some a \<Rightarrow>
          bindc (page_at a c) (\<lambda>p. if pg_refcount p = 0 then ret (Some a) else lru_victim (pg_lru_prev p) c))"

definition drop_page :: "addr \<Rightarrow> PageCache \<Rightarrow> PageCache comp" where
  "drop_page page c =
     bindc (lru_remove page c) (\<lambda>c.
     bindc (hash_remove page c) (\<lambda>c.
     page_free page (c\<lparr>pc_count := pc_count c - 1, pc_evict_count := pc_evict_count c + 1\<rparr>)))"

definition evict_lru_page :: "PageCache \<Rightarrow> (bool \<times> PageCache) comp" where
  "evict_lru_page c =
     bindc (lru_victim (pc_lru_tail c) c) (\<lambda>victim.
     case victim of
       None \<Rightarrow> ret (False, c)
     | Some a \<Rightarrow>
         bindc (page_at a c) (\<lambda>p.
         case write_back p c of
           (Some False, c) \<Rightarrow> ret (False, c)
         | (_, c) \<Rightarrow> bindc (drop_page a c) (\<lambda>c. ret (True, c))))"

section \<open>Life cycle\<close>

text \<open>
  \<^verbatim>\<open>DEFAULT_CACHE_SIZE\<close> has no definition in the sources and is an argument here.
\<close>

definition PAGER_MAX_PAGES :: int where
  "PAGER_MAX_PAGES = 65536"

function table_size_for :: "nat \<Rightarrow> nat \<Rightarrow> nat" where
  "table_size_for max_pages table_size =
     (if 0 < table_size \<and> table_size < max_pages * 2 then table_size_for max_pages (table_size * 2)
      else table_size)"
  by pat_completeness auto
termination
  by (relation "measure (\<lambda>(m, t). 2 * m - t)") auto

declare table_size_for.simps [simp del]

definition page_cache_create :: "int \<Rightarrow> int \<Rightarrow> Pager option \<Rightarrow> PageCache" where
  "page_cache_create default_cache_size max_pages pager =
     (let max_pages = (if max_pages \<le> 0 then default_cache_size else max_pages);
          max_pages = (if max_pages > PAGER_MAX_PAGES then PAGER_MAX_PAGES else max_pages);
          table_size = table_size_for (nat max_pages) 16 in
      \<lparr>pc_pages = replicate table_size None, pc_table_size = table_size, pc_lru_head = None,
       pc_lru_tail = None, pc_count = 0, pc_max_pages = max_pages, pc_hit_count = 0,
       pc_miss_count = 0, pc_pager = pager, pc_pin_count = 0, pc_evict_count = 0,
       pc_heap = (\<lambda>_. None), pc_brk = 0\<rparr>)"

section \<open>Page operations\<close>

definition cache_hit :: "addr \<Rightarrow> PageCache \<Rightarrow> (addr option \<times> PageCache) comp" where
  "cache_hit page c =
     bindc (lru_mru page (c\<lparr>pc_hit_count := pc_hit_count c + 1\<rparr>)) (\<lambda>c.
     bindc (page_upd page (\<lambda>p. p\<lparr>pg_refcount := pg_refcount p + 1\<rparr>) c) (\<lambda>c.
     ret (Some page, c\<lparr>pc_pin_count := pc_pin_count c + 1\<rparr>)))"

partial_function (option) make_room :: "PageCache \<Rightarrow> (bool \<times> PageCache) comp" where
  "make_room c =
     (if pc_max_pages c \<le> pc_count c then
        bindc (evict_lru_page c) (\<lambda>r. if fst r then make_room (snd r) else ret r)
      else ret (True, c))"

definition cache_load :: "u32 \<Rightarrow> Pager \<Rightarrow> PageCache \<Rightarrow> (addr option \<times> PageCache) comp" where
  "cache_load page_id pg c =
     (case page_alloc page_id c of (page, c) \<Rightarrow>
      case pager_read_page page_id pg of
        (None, pg) \<Rightarrow> bindc (page_free page (c\<lparr>pc_pager := Some pg\<rparr>)) (\<lambda>c. ret (None, c))
      | (Some buf, pg) \<Rightarrow>
          bindc (page_upd page (\<lambda>p. p\<lparr>pg_data := buf\<rparr>) (c\<lparr>pc_pager := Some pg\<rparr>)) (\<lambda>c.
          bindc (hash_insert page c) (\<lambda>c.
          bindc (lru_add_front page c) (\<lambda>c.
          bindc (page_upd page (\<lambda>p. p\<lparr>pg_refcount := 1\<rparr>) (c\<lparr>pc_count := pc_count c + 1\<rparr>)) (\<lambda>c.
          ret (Some page, c\<lparr>pc_pin_count := pc_pin_count c + 1\<rparr>))))))"

definition page_cache_get :: "u32 \<Rightarrow> PageCache \<Rightarrow> (addr option \<times> PageCache) comp" where
  "page_cache_get page_id c =
     bindc (hash_find page_id c) (\<lambda>found.
     case found of
       Some page \<Rightarrow> cache_hit page c
     | None \<Rightarrow>
         let c = c\<lparr>pc_miss_count := pc_miss_count c + 1\<rparr> in
         case pc_pager c of
           None \<Rightarrow> ret (None, c)
         | Some _ \<Rightarrow>
             bindc (hash_find page_id c) (\<lambda>found.
             case found of
               Some page \<Rightarrow> cache_hit page c
             | None \<Rightarrow>
                 bindc (make_room c) (\<lambda>(room, c).
                 case pc_pager c of
                   Some pg \<Rightarrow> if room then cache_load page_id pg c else ret (None, c)
                 | None \<Rightarrow> undef)))"

definition page_cache_get_exclusive :: "u32 \<Rightarrow> PageCache \<Rightarrow> (addr option \<times> PageCache) comp" where
  "page_cache_get_exclusive page_id c = page_cache_get page_id c"

definition page_pin :: "u32 \<Rightarrow> PageCache \<Rightarrow> (addr option \<times> PageCache) comp" where
  "page_pin page_id c = page_cache_get page_id c"

definition page_unpin :: "addr option \<Rightarrow> PageCache \<Rightarrow> PageCache comp" where
  "page_unpin page c =
     upd_if page (\<lambda>p. if pg_refcount p > 0 then p\<lparr>pg_refcount := pg_refcount p - 1\<rparr> else p) c"

definition page_mark_dirty :: "addr option \<Rightarrow> PageCache \<Rightarrow> PageCache comp" where
  "page_mark_dirty page c = upd_if page (\<lambda>p. p\<lparr>pg_is_dirty := True\<rparr>) c"

definition page_cache_release :: "addr option \<Rightarrow> PageCache \<Rightarrow> PageCache comp" where
  "page_cache_release page c = page_unpin page c"

text \<open>Reading and writing the buffer of a page, as the clients do through \<^verbatim>\<open>page->data\<close>.\<close>

definition page_data :: "addr \<Rightarrow> PageCache \<Rightarrow> bytes comp" where
  "page_data page c = bindc (page_at page c) (\<lambda>p. ret (pg_data p))"

definition set_page_data :: "addr \<Rightarrow> bytes \<Rightarrow> PageCache \<Rightarrow> PageCache comp" where
  "set_page_data page d c = page_upd page (\<lambda>p. p\<lparr>pg_data := d\<rparr>) c"

section \<open>Cache management\<close>

partial_function (option) flush_chain :: "addr option \<Rightarrow> int \<Rightarrow> PageCache \<Rightarrow> (int \<times> PageCache) comp" where
  "flush_chain q flushed c =
     (case q of
        None \<Rightarrow> ret (flushed, c)
      | Some a \<Rightarrow>
          bindc (page_at a c) (\<lambda>p.
          case write_back p c of (written, c) \<Rightarrow>
            if written = Some True then
              bindc (page_upd a (\<lambda>p. p\<lparr>pg_is_dirty := False\<rparr>) c) (\<lambda>c.
              flush_chain (pg_hash_next p) (flushed + 1) c)
            else flush_chain (pg_hash_next p) flushed c))"

fun flush_buckets :: "nat list \<Rightarrow> int \<Rightarrow> PageCache \<Rightarrow> (int \<times> PageCache) comp" where
  "flush_buckets [] flushed c = ret (flushed, c)"
| "flush_buckets (i # is) flushed c =
     bindc (bucket i c) (\<lambda>q.
     bindc (flush_chain q flushed c) (\<lambda>(flushed, c). flush_buckets is flushed c))"

definition page_cache_flush :: "PageCache \<Rightarrow> (int \<times> PageCache) comp" where
  "page_cache_flush c = flush_buckets [0..<pc_table_size c] 0 c"

definition page_cache_flush_page :: "u32 \<Rightarrow> PageCache \<Rightarrow> (bool \<times> PageCache) comp" where
  "page_cache_flush_page page_id c =
     bindc (hash_find page_id c) (\<lambda>found.
     case found of
       None \<Rightarrow> ret (False, c)
     | Some a \<Rightarrow>
         bindc (page_at a c) (\<lambda>p.
         case write_back p c of
           (None, c) \<Rightarrow> ret (True, c)
         | (Some True, c) \<Rightarrow> bindc (page_upd a (\<lambda>p. p\<lparr>pg_is_dirty := False\<rparr>) c) (\<lambda>c. ret (True, c))
         | (Some False, c) \<Rightarrow> ret (False, c)))"

definition page_cache_evict :: "u32 \<Rightarrow> PageCache \<Rightarrow> (bool \<times> PageCache) comp" where
  "page_cache_evict page_id c =
     bindc (hash_find page_id c) (\<lambda>found.
     case found of
       None \<Rightarrow> ret (False, c)
     | Some a \<Rightarrow>
         bindc (page_at a c) (\<lambda>p.
         if pg_refcount p > 0 then ret (False, c) else
         case write_back p c of
           (Some False, c) \<Rightarrow> ret (False, c)
         | (_, c) \<Rightarrow> bindc (drop_page a c) (\<lambda>c. ret (True, c))))"

partial_function (option) clear_chain :: "addr option \<Rightarrow> PageCache \<Rightarrow> PageCache comp" where
  "clear_chain q c =
     (case q of
        None \<Rightarrow> ret c
      | Some a \<Rightarrow>
          bindc (page_at a c) (\<lambda>p.
          case write_back p c of (_, c) \<Rightarrow>
            bindc (lru_remove a c) (\<lambda>c.
            bindc (page_free a c) (\<lambda>c. clear_chain (pg_hash_next p) c))))"

fun clear_buckets :: "nat list \<Rightarrow> PageCache \<Rightarrow> PageCache comp" where
  "clear_buckets [] c = ret c"
| "clear_buckets (i # is) c =
     bindc (bucket i c) (\<lambda>q.
     bindc (clear_chain q c) (\<lambda>c.
     bindc (set_bucket i None c) (\<lambda>c. clear_buckets is c)))"

definition page_cache_clear :: "PageCache \<Rightarrow> PageCache comp" where
  "page_cache_clear c =
     bindc (clear_buckets [0..<pc_table_size c] c) (\<lambda>c.
     ret (c\<lparr>pc_count := 0, pc_lru_head := None, pc_lru_tail := None\<rparr>))"

partial_function (option) free_pages :: "addr option \<Rightarrow> PageCache \<Rightarrow> PageCache comp" where
  "free_pages q c =
     (case q of
        None \<Rightarrow> ret c
      | Some a \<Rightarrow> bindc (page_at a c) (\<lambda>p. bindc (page_free a c) (\<lambda>c. free_pages (pg_hash_next p) c)))"

fun free_buckets :: "nat list \<Rightarrow> PageCache \<Rightarrow> PageCache comp" where
  "free_buckets [] c = ret c"
| "free_buckets (i # is) c =
     bindc (bucket i c) (\<lambda>q. bindc (free_pages q c) (\<lambda>c. free_buckets is c))"

text \<open>The cache itself is gone afterwards; what is left is the pager, which the caller owns.\<close>

definition page_cache_destroy :: "PageCache \<Rightarrow> Pager option comp" where
  "page_cache_destroy c =
     bindc (page_cache_flush c) (\<lambda>(_, c).
     bindc (free_buckets [0..<pc_table_size c] c) (\<lambda>c. ret (pc_pager c)))"

section \<open>Statistics\<close>

definition page_cache_stats :: "PageCache \<Rightarrow> int \<times> int \<times> int \<times> int" where
  "page_cache_stats c = (pc_hit_count c, pc_miss_count c, pc_count c, pc_pin_count c)"

definition page_cache_reset_stats :: "PageCache \<Rightarrow> PageCache" where
  "page_cache_reset_stats c =
     c\<lparr>pc_hit_count := 0, pc_miss_count := 0, pc_pin_count := 0, pc_evict_count := 0\<rparr>"

definition page_cache_hit_rate :: "PageCache \<Rightarrow> u64" where
  "page_cache_hit_rate c =
     (case page_cache_stats c of (hits, misses, _, _) \<Rightarrow>
      let total = hits + misses in
      if total = 0 then 0 else fdiv (of_int64 (word_of_int hits)) (of_int64 (word_of_int total)))"

end
