(* ===== verification/Cache_Inv.thy ===== *)
theory Cache_Inv
  imports Page_Cache
begin

text \<open>
  What the page cache keeps and what it delivers.  \<open>cache_wf\<close> is the invariant of the hash
  table: every bucket is a doubly linked list of the cached pages that hash to it, no two
  frames have the same page, and every link of the list by last use leads to an allocated
  page.  As long as no page is evicted, every operation keeps it, a page that is asked for is
  delivered with the contents last stored in it, and a flush brings the file up to date.  The
  last section is about what happens when pages are evicted.
\<close>

section \<open>The invariant\<close>

fun chain :: "(addr \<Rightarrow> Page option) \<Rightarrow> addr option \<Rightarrow> addr option \<Rightarrow> addr list \<Rightarrow> bool" where
  "chain h prev q [] \<longleftrightarrow> q = None"
| "chain h prev q (a # as) \<longleftrightarrow> q = Some a \<and>
     (\<exists>p. h a = Some p \<and> pg_hash_prev p = prev \<and> chain h (Some a) (pg_hash_next p) as)"

text \<open>The parts of a page that the hash table depends on, and those that a client can see.\<close>

definition core :: "Page \<Rightarrow> nat \<times> u32 \<times> addr option \<times> addr option" where
  "core p = (length (pg_data p), pg_id p, pg_hash_next p, pg_hash_prev p)"

definition body :: "Page \<Rightarrow> bytes \<times> u32 \<times> bool \<times> addr option \<times> addr option" where
  "body p = (pg_data p, pg_id p, pg_is_dirty p, pg_hash_next p, pg_hash_prev p)"

definition cached :: "PageCache \<Rightarrow> addr \<Rightarrow> u32 \<Rightarrow> bool" where
  "cached c a p \<longleftrightarrow> (\<exists>g. pc_heap c a = Some g \<and> pg_id g = p)"

definition table_ok :: "PageCache \<Rightarrow> addr list list \<Rightarrow> bool" where
  "table_ok c B \<longleftrightarrow>
     0 < pc_table_size c \<and> pc_table_size c < 2 ^ 32 \<and>
     length (pc_pages c) = pc_table_size c \<and> length B = pc_table_size c \<and>
     (\<forall>i < pc_table_size c. chain (pc_heap c) None (pc_pages c ! i) (B ! i) \<and> distinct (B ! i) \<and>
        (\<forall>a \<in> set (B ! i). \<exists>g. pc_heap c a = Some g \<and> hash_page_id (pg_id g) (pc_table_size c) = i)) \<and>
     (\<forall>a g. pc_heap c a = Some g \<longrightarrow> a < pc_brk c \<and> length (pg_data g) = PAGE_SIZE \<and>
        a \<in> set (B ! hash_page_id (pg_id g) (pc_table_size c))) \<and>
     (\<forall>a b p. cached c a p \<longrightarrow> cached c b p \<longrightarrow> a = b) \<and>
     pc_count c = int (card (dom (pc_heap c)))"

definition lru_ok :: "PageCache \<Rightarrow> bool" where
  "lru_ok c \<longleftrightarrow>
     (\<forall>a g. pc_heap c a = Some g \<longrightarrow>
        set_option (pg_lru_next g) \<subseteq> dom (pc_heap c) \<and> set_option (pg_lru_prev g) \<subseteq> dom (pc_heap c)) \<and>
     set_option (pc_lru_head c) \<subseteq> dom (pc_heap c) \<and> set_option (pc_lru_tail c) \<subseteq> dom (pc_heap c)"

definition cache_wf :: "PageCache \<Rightarrow> bool" where
  "cache_wf c \<longleftrightarrow> (\<exists>B. table_ok c B) \<and> lru_ok c"

lemma chain_cong:
  "(\<And>a. a \<in> set as \<Longrightarrow> map_option core (h' a) = map_option core (h a)) \<Longrightarrow>
   chain h prev q as \<Longrightarrow> chain h' prev q as"
proof (induction as arbitrary: prev q)
  case (Cons a as)
  then obtain p where p: "h a = Some p" "q = Some a" "pg_hash_prev p = prev"
    "chain h (Some a) (pg_hash_next p) as" by auto
  then obtain p' where "h' a = Some p'" "core p' = core p"
    using Cons.prems(1)[of a] by auto
  with p Cons.IH[of "Some a" "pg_hash_next p"] Cons.prems(1) show ?case
    by (auto simp: core_def)
qed simp

text \<open>Two states with the same table, in which the pages agree in \<open>core\<close> (\<open>body\<close>).\<close>

definition like_core :: "PageCache \<Rightarrow> PageCache \<Rightarrow> bool" where
  "like_core c c' \<longleftrightarrow> pc_pages c' = pc_pages c \<and> pc_table_size c' = pc_table_size c \<and>
     pc_count c' = pc_count c \<and> pc_max_pages c' = pc_max_pages c \<and> pc_brk c' = pc_brk c \<and>
     (\<forall>a. map_option core (pc_heap c' a) = map_option core (pc_heap c a))"

definition like :: "PageCache \<Rightarrow> PageCache \<Rightarrow> bool" where
  "like c c' \<longleftrightarrow> pc_pages c' = pc_pages c \<and> pc_table_size c' = pc_table_size c \<and>
     pc_count c' = pc_count c \<and> pc_max_pages c' = pc_max_pages c \<and> pc_brk c' = pc_brk c \<and>
     pc_pager c' = pc_pager c \<and> (\<forall>a. map_option body (pc_heap c' a) = map_option body (pc_heap c a))"

lemma like_refl [simp]: "like c c"
  by (simp add: like_def)

lemma like_trans [trans]: "like c d \<Longrightarrow> like d e \<Longrightarrow> like c e"
  by (simp add: like_def)

lemma like_dom: "like c c' \<Longrightarrow> dom (pc_heap c') = dom (pc_heap c)"
  by (auto simp: like_def dom_def) (metis map_option_is_None not_None_eq)+

lemma body_core: "map_option body x = map_option body y \<Longrightarrow> map_option core x = map_option core y"
  by (cases x; cases y) (auto simp: body_def core_def)

lemma like_like_core: "like c c' \<Longrightarrow> like_core c c'"
  by (auto simp: like_def like_core_def intro: body_core)

lemma like_core_page:
  assumes "like_core c c'" "pc_heap c a = Some g"
  obtains g' where "pc_heap c' a = Some g'" "core g' = core g"
proof -
  from assms have "map_option core (pc_heap c' a) = Some (core g)" by (simp add: like_core_def)
  then show thesis using that by auto
qed

lemma like_core_sym: "like_core c c' \<Longrightarrow> like_core c' c"
  by (simp add: like_core_def)

lemma like_core_cached: "like_core c c' \<Longrightarrow> cached c' a p \<longleftrightarrow> cached c a p"
  unfolding cached_def by (auto simp: core_def elim: like_core_page like_core_page[OF like_core_sym])

lemma like_core_dom: "like_core c c' \<Longrightarrow> dom (pc_heap c') = dom (pc_heap c)"
  by (auto simp: like_core_def dom_def) (metis map_option_is_None not_None_eq)+

lemma table_ok_cong:
  assumes t: "table_ok c B" and l: "like_core c c'"
  shows "table_ok c' B"
proof -
  have h: "\<exists>g'. pc_heap c' a = Some g' \<and> core g' = core g" if "pc_heap c a = Some g" for a g
    using like_core_page[OF l that] by metis
  have h': "\<exists>g. pc_heap c a = Some g \<and> core g' = core g" if "pc_heap c' a = Some g'" for a g'
    using like_core_page[OF like_core_sym[OF l] that] by metis
  have "chain (pc_heap c') None (pc_pages c ! i) (B ! i)" if "chain (pc_heap c) None (pc_pages c ! i) (B ! i)" for i
    using chain_cong[OF _ that] l by (simp add: like_core_def)
  moreover have "\<exists>g. pc_heap c' a = Some g \<and> hash_page_id (pg_id g) (pc_table_size c) = i"
    if "i < pc_table_size c" "a \<in> set (B ! i)" for a i
  proof -
    obtain g where "pc_heap c a = Some g" "hash_page_id (pg_id g) (pc_table_size c) = i"
      using t \<open>i < _\<close> \<open>a \<in> _\<close> unfolding table_ok_def by meson
    with h[of a g] show ?thesis by (auto simp: core_def)
  qed
  moreover have "a < pc_brk c \<and> length (pg_data g) = PAGE_SIZE \<and>
      a \<in> set (B ! hash_page_id (pg_id g) (pc_table_size c))" if g: "pc_heap c' a = Some g" for a g
  proof -
    obtain g0 where "pc_heap c a = Some g0" "core g = core g0" using h'[OF g] by blast
    with t show ?thesis unfolding table_ok_def core_def by auto
  qed
  ultimately show ?thesis
    using t l like_core_dom[OF l] like_core_cached[OF l] unfolding table_ok_def like_core_def by simp
qed

lemma cache_wf_cong: "cache_wf c \<Longrightarrow> like_core c c' \<Longrightarrow> lru_ok c' \<Longrightarrow> cache_wf c'"
  using table_ok_cong by (auto simp: cache_wf_def)

section \<open>Lookup\<close>

lemma hash_page_id_less: "0 < n \<Longrightarrow> n < 2 ^ 32 \<Longrightarrow> hash_page_id p n < n"
proof -
  assume n: "0 < n" "n < 2 ^ 32"
  have "(p * 31) AND (of_nat n - 1) \<le> (of_nat n - 1 :: u32)" by (rule word_and_le1)
  then have "hash_page_id p n \<le> unat (of_nat n - 1 :: u32)"
    by (simp add: hash_page_id_def word_le_nat_alt)
  moreover have "unat (of_nat n :: u32) = n"
    using n(2) by (simp add: unat_of_nat take_bit_nat_eq_self)
  then have "unat (of_nat n - 1 :: u32) = n - 1"
    using n(1) by (subst unat_minus_one) auto
  ultimately show ?thesis using n(1) by simp
qed

lemma hash_walk_simps [simp]:
  "hash_walk p None c = ret None"
  "hash_walk p (Some a) c =
     bindc (page_at a c) (\<lambda>g. if pg_id g = p then ret (Some a) else hash_walk p (pg_hash_next g) c)"
  by (simp_all add: hash_walk.simps[of p None c] hash_walk.simps[of p "Some a" c])

lemma find_eq: "a \<in> set xs \<Longrightarrow> find (\<lambda>x. x = a) xs = Some a"
  by (induction xs) auto

lemma hash_walk_chain:
  assumes "chain (pc_heap c) prev q as"
  shows "hash_walk p q c = ret (find (\<lambda>a. cached c a p) as)"
  using assms
proof (induction as arbitrary: prev q)
  case Nil
  then show ?case by simp
next
  case (Cons a as)
  then obtain g where "q = Some a" "pc_heap c a = Some g" "chain (pc_heap c) (Some a) (pg_hash_next g) as"
    by auto
  with Cons.IH[of "Some a" "pg_hash_next g"] show ?case
    by (simp add: page_at_def cached_def)
qed

lemma table_slot:
  assumes "table_ok c B"
  shows "hash_page_id p (pc_table_size c) < pc_table_size c"
  using assms hash_page_id_less unfolding table_ok_def by blast

lemma hash_find_table:
  assumes t: "table_ok c B"
  shows "hash_find p c = ret (find (\<lambda>a. cached c a p) (B ! hash_page_id p (pc_table_size c)))"
proof -
  let ?i = "hash_page_id p (pc_table_size c)"
  have "?i < pc_table_size c" by (rule table_slot[OF t])
  with t have "?i < length (pc_pages c)" "chain (pc_heap c) None (pc_pages c ! ?i) (B ! ?i)"
    unfolding table_ok_def by auto
  then show ?thesis by (simp add: hash_find_def bucket_def hash_walk_chain)
qed

lemma hash_find_hit:
  assumes "cache_wf c" "cached c a p"
  shows "hash_find p c = ret (Some a)"
proof -
  obtain B where t: "table_ok c B" using assms(1) by (auto simp: cache_wf_def)
  have "a \<in> set (B ! hash_page_id p (pc_table_size c))"
    using t assms(2) unfolding table_ok_def cached_def by blast
  moreover have "(\<lambda>b. cached c b p) = (\<lambda>b. b = a)"
    using t assms(2) unfolding table_ok_def by blast
  ultimately have "find (\<lambda>a. cached c a p) (B ! hash_page_id p (pc_table_size c)) = Some a"
    by (simp add: find_eq)
  then show ?thesis using hash_find_table[OF t] by simp
qed

lemma hash_find_miss:
  assumes "cache_wf c" "\<And>a. \<not> cached c a p"
  shows "hash_find p c = ret None"
proof -
  obtain B where t: "table_ok c B" using assms(1) by (auto simp: cache_wf_def)
  from assms(2) show ?thesis by (simp add: hash_find_table[OF t] find_None_iff)
qed

section \<open>The list by last use\<close>

lemma page_at_simps [simp]: "pc_heap c a = Some g \<Longrightarrow> page_at a c = ret g"
  by (simp add: page_at_def)

lemma page_upd_good:
  assumes "lru_ok c" "a \<in> dom (pc_heap c)"
    and "\<And>g. body (f g) = body g"
    and "\<And>g. set_option (pg_lru_next (f g)) \<subseteq> set_option (pg_lru_next g) \<union> dom (pc_heap c)"
    and "\<And>g. set_option (pg_lru_prev (f g)) \<subseteq> set_option (pg_lru_prev g) \<union> dom (pc_heap c)"
  obtains c' where "page_upd a f c = ret c'" "like c c'" "lru_ok c'"
    "pc_lru_head c' = pc_lru_head c" "pc_lru_tail c' = pc_lru_tail c"
proof -
  obtain g where g: "pc_heap c a = Some g" using assms(2) by auto
  let ?c = "c\<lparr>pc_heap := (pc_heap c)(a \<mapsto> f g)\<rparr>"
  have d: "dom (pc_heap ?c) = dom (pc_heap c)" using assms(2) by auto
  have l: "set_option (pg_lru_next g) \<subseteq> dom (pc_heap c)" "set_option (pg_lru_prev g) \<subseteq> dom (pc_heap c)"
    using assms(1) g unfolding lru_ok_def by blast+
  have "set_option (pg_lru_next (f g)) \<subseteq> dom (pc_heap c)" "set_option (pg_lru_prev (f g)) \<subseteq> dom (pc_heap c)"
    using l assms(4,5)[of g] by blast+
  then have "lru_ok ?c"
    using assms(1) unfolding lru_ok_def d by (simp split: if_splits)
  moreover have "like c ?c" using g assms(3)[of g] by (simp add: like_def)
  ultimately show thesis using that[of ?c] g by (simp add: page_upd_def)
qed

lemma upd_if_good:
  assumes "lru_ok c" "set_option q \<subseteq> dom (pc_heap c)"
    and "\<And>g. body (f g) = body g"
    and "\<And>g. set_option (pg_lru_next (f g)) \<subseteq> set_option (pg_lru_next g) \<union> dom (pc_heap c)"
    and "\<And>g. set_option (pg_lru_prev (f g)) \<subseteq> set_option (pg_lru_prev g) \<union> dom (pc_heap c)"
  obtains c' where "upd_if q f c = ret c'" "like c c'" "lru_ok c'"
    "pc_lru_head c' = pc_lru_head c" "pc_lru_tail c' = pc_lru_tail c"
proof (cases q)
  case None
  then show thesis using that[of c] assms(1) by (simp add: upd_if_def)
next
  case (Some a)
  then have "a \<in> dom (pc_heap c)" using assms(2) by simp
  from page_upd_good[OF assms(1) this assms(3-5)] Some that show thesis by (auto simp: upd_if_def)
qed

lemma lru_links:
  assumes "lru_ok c" "pc_heap c a = Some g"
  shows "set_option (pg_lru_next g) \<subseteq> dom (pc_heap c)" "set_option (pg_lru_prev g) \<subseteq> dom (pc_heap c)"
  using assms unfolding lru_ok_def by blast+

lemma lru_remove_good:
  assumes "lru_ok c" "a \<in> dom (pc_heap c)"
  obtains c' where "lru_remove a c = ret c'" "like c c'" "lru_ok c'"
    "pc_lru_head c' = pc_lru_head c" "pc_lru_tail c' = pc_lru_tail c"
proof -
  obtain g where g: "pc_heap c a = Some g" using assms(2) by auto
  note l = lru_links[OF assms(1) g]
  obtain c1 where 1: "upd_if (pg_lru_prev g) (\<lambda>q. q\<lparr>pg_lru_next := pg_lru_next g\<rparr>) c = ret c1"
    "like c c1" "lru_ok c1" "pc_lru_head c1 = pc_lru_head c" "pc_lru_tail c1 = pc_lru_tail c"
    by (rule upd_if_good[OF assms(1) l(2), of "\<lambda>q. q\<lparr>pg_lru_next := pg_lru_next g\<rparr>"])
      (use l(1) in \<open>auto simp: body_def\<close>)
  then obtain g1 where g1: "pc_heap c1 a = Some g1" using assms(2) like_dom by blast
  note l1 = lru_links[OF 1(3) g1]
  obtain c2 where 2: "upd_if (pg_lru_next g1) (\<lambda>q. q\<lparr>pg_lru_prev := pg_lru_prev g1\<rparr>) c1 = ret c2"
    "like c1 c2" "lru_ok c2" "pc_lru_head c2 = pc_lru_head c1" "pc_lru_tail c2 = pc_lru_tail c1"
    by (rule upd_if_good[OF 1(3) l1(1), of "\<lambda>q. q\<lparr>pg_lru_prev := pg_lru_prev g1\<rparr>"])
      (use l1(2) in \<open>auto simp: body_def\<close>)
  have d2: "a \<in> dom (pc_heap c2)" using assms(2) like_dom[OF 1(2)] like_dom[OF 2(2)] by simp
  obtain c3 where 3: "page_upd a (\<lambda>p. p\<lparr>pg_lru_prev := None, pg_lru_next := None\<rparr>) c2 = ret c3"
    "like c2 c3" "lru_ok c3" "pc_lru_head c3 = pc_lru_head c2" "pc_lru_tail c3 = pc_lru_tail c2"
    by (rule page_upd_good[OF 2(3) d2, of "\<lambda>p. p\<lparr>pg_lru_prev := None, pg_lru_next := None\<rparr>"])
      (auto simp: body_def)
  have "lru_remove a c = ret c3" using g g1 1(1) 2(1) 3(1) by (simp add: lru_remove_def)
  then show thesis
    using that like_trans[OF like_trans[OF 1(2) 2(2)] 3(2)] 1(4,5) 2(4,5) 3(3-5) by simp
qed

lemma lru_add_front_good:
  assumes "lru_ok c" "a \<in> dom (pc_heap c)"
  obtains c' where "lru_add_front a c = ret c'" "like c c'" "lru_ok c'"
    "pc_lru_head c' = Some a" "pc_lru_tail c' = (if pc_lru_tail c = None then Some a else pc_lru_tail c)"
proof -
  have h: "set_option (pc_lru_head c) \<subseteq> dom (pc_heap c)" using assms(1) unfolding lru_ok_def by blast
  obtain c1 where 1: "page_upd a (\<lambda>p. p\<lparr>pg_lru_next := pc_lru_head c, pg_lru_prev := None\<rparr>) c = ret c1"
    "like c c1" "lru_ok c1" "pc_lru_head c1 = pc_lru_head c" "pc_lru_tail c1 = pc_lru_tail c"
    by (rule page_upd_good[OF assms, of "\<lambda>p. p\<lparr>pg_lru_next := pc_lru_head c, pg_lru_prev := None\<rparr>"])
      (use h in \<open>auto simp: body_def\<close>)
  have h1: "set_option (pc_lru_head c1) \<subseteq> dom (pc_heap c1)" and a1: "a \<in> dom (pc_heap c1)"
    using h 1(4) like_dom[OF 1(2)] assms(2) by simp_all
  obtain c2 where 2: "upd_if (pc_lru_head c1) (\<lambda>q. q\<lparr>pg_lru_prev := Some a\<rparr>) c1 = ret c2"
    "like c1 c2" "lru_ok c2" "pc_lru_head c2 = pc_lru_head c1" "pc_lru_tail c2 = pc_lru_tail c1"
    by (rule upd_if_good[OF 1(3) h1, of "\<lambda>q. q\<lparr>pg_lru_prev := Some a\<rparr>"])
      (use a1 in \<open>auto simp: body_def\<close>)
  let ?c = "c2\<lparr>pc_lru_head := Some a, pc_lru_tail := if pc_lru_tail c2 = None then Some a else pc_lru_tail c2\<rparr>"
  have "lru_ok ?c" using 2(3) a1 like_dom[OF 2(2)] unfolding lru_ok_def by auto
  moreover have "like c ?c" using like_trans[OF 1(2) 2(2)] by (simp add: like_def)
  ultimately show thesis using that[of ?c] 1(1,5) 2(1,5) by (simp add: lru_add_front_def)
qed

section \<open>Contents\<close>

text \<open>What a client sees as the contents of a page: the frame's, or what the pager would read.\<close>

definition frame_of :: "PageCache \<Rightarrow> u32 \<Rightarrow> addr option" where
  "frame_of c p = (if \<exists>a. cached c a p then Some (THE a. cached c a p) else None)"

definition cache_view :: "PageCache \<Rightarrow> u32 \<Rightarrow> bytes" where
  "cache_view c p =
     (case frame_of c p of
        Some a \<Rightarrow> (case pc_heap c a of None \<Rightarrow> [] | Some g \<Rightarrow> pg_data g)
      | None \<Rightarrow> (case pc_pager c of None \<Rightarrow> [] | Some pg \<Rightarrow> pager_page pg p))"

lemma cached_unique: "cache_wf c \<Longrightarrow> cached c a p \<Longrightarrow> cached c b p \<Longrightarrow> a = b"
  unfolding cache_wf_def table_ok_def by blast

lemma frame_of_cached: "cache_wf c \<Longrightarrow> cached c a p \<Longrightarrow> frame_of c p = Some a"
  unfolding frame_of_def by (auto intro: the_equality dest: cached_unique)

lemma frame_of_SomeD: "cache_wf c \<Longrightarrow> frame_of c p = Some a \<Longrightarrow> cached c a p"
  by (metis frame_of_cached frame_of_def option.distinct(1) option.inject)

lemma view_cached: "cache_wf c \<Longrightarrow> pc_heap c a = Some g \<Longrightarrow> cache_view c (pg_id g) = pg_data g"
  by (simp add: cache_view_def frame_of_cached[of c a] cached_def)

lemma view_uncached:
  "(\<And>a. \<not> cached c a p) \<Longrightarrow> pc_pager c = Some pg \<Longrightarrow> cache_view c p = pager_page pg p"
  by (simp add: cache_view_def frame_of_def)

lemma like_cached: "like c c' \<Longrightarrow> cached c' a p \<longleftrightarrow> cached c a p"
  by (rule like_core_cached[OF like_like_core])

lemma like_view:
  assumes "like c c'"
  shows "cache_view c' p = cache_view c p"
proof -
  have "frame_of c' p = frame_of c p" using like_cached[OF assms] by (simp add: frame_of_def)
  moreover have "map_option body (pc_heap c' a) = map_option body (pc_heap c a)" for a
    using assms by (simp add: like_def)
  then have "map_option pg_data (pc_heap c' a) = map_option pg_data (pc_heap c a)" for a
    by (cases "pc_heap c' a"; cases "pc_heap c a") (metis (mono_tags) body_def option.distinct(1)
        option.inject option.simps(8,9) prod.inject)+
  then have "(case pc_heap c' a of None \<Rightarrow> [] | Some g \<Rightarrow> pg_data g) =
      (case pc_heap c a of None \<Rightarrow> [] | Some g \<Rightarrow> pg_data g)" for a
    by (metis (mono_tags, lifting) option.case_eq_if option.map_disc_iff option.map_sel)
  moreover have "pc_pager c' = pc_pager c" using assms by (simp add: like_def)
  ultimately show ?thesis by (cases "frame_of c p") (simp_all add: cache_view_def)
qed

lemma like_wf: "cache_wf c \<Longrightarrow> like c c' \<Longrightarrow> lru_ok c' \<Longrightarrow> cache_wf c'"
  by (rule cache_wf_cong[OF _ like_like_core])

section \<open>A page that is present\<close>

lemma wf_lru: "cache_wf c \<Longrightarrow> lru_ok c"
  by (simp add: cache_wf_def)

lemma cached_dom: "cached c a p \<Longrightarrow> a \<in> dom (pc_heap c)"
  by (auto simp: cached_def)

lemma cache_hit_good:
  assumes wf: "cache_wf c" and a: "a \<in> dom (pc_heap c)"
  obtains c' where "cache_hit a c = ret (Some a, c')" "like c c'" "cache_wf c'"
proof -
  let ?c = "c\<lparr>pc_hit_count := pc_hit_count c + 1\<rparr>"
  have c0: "like c ?c" "lru_ok ?c" using wf_lru[OF wf] by (simp_all add: like_def lru_ok_def)
  have a0: "a \<in> dom (pc_heap ?c)" using a by simp
  obtain c1 where 1: "lru_remove a ?c = ret c1" "like ?c c1" "lru_ok c1"
    by (rule lru_remove_good[OF c0(2) a0])
  have a1: "a \<in> dom (pc_heap c1)" using a like_dom[OF 1(2)] by simp
  obtain c2 where 2: "lru_add_front a c1 = ret c2" "like c1 c2" "lru_ok c2"
    by (rule lru_add_front_good[OF 1(3) a1])
  have a2: "a \<in> dom (pc_heap c2)" using a1 like_dom[OF 2(2)] by simp
  obtain c3 where 3: "page_upd a (\<lambda>p. p\<lparr>pg_refcount := pg_refcount p + 1\<rparr>) c2 = ret c3" "like c2 c3" "lru_ok c3"
    by (rule page_upd_good[OF 2(3) a2, of "\<lambda>p. p\<lparr>pg_refcount := pg_refcount p + 1\<rparr>"]) (auto simp: body_def)
  let ?c' = "c3\<lparr>pc_pin_count := pc_pin_count c3 + 1\<rparr>"
  have "like c3 ?c'" "lru_ok ?c'" using 3(3) by (simp_all add: like_def lru_ok_def)
  moreover have "like c c3" using c0(1) 1(2) 2(2) 3(2) like_trans by blast
  ultimately have "like c ?c'" "cache_wf ?c'" using like_trans like_wf[OF wf] by blast+
  then show thesis using that 1(1) 2(1) 3(1) by (simp add: cache_hit_def lru_mru_def)
qed

lemma get_hit:
  assumes "cache_wf c" "cached c a p"
  obtains c' where "page_cache_get p c = ret (Some a, c')" "like c c'" "cache_wf c'"
proof -
  obtain c' where "cache_hit a c = ret (Some a, c')" "like c c'" "cache_wf c'"
    by (rule cache_hit_good[OF assms(1) cached_dom[OF assms(2)]])
  then show thesis using that hash_find_hit[OF assms] by (simp add: page_cache_get_def)
qed

section \<open>A page that is read in\<close>

lemma chain_head_prev:
  assumes "chain h None q bs" "distinct bs"
  shows "chain (case q of None \<Rightarrow> h | Some b \<Rightarrow> h(b := map_option (\<lambda>p. p\<lparr>pg_hash_prev := Some a\<rparr>) (h b))) (Some a) q bs"
proof (cases bs)
  case (Cons b cs)
  then obtain p where p: "q = Some b" "h b = Some p" "chain h (Some b) (pg_hash_next p) cs"
    using assms(1) by auto
  have "b \<notin> set cs" using assms(2) Cons by simp
  then have "chain (h(b \<mapsto> p\<lparr>pg_hash_prev := Some a\<rparr>)) (Some b) (pg_hash_next p) cs"
    by (intro chain_cong[OF _ p(3)]) auto
  then show ?thesis using p Cons by simp
qed (use assms in simp)


text \<open>A new frame enters the table at the front of its bucket.\<close>

definition with_frame :: "addr \<Rightarrow> Page \<Rightarrow> PageCache \<Rightarrow> PageCache" where
  "with_frame a g c = c\<lparr>pc_heap := (pc_heap c)(a \<mapsto> g), pc_brk := Suc a\<rparr>"

text \<open>The situation in which \<^verbatim>\<open>hash_insert\<close> is called, and the heap that it leaves.\<close>

definition enters :: "PageCache \<Rightarrow> addr list list \<Rightarrow> addr \<Rightarrow> Page \<Rightarrow> bool" where
  "enters c B a g \<longleftrightarrow> table_ok c B \<and> a = pc_brk c \<and> (\<forall>b. \<not> cached c b (pg_id g)) \<and>
     length (pg_data g) = PAGE_SIZE"

definition slot :: "Page \<Rightarrow> PageCache \<Rightarrow> nat" where
  "slot g c = hash_page_id (pg_id g) (pc_table_size c)"

definition linked :: "addr \<Rightarrow> Page \<Rightarrow> PageCache \<Rightarrow> addr \<Rightarrow> Page option" where
  "linked a g c =
     (let q = pc_pages c ! slot g c;
          h = (pc_heap c)(a \<mapsto> g\<lparr>pg_hash_next := q, pg_hash_prev := None\<rparr>) in
      case q of None \<Rightarrow> h | Some b \<Rightarrow> h(b := map_option (\<lambda>p. p\<lparr>pg_hash_prev := Some a\<rparr>) (h b)))"

lemma entersD:
  assumes "enters c B a g"
  shows "pc_heap c a = None" "slot g c < pc_table_size c" "slot g c < length (pc_pages c)"
    "finite (dom (pc_heap c))"
proof -
  note T = assms[unfolded enters_def table_ok_def]
  show "pc_heap c a = None" using T by (metis less_irrefl option.exhaust)
  show "slot g c < pc_table_size c" using assms table_slot by (auto simp: slot_def enters_def)
  then show "slot g c < length (pc_pages c)" using T by simp
  have "dom (pc_heap c) \<subseteq> {..<pc_brk c}" using T by auto
  then show "finite (dom (pc_heap c))" by (rule finite_subset) simp
qed

lemma enters_bucket:
  assumes "enters c B a g" "i < pc_table_size c"
  shows "chain (pc_heap c) None (pc_pages c ! i) (B ! i)" "distinct (B ! i)"
    and "b \<in> set (B ! i) \<Longrightarrow> \<exists>p. pc_heap c b = Some p \<and> slot p c = i"
    and "b \<in> set (B ! i) \<Longrightarrow> b \<noteq> a"
    and "pc_pages c ! i = Some b \<Longrightarrow> b \<in> set (B ! i)"
proof -
  note T = assms(1)[unfolded enters_def table_ok_def]
  show 1: "chain (pc_heap c) None (pc_pages c ! i) (B ! i)" "distinct (B ! i)"
    using T assms(2) by blast+
  show 2: "\<exists>p. pc_heap c b = Some p \<and> slot p c = i" if "b \<in> set (B ! i)"
    using T assms(2) that unfolding slot_def by blast
  show "b \<in> set (B ! i) \<Longrightarrow> b \<noteq> a" using 2 entersD(1)[OF assms(1)] by auto
  show "pc_pages c ! i = Some b \<Longrightarrow> b \<in> set (B ! i)" using 1(1) by (cases "B ! i") auto
qed

lemma linked_new:
  assumes "enters c B a g"
  shows "linked a g c a = Some (g\<lparr>pg_hash_next := pc_pages c ! slot g c, pg_hash_prev := None\<rparr>)"
  using enters_bucket(4,5)[OF assms entersD(2)[OF assms]]
  by (auto simp: linked_def Let_def split: option.split)

lemma linked_other: "b \<noteq> a \<Longrightarrow> pc_pages c ! slot g c \<noteq> Some b \<Longrightarrow> linked a g c b = pc_heap c b"
  by (auto simp: linked_def Let_def split: option.split)

lemma linked_old:
  assumes "b \<noteq> a" "pc_heap c b = Some p"
  shows "\<exists>r. linked a g c b = Some (p\<lparr>pg_hash_prev := r\<rparr>)"
proof (cases "pc_pages c ! slot g c = Some b")
  case True
  then show ?thesis using assms by (auto simp: linked_def)
next
  case False
  with linked_other[OF assms(1)] assms(2) show ?thesis by (intro exI[of _ "pg_hash_prev p"]) simp
qed

lemma linked_dom:
  assumes "enters c B a g"
  shows "dom (linked a g c) = insert a (dom (pc_heap c))"
proof -
  have "linked a g c b \<noteq> None \<longleftrightarrow> b = a \<or> pc_heap c b \<noteq> None" for b
    using linked_new[OF assms] linked_old[of b a c _ g] linked_other[of b a c g]
      enters_bucket(3,5)[OF assms entersD(2)[OF assms], of b] by (cases "b = a"; cases "pc_heap c b") auto
  then show ?thesis by auto
qed

lemma hash_insert_eval:
  assumes e: "enters c B a g"
  shows "hash_insert a (with_frame a g c) =
    ret (c\<lparr>pc_heap := linked a g c, pc_brk := Suc a, pc_pages := (pc_pages c)[slot g c := Some a]\<rparr>)"
proof -
  let ?q = "pc_pages c ! slot g c"
  let ?h = "(pc_heap c)(a \<mapsto> g\<lparr>pg_hash_next := ?q, pg_hash_prev := None\<rparr>)"
  have "upd_if ?q (\<lambda>q. q\<lparr>pg_hash_prev := Some a\<rparr>) (c\<lparr>pc_brk := Suc a, pc_heap := ?h\<rparr>) =
      ret (c\<lparr>pc_brk := Suc a, pc_heap := linked a g c\<rparr>)"
  proof (cases ?q)
    case (Some b)
    then obtain p where "pc_heap c b = Some p" "b \<noteq> a"
      using enters_bucket(3-5)[OF e entersD(2)[OF e], of b] by auto
    with Some show ?thesis by (simp add: upd_if_def page_upd_def linked_def)
  qed (simp add: upd_if_def linked_def)
  with entersD(3)[OF e] show ?thesis
    by (simp add: hash_insert_def with_frame_def bucket_def page_upd_def set_bucket_def slot_def Let_def)
qed

lemma linked_chain:
  assumes e: "enters c B a g" and i: "i < pc_table_size c"
  shows "chain (linked a g c) None ((pc_pages c)[slot g c := Some a] ! i) (B[slot g c := a # B ! slot g c] ! i)"
proof (cases "i = slot g c")
  case True
  let ?q = "pc_pages c ! i"
  let ?h = "(pc_heap c)(a \<mapsto> g\<lparr>pg_hash_next := ?q, pg_hash_prev := None\<rparr>)"
  have "chain ?h None ?q (B ! i)"
    by (rule chain_cong[OF _ enters_bucket(1)[OF e i]]) (use enters_bucket(4)[OF e i] in auto)
  from chain_head_prev[OF this enters_bucket(2)[OF e i], of a]
  have "chain (linked a g c) (Some a) ?q (B ! i)" using True by (simp add: linked_def cong: option.case_cong)
  moreover have "length B = pc_table_size c" using e by (simp add: enters_def table_ok_def)
  ultimately show ?thesis using True i entersD(3)[OF e] linked_new[OF e] by simp
next
  case False
  have "linked a g c b = pc_heap c b" if "b \<in> set (B ! i)" for b
    using enters_bucket(3,4)[OF e i that] enters_bucket(3,5)[OF e entersD(2)[OF e], of b] False
    by (intro linked_other) auto
  with False show ?thesis by (auto intro!: chain_cong[OF _ enters_bucket(1)[OF e i]])
qed

lemma enters_page:
  assumes "enters c B a g" "pc_heap c b = Some p"
  shows "b < a" "length (pg_data p) = PAGE_SIZE" "b \<in> set (B ! slot p c)" "pg_id p \<noteq> pg_id g" "slot p c < pc_table_size c"
proof -
  have t: "table_ok c B" and a: "a = pc_brk c" using assms(1) by (simp_all add: enters_def)
  show "b < a" "length (pg_data p) = PAGE_SIZE" "b \<in> set (B ! slot p c)"
    using t assms(2) unfolding table_ok_def slot_def a by blast+
  show "pg_id p \<noteq> pg_id g" using assms by (auto simp: enters_def cached_def)
  show "slot p c < pc_table_size c" using table_slot[OF t] by (simp add: slot_def)
qed

text \<open>A frame of the new heap is the new one, or an old one with its page and its size.\<close>

lemma linked_cases:
  assumes e: "enters c B a g" and p': "linked a g c b = Some p'"
  obtains (new) "b = a" "pg_id p' = pg_id g" "length (pg_data p') = PAGE_SIZE"
  | (old) p where "b \<noteq> a" "pc_heap c b = Some p" "pg_id p' = pg_id p" "length (pg_data p') = PAGE_SIZE"
proof (cases "b = a")
  case True
  with p' linked_new[OF e] e show thesis by (intro new) (auto simp: enters_def)
next
  case False
  then obtain p where p: "pc_heap c b = Some p" using linked_dom[OF e] p' by auto
  then obtain r where "p' = p\<lparr>pg_hash_prev := r\<rparr>" using linked_old[OF False p, of g] p' by auto
  with p False enters_page(2)[OF e p] show thesis by (intro old) auto
qed

lemma linked_bucket:
  assumes e: "enters c B a g" and i: "i < pc_table_size c"
  shows "set (B[slot g c := a # B ! slot g c] ! i) = (if i = slot g c then insert a (set (B ! i)) else set (B ! i))"
    and "distinct (B[slot g c := a # B ! slot g c] ! i)"
proof -
  have l: "length B = pc_table_size c" using e by (simp add: enters_def table_ok_def)
  then show "set (B[slot g c := a # B ! slot g c] ! i) = (if i = slot g c then insert a (set (B ! i)) else set (B ! i))"
    using i by (simp add: nth_list_update)
  show "distinct (B[slot g c := a # B ! slot g c] ! i)"
    using l i enters_bucket(2)[OF e i] enters_bucket(4)[OF e i, of a] by (cases "i = slot g c") auto
qed

lemma linked_member:
  assumes e: "enters c B a g" and i: "i < pc_table_size c"
    and b: "b \<in> set (B[slot g c := a # B ! slot g c] ! i)"
  shows "\<exists>p. linked a g c b = Some p \<and> hash_page_id (pg_id p) (pc_table_size c) = i"
proof (cases "b \<in> set (B ! i)")
  case True
  then obtain p where "pc_heap c b = Some p" "slot p c = i" "b \<noteq> a" using enters_bucket(3,4)[OF e i] by blast
  with linked_old[of b a c p g] show ?thesis by (auto simp: slot_def)
next
  case False
  then have "b = a" "i = slot g c" using b linked_bucket(1)[OF e i] by (auto split: if_splits)
  with linked_new[OF e] show ?thesis by (simp add: slot_def)
qed

lemma linked_table:
  assumes e: "enters c B a g"
  shows "table_ok (c\<lparr>pc_heap := linked a g c, pc_brk := Suc a, pc_pages := (pc_pages c)[slot g c := Some a],
      pc_count := pc_count c + 1\<rparr>) (B[slot g c := a # B ! slot g c])" (is "table_ok ?c ?B")
proof -
  have t: "table_ok c B" using e by (simp add: enters_def)
  have "b < Suc a \<and> length (pg_data p) = PAGE_SIZE \<and> b \<in> set (?B ! hash_page_id (pg_id p) (pc_table_size c))"
    if p: "linked a g c b = Some p" for b p
    using e p
  proof (cases rule: linked_cases)
    case new
    then show ?thesis using linked_bucket(1)[OF e entersD(2)[OF e]] by (simp add: slot_def)
  next
    case (old p0)
    then have "hash_page_id (pg_id p) (pc_table_size c) = slot p0 c" by (simp add: slot_def)
    with old enters_page(1-3)[OF e old(2)] linked_bucket(1)[OF e enters_page(5)[OF e old(2)]] show ?thesis by auto
  qed
  moreover have "b = b'" if bb: "linked a g c b = Some p" "linked a g c b' = Some p'" "pg_id p = pg_id p'" for b b' p p'
    using e bb(1)
  proof (cases rule: linked_cases)
    case new
    then have "pg_id p' = pg_id g" using bb(3) by simp
    with enters_page(4)[OF e] have "b' = a" by (cases rule: linked_cases[OF e bb(2)]) auto
    with new show ?thesis by simp
  next
    case (old p0)
    have "cached c b (pg_id p)" using old by (simp add: cached_def)
    moreover have "cached c b' (pg_id p)"
      using e bb(2)
    proof (cases rule: linked_cases)
      case new
      with old bb(3) enters_page(4)[OF e old(2)] show ?thesis by simp
    qed (use bb(3) in \<open>simp add: cached_def\<close>)
    ultimately show ?thesis using t unfolding table_ok_def by blast
  qed
  then have "\<forall>b b' p. cached ?c b p \<longrightarrow> cached ?c b' p \<longrightarrow> b = b'" unfolding cached_def by fastforce
  moreover have "pc_count c + 1 = int (card (dom (linked a g c)))"
    using t linked_dom[OF e] entersD(1,4)[OF e] by (simp add: domIff table_ok_def)
  ultimately show ?thesis
    using t linked_chain[OF e] linked_bucket(2)[OF e] linked_member[OF e] unfolding table_ok_def by simp
qed

text \<open>What a frame shows to clients and to the pager: contents, page number, whether changed.\<close>

definition vis :: "PageCache \<Rightarrow> addr \<Rightarrow> (bytes \<times> u32 \<times> bool) option" where
  "vis c a = map_option (\<lambda>g. (pg_data g, pg_id g, pg_is_dirty g)) (pc_heap c a)"

lemma vis_heap: "pc_heap c' = pc_heap c \<Longrightarrow> vis c' = vis c"
  by (simp add: vis_def fun_eq_iff)

lemma vis_dom: "vis c a \<noteq> None \<longleftrightarrow> a \<in> dom (pc_heap c)"
  by (simp add: vis_def dom_def)

lemma vis_Some: "vis c a = Some (d, p, x) \<longleftrightarrow>
    (\<exists>g. pc_heap c a = Some g \<and> pg_data g = d \<and> pg_id g = p \<and> pg_is_dirty g = x)"
  by (auto simp: vis_def)

lemma cached_vis: "cached c a p \<longleftrightarrow> (\<exists>d x. vis c a = Some (d, p, x))"
  by (auto simp: cached_def vis_Some)

lemma vis_unique: "cache_wf c \<Longrightarrow> vis c a = Some (d, p, x) \<Longrightarrow> vis c b = Some (e, p, y) \<Longrightarrow> a = b"
  using cached_unique cached_vis by blast

lemma view_vis: "cache_wf c \<Longrightarrow> vis c a = Some (d, p, x) \<Longrightarrow> cache_view c p = d"
  by (auto simp: vis_Some dest: view_cached)

lemma like_vis: "like c c' \<Longrightarrow> vis c' = vis c"
proof
  fix a assume "like c c'"
  then have "map_option body (pc_heap c' a) = map_option body (pc_heap c a)" by (simp add: like_def)
  then show "vis c' a = vis c a"
    by (cases "pc_heap c' a"; cases "pc_heap c a") (auto simp: vis_def body_def)
qed

lemma linked_vis:
  assumes e: "enters c B a g" and h: "pc_heap c' = linked a g c"
  shows "vis c' = (vis c)(a \<mapsto> (pg_data g, pg_id g, pg_is_dirty g))"
proof
  fix b
  show "vis c' b = ((vis c)(a \<mapsto> (pg_data g, pg_id g, pg_is_dirty g))) b"
    using linked_new[OF e] linked_old[of b a c _ g] linked_other[of b a c g]
      enters_bucket(3,5)[OF e entersD(2)[OF e], of b]
    by (cases "b = a"; cases "pc_heap c b") (auto simp: vis_def h)
qed

lemma linked_lru:
  assumes e: "enters c B a g" and l: "lru_ok c" and g: "pg_lru_next g = None" "pg_lru_prev g = None"
    and h: "pc_heap c' = linked a g c" "pc_lru_head c' = pc_lru_head c" "pc_lru_tail c' = pc_lru_tail c"
  shows "lru_ok c'"
proof -
  have d: "dom (pc_heap c') = insert a (dom (pc_heap c))" using linked_dom[OF e] h(1) by simp
  have "set_option (pg_lru_next p') \<subseteq> dom (pc_heap c') \<and> set_option (pg_lru_prev p') \<subseteq> dom (pc_heap c')"
    if p': "pc_heap c' b = Some p'" for b p'
  proof (cases "b = a")
    case True
    then show ?thesis using p' linked_new[OF e] g h(1) by auto
  next
    case False
    then obtain p where p: "pc_heap c b = Some p" using d p' by (metis domD domI insertE)
    with linked_old[OF False p, of g] h(1) p' have "pg_lru_next p' = pg_lru_next p" "pg_lru_prev p' = pg_lru_prev p"
      by auto
    then show ?thesis using lru_links[OF l p] d by auto
  qed
  then show ?thesis using l h(2,3) d unfolding lru_ok_def by auto
qed

lemma cache_load_good:
  assumes wf: "cache_wf c" and miss: "\<And>a. \<not> cached c a p"
    and pg: "pager_ready pg" "pager_valid pg p"
  obtains a c' pg' where "cache_load p pg c = ret (Some a, c')" "cache_wf c'" "pc_heap c a = None"
    "vis c' = (vis c)(a \<mapsto> (pager_page pg p, p, False))"
    "pc_count c' = pc_count c + 1" "pc_max_pages c' = pc_max_pages c"
    "pc_pager c' = Some pg'" "snd (pager_read_page p pg) = pg'" "pager_ready pg'" "pager_valid pg' = pager_valid pg"
    "\<forall>q. pager_valid pg q \<longrightarrow> pager_page pg' q = pager_page pg q"
proof -
  obtain B where t: "table_ok c B" using wf by (auto simp: cache_wf_def)
  obtain pg' where rd: "pager_read_page p pg = (Some (pager_page pg p), pg')" "pager_ready pg'"
    "pager_valid pg' = pager_valid pg" "\<forall>q. pager_valid pg q \<longrightarrow> pager_page pg' q = pager_page pg q"
    using pager.rd_law[OF pg] by blast
  let ?a = "pc_brk c" and ?c = "c\<lparr>pc_pager := Some pg'\<rparr>"
  let ?g = "\<lparr>pg_data = pager_page pg p, pg_id = p, pg_refcount = 0, pg_is_dirty = False, pg_is_wal = False,
    pg_lru_next = None, pg_lru_prev = None, pg_hash_next = None, pg_hash_prev = None\<rparr> :: Page"
  have "table_ok ?c B" using t by (rule table_ok_cong) (simp add: like_core_def)
  then have e: "enters ?c B ?a ?g"
    using miss pager.page_len[OF pg] by (simp add: enters_def cached_def)
  let ?c2 = "?c\<lparr>pc_heap := linked ?a ?g ?c, pc_brk := Suc ?a, pc_pages := (pc_pages ?c)[slot ?g ?c := Some ?a]\<rparr>"
  have l2: "lru_ok ?c2" by (rule linked_lru[OF e]) (use wf_lru[OF wf] in \<open>simp_all add: lru_ok_def\<close>)
  have d2: "?a \<in> dom (pc_heap ?c2)" using linked_dom[OF e] by simp
  obtain c3 where 3: "lru_add_front ?a ?c2 = ret c3" "like ?c2 c3" "lru_ok c3"
    by (rule lru_add_front_good[OF l2 d2])
  let ?c3 = "c3\<lparr>pc_count := pc_count c3 + 1\<rparr>"
  have l3: "lru_ok ?c3" and d3: "?a \<in> dom (pc_heap ?c3)"
    using 3(3) d2 like_dom[OF 3(2)] by (simp_all add: lru_ok_def)
  obtain c4 where 4: "page_upd ?a (\<lambda>p. p\<lparr>pg_refcount := 1\<rparr>) ?c3 = ret c4" "like ?c3 c4" "lru_ok c4"
    by (rule page_upd_good[OF l3 d3, of "\<lambda>p. p\<lparr>pg_refcount := 1\<rparr>"]) (auto simp: body_def)
  let ?c5 = "c4\<lparr>pc_pin_count := pc_pin_count c4 + 1\<rparr>"
  have k: "like (?c2\<lparr>pc_count := pc_count ?c + 1\<rparr>) ?c5" using 3(2) 4(2) by (simp add: like_def)
  obtain c1 where c1: "page_alloc p c = (?a, c1)" by (simp add: page_alloc_def Let_def)
  then have "page_upd ?a (\<lambda>g. g\<lparr>pg_data := pager_page pg p\<rparr>) (c1\<lparr>pc_pager := Some pg'\<rparr>) = ret (with_frame ?a ?g ?c)"
    by (cases c) (auto simp: page_alloc_def page_upd_def with_frame_def Let_def)
  with c1 have "cache_load p pg c = ret (Some ?a, ?c5)"
    using hash_insert_eval[OF e] rd(1) 3(1) 4(1) by (simp add: cache_load_def)
  moreover have "cache_wf ?c5"
    using table_ok_cong[OF linked_table[OF e] like_like_core[OF k]] 4(3)
    by (auto simp: cache_wf_def lru_ok_def)
  moreover have "vis ?c5 = (vis c)(?a \<mapsto> (pager_page pg p, p, False))"
    using like_vis[OF k] linked_vis[OF e, of "?c2\<lparr>pc_count := pc_count ?c + 1\<rparr>"] vis_heap[of ?c c] by simp
  ultimately show thesis
    using that[of ?a ?c5 pg'] k rd entersD(1)[OF e] by (simp add: like_def)
qed

lemma get_miss:
  assumes wf: "cache_wf c" and miss: "\<And>a. \<not> cached c a p" and room: "pc_count c < pc_max_pages c"
    and pg: "pc_pager c = Some pg" "pager_ready pg" "pager_valid pg p"
  obtains a c' pg' where "page_cache_get p c = ret (Some a, c')" "cache_wf c'" "pc_heap c a = None"
    "vis c' = (vis c)(a \<mapsto> (pager_page pg p, p, False))"
    "pc_count c' = pc_count c + 1" "pc_max_pages c' = pc_max_pages c"
    "pc_pager c' = Some pg'" "snd (pager_read_page p pg) = pg'" "pager_ready pg'" "pager_valid pg' = pager_valid pg"
    "\<forall>q. pager_valid pg q \<longrightarrow> pager_page pg' q = pager_page pg q"
proof -
  let ?c = "c\<lparr>pc_miss_count := pc_miss_count c + 1\<rparr>"
  have k: "like c ?c" by (simp add: like_def)
  have wf': "cache_wf ?c" by (rule like_wf[OF wf k]) (use wf_lru[OF wf] in \<open>simp add: lru_ok_def\<close>)
  have miss': "\<not> cached ?c a p" for a using miss by (simp add: cached_def)
  have "page_cache_get p c = cache_load p pg ?c"
    using hash_find_miss[OF wf miss] hash_find_miss[OF wf' miss'] room pg(1)
    by (simp add: page_cache_get_def make_room.simps[of ?c])
  moreover have "vis ?c = vis c" by (rule like_vis[OF k])
  moreover obtain a c' pg' where "cache_load p pg ?c = ret (Some a, c')" "cache_wf c'" "pc_heap ?c a = None"
    "vis c' = (vis ?c)(a \<mapsto> (pager_page pg p, p, False))"
    "pc_count c' = pc_count ?c + 1" "pc_max_pages c' = pc_max_pages ?c"
    "pc_pager c' = Some pg'" "snd (pager_read_page p pg) = pg'" "pager_ready pg'" "pager_valid pg' = pager_valid pg"
    "\<forall>q. pager_valid pg q \<longrightarrow> pager_page pg' q = pager_page pg q"
    by (rule cache_load_good[OF wf' miss' pg(2,3)])
  ultimately show thesis by (intro that[of a c' pg']) simp_all
qed

section \<open>The cache provides frames\<close>

definition resident :: "PageCache \<Rightarrow> u32 \<Rightarrow> bool" where
  "resident c p \<longleftrightarrow> (\<exists>a. cached c a p)"

definition insync :: "PageCache \<Rightarrow> u32 \<Rightarrow> bool" where
  "insync c p \<longleftrightarrow> (\<forall>a d pg. vis c a = Some (d, p, False) \<longrightarrow> pc_pager c = Some pg \<longrightarrow> pager_page pg p = d)"

definition cache_ready :: "PageCache \<Rightarrow> bool" where
  "cache_ready c \<longleftrightarrow> cache_wf c \<and>
     (\<exists>pg. pc_pager c = Some pg \<and> pager_ready pg \<and> (\<forall>p. resident c p \<longrightarrow> pager_valid pg p))"

abbreviation cache_keeps :: "PageCache \<Rightarrow> PageCache \<Rightarrow> bool" where
  "cache_keeps \<equiv> keeps_pages resident cache_view insync"

lemma like_frames:
  assumes "like c c'" "cache_ready c" "lru_ok c'"
  shows "cache_ready c'" "cache_keeps c c'"
proof -
  have "pc_pager c' = pc_pager c" using assms(1) by (simp add: like_def)
  moreover have r: "resident c' p = resident c p" for p using like_cached[OF assms(1)] by (simp add: resident_def)
  ultimately show "cache_ready c'" using assms like_wf[of c c'] by (auto simp: cache_ready_def)
  have "insync c' p = insync c p" for p
    using like_vis[OF assms(1)] \<open>pc_pager c' = pc_pager c\<close> by (simp add: insync_def)
  then show "cache_keeps c c'" using r like_view[OF assms(1)] by (simp add: keeps_pages_def)
qed

text \<open>A change to one frame that leaves its page number and its place in the lists.\<close>

lemma frame_upd:
  assumes r: "cache_ready c" and g: "pc_heap c a = Some g" and f: "core (f g) = core g"
    "pg_lru_next (f g) = pg_lru_next g" "pg_lru_prev (f g) = pg_lru_prev g"
  defines "c' \<equiv> c\<lparr>pc_heap := (pc_heap c)(a \<mapsto> f g)\<rparr>"
  shows "page_upd a f c = ret c'" "cache_ready c'" "resident c' = resident c" "cached c' = cached c"
    "vis c' = (vis c)(a \<mapsto> (pg_data (f g), pg_id g, pg_is_dirty (f g)))"
    "cache_view c' = (cache_view c)(pg_id g := pg_data (f g))"
proof -
  show "page_upd a f c = ret c'" using g by (simp add: page_upd_def c'_def)
  have k: "like_core c c'" using g f(1) by (simp add: like_core_def c'_def)
  have d: "dom (pc_heap c') = dom (pc_heap c)" using g by (auto simp: c'_def)
  have l: "lru_ok c" using r by (simp add: cache_ready_def cache_wf_def)
  then have "lru_ok c'" using g f(2,3) lru_links[OF l g] unfolding lru_ok_def d by (simp add: c'_def)
  then have wf: "cache_wf c'" using cache_wf_cong[OF _ k] r by (simp add: cache_ready_def)
  show ca: "cached c' = cached c" using like_core_cached[OF k] by (simp add: fun_eq_iff)
  then show re: "resident c' = resident c" by (simp add: resident_def fun_eq_iff)
  then show "cache_ready c'" using wf r by (simp add: cache_ready_def c'_def)
  show vi: "vis c' = (vis c)(a \<mapsto> (pg_data (f g), pg_id g, pg_is_dirty (f g)))"
    using f(1) by (auto simp: vis_def c'_def core_def)
  show "cache_view c' = (cache_view c)(pg_id g := pg_data (f g))"
  proof
    fix q
    have fr: "frame_of c' q = frame_of c q" using ca by (simp add: frame_of_def)
    show "cache_view c' q = ((cache_view c)(pg_id g := pg_data (f g))) q"
    proof (cases "q = pg_id g")
      case True
      then show ?thesis using view_vis[OF wf, of a] vi by simp
    next
      case False
      then have "frame_of c q \<noteq> Some a"
        using g r frame_of_SomeD[of c q a] by (auto simp: cache_ready_def cached_def)
      with False fr show ?thesis by (simp add: cache_view_def c'_def split: option.split)
    qed
  qed
qed

lemma cache_ready_wf: "cache_ready c \<Longrightarrow> cache_wf c"
  by (simp add: cache_ready_def)

lemma pin_resident:
  assumes r: "cache_ready c" and p: "resident c p"
  obtains a c' where "page_pin p c = ret (Some a, c')" "cache_ready c'" "cached c' a p" "cache_keeps c c'"
proof -
  obtain a where a: "cached c a p" using p by (auto simp: resident_def)
  obtain c' where c': "page_cache_get p c = ret (Some a, c')" "like c c'" "cache_wf c'"
    by (rule get_hit[OF cache_ready_wf[OF r] a])
  have "cached c' a p" using a like_cached[OF c'(2)] by simp
  then show thesis
    using that[of a c'] c'(1) like_frames[OF c'(2) r wf_lru[OF c'(3)]] by (simp add: page_pin_def)
qed

lemma frame_upd_like:
  assumes r: "cache_ready c" and p: "cached c a p"
    and f: "\<And>g. body (f g) = body g" "\<And>g. pg_lru_next (f g) = pg_lru_next g" "\<And>g. pg_lru_prev (f g) = pg_lru_prev g"
  shows "\<exists>c'. page_upd a f c = ret c' \<and> cache_ready c' \<and> cached c' a p \<and> cache_keeps c c'"
proof -
  obtain c' where c': "page_upd a f c = ret c'" "like c c'" "lru_ok c'"
    by (rule page_upd_good[OF wf_lru[OF cache_ready_wf[OF r]] cached_dom[OF p], of f]) (use f in auto)
  with like_frames[OF c'(2) r c'(3)] like_cached[OF c'(2)] p show ?thesis by auto
qed

interpretation frames: page_frames cache_ready resident cache_view insync cached
  page_pin page_unpin page_mark_dirty page_data set_page_data
proof (unfold_locales, goal_cases)
  case (1 c p)
  then obtain a g where g: "pc_heap c a = Some g" "pg_id g = p" by (auto simp: resident_def cached_def)
  with 1 have "length (pg_data g) = PAGE_SIZE"
    unfolding cache_ready_def cache_wf_def table_ok_def by blast
  with view_cached[OF cache_ready_wf[OF 1(1)] g(1)] g(2) show ?case by simp
next
  case (2 c p)
  then show ?case using pin_resident[OF 2] by metis
next
  case (3 c a p)
  have "\<exists>c'. page_upd a (\<lambda>p. if pg_refcount p > 0 then p\<lparr>pg_refcount := pg_refcount p - 1\<rparr> else p) c = ret c' \<and>
      cache_ready c' \<and> cached c' a p \<and> cache_keeps c c'"
    by (rule frame_upd_like[OF 3]) (simp_all add: body_def)
  then show ?case by (auto simp: page_unpin_def upd_if_def)
next
  case (4 c a p)
  then obtain g where g: "pc_heap c a = Some g" "pg_id g = p" by (auto simp: cached_def)
  note u = frame_upd[OF 4(1) g(1), of "\<lambda>p. p\<lparr>pg_is_dirty := True\<rparr>"]
  let ?c = "c\<lparr>pc_heap := (pc_heap c)(a \<mapsto> g\<lparr>pg_is_dirty := True\<rparr>)\<rparr>"
  have v: "cache_view ?c = cache_view c"
    using u(6) view_cached[OF cache_ready_wf[OF 4(1)] g(1)] by (simp add: core_def fun_upd_idem)
  have "insync ?c q" if "q = p \<or> insync c q" for q
  proof -
    have A: "b \<noteq> a \<and> vis c b = Some (d, q, False)" if "vis ?c b = Some (d, q, False)" for b d
      using that u(5) by (auto simp: core_def split: if_splits)
    have B: "vis c b \<noteq> Some (d, p, False)" if "b \<noteq> a" for b d
      using that 4(2) cached_unique[OF cache_ready_wf[OF 4(1)], of a p b] by (auto simp: cached_vis)
    show ?thesis using \<open>q = p \<or> _\<close> B by (auto simp: insync_def dest!: A)
  qed
  then show ?case
    using u v 4(2) by (simp add: page_mark_dirty_def upd_if_def core_def keeps_pages_def)
next
  case (5 c a p)
  then show ?case using view_cached[OF cache_ready_wf[OF 5(1)], of a]
    by (auto simp: page_data_def cached_def resident_def)
next
  case (6 c a p b)
  then obtain g where g: "pc_heap c a = Some g" "pg_id g = p" by (auto simp: cached_def)
  with 6 have len: "length (pg_data g) = PAGE_SIZE"
    unfolding cache_ready_def cache_wf_def table_ok_def by blast
  note u = frame_upd[OF 6(1) g(1), of "\<lambda>p. p\<lparr>pg_data := b\<rparr>"]
  let ?c = "c\<lparr>pc_heap := (pc_heap c)(a \<mapsto> g\<lparr>pg_data := b\<rparr>)\<rparr>"
  have "insync ?c q" if "q \<noteq> p" "insync c q" for q
    using that u(5) g(2) len 6(3) by (auto simp: insync_def core_def)
  then show ?case
    using u g(2) len 6 by (simp add: set_page_data_def core_def)
qed

section \<open>Flushing\<close>

text \<open>
  \<open>flushes c c' S\<close>: the frames in \<open>S\<close> have been written out and are clean, everything
  else is as before.
\<close>

definition flushes :: "PageCache \<Rightarrow> PageCache \<Rightarrow> addr set \<Rightarrow> bool" where
  "flushes c c' S \<longleftrightarrow> like_core c c' \<and> cache_ready c' \<and>
     (\<forall>a. vis c' a = (if a \<in> S then map_option (\<lambda>(d, p, x). (d, p, False)) (vis c a) else vis c a)) \<and>
     (\<exists>pg pg'. pc_pager c = Some pg \<and> pc_pager c' = Some pg' \<and> pager_valid pg' = pager_valid pg \<and>
        (\<forall>a \<in> S. \<forall>d p. vis c a = Some (d, p, True) \<longrightarrow> pager_page pg' p = d) \<and>
        (\<forall>p. pager_valid pg p \<longrightarrow> (\<forall>a \<in> S. \<forall>d. vis c a \<noteq> Some (d, p, True)) \<longrightarrow>
           pager_page pg' p = pager_page pg p))"

lemma flushes_refl:
  assumes "cache_ready c" "\<And>a d p. a \<in> S \<Longrightarrow> vis c a \<noteq> Some (d, p, True)"
  shows "flushes c c S"
proof -
  have "vis c a = map_option (\<lambda>(d, p, x). (d, p, False)) (vis c a)" if "a \<in> S" for a
    using assms(2)[OF that] by (cases "vis c a") auto
  then show ?thesis using assms by (auto simp: flushes_def like_core_def cache_ready_def)
qed

lemma like_core_trans: "like_core c d \<Longrightarrow> like_core d e \<Longrightarrow> like_core c e"
  by (simp add: like_core_def)

lemma flushes_trans:
  assumes r: "cache_ready c" and 1: "flushes c c1 S" and 2: "flushes c1 c2 T"
  shows "flushes c c2 (S \<union> T)"
proof -
  obtain pg pg1 where p1: "pc_pager c = Some pg" "pc_pager c1 = Some pg1" "pager_valid pg1 = pager_valid pg"
    "\<And>a d p. a \<in> S \<Longrightarrow> vis c a = Some (d, p, True) \<Longrightarrow> pager_page pg1 p = d"
    "\<And>p. pager_valid pg p \<Longrightarrow> \<forall>a \<in> S. \<forall>d. vis c a \<noteq> Some (d, p, True) \<Longrightarrow> pager_page pg1 p = pager_page pg p"
    using 1 unfolding flushes_def by blast
  obtain pg2 where p2: "pc_pager c2 = Some pg2" "pager_valid pg2 = pager_valid pg1"
    "\<And>a d p. a \<in> T \<Longrightarrow> vis c1 a = Some (d, p, True) \<Longrightarrow> pager_page pg2 p = d"
    "\<And>p. pager_valid pg1 p \<Longrightarrow> \<forall>a \<in> T. \<forall>d. vis c1 a \<noteq> Some (d, p, True) \<Longrightarrow> pager_page pg2 p = pager_page pg1 p"
    using 2 p1(2) unfolding flushes_def by auto
  have v1: "vis c1 a = (if a \<in> S then map_option (\<lambda>(d, p, x). (d, p, False)) (vis c a) else vis c a)" for a
    using 1 by (simp add: flushes_def)
  have v2: "vis c2 a = (if a \<in> T then map_option (\<lambda>(d, p, x). (d, p, False)) (vis c1 a) else vis c1 a)" for a
    using 2 by (simp add: flushes_def)
  have "vis c2 a = (if a \<in> S \<union> T then map_option (\<lambda>(d, p, x). (d, p, False)) (vis c a) else vis c a)" for a
    by (cases "vis c a") (auto simp: v1 v2)
  moreover have "pager_page pg2 p = d" if a: "a \<in> S \<union> T" "vis c a = Some (d, p, True)" for a d p
  proof (cases "a \<in> S")
    case True
    have "vis c1 b \<noteq> Some (d', p, True)" for b d'
      using True a(2) cached_unique[OF cache_ready_wf[OF r], of a p b]
      by (auto simp: v1 cached_vis split: if_splits option.splits)
    moreover have "pager_valid pg1 p" using r a(2) p1(1,3) by (auto simp: cache_ready_def resident_def cached_vis)
    ultimately show ?thesis using p2(4) p1(4)[OF True a(2)] by simp
  next
    case False
    then show ?thesis using p2(3)[of a d p] a v1 by simp
  qed
  moreover have "pager_page pg2 p = pager_page pg p"
    if "pager_valid pg p" "\<forall>a \<in> S \<union> T. \<forall>d. vis c a \<noteq> Some (d, p, True)" for p
  proof -
    have "\<forall>a \<in> T. \<forall>d. vis c1 a \<noteq> Some (d, p, True)" using that(2) by (auto simp: v1 split: option.splits)
    then show ?thesis using p1(3,5) p2(4) that by simp
  qed
  ultimately show ?thesis
    using 1 2 p1(1-3) p2(1,2) like_core_trans[of c c1 c2] unfolding flushes_def by auto
qed

lemma flush_frame:
  assumes r: "cache_ready c" and g: "pc_heap c a = Some g"
  obtains w c1 c' where "write_back g c = (w, c1)" "flushes c c' {a}"
    "(if w = Some True then page_upd a (\<lambda>p. p\<lparr>pg_is_dirty := False\<rparr>) c1 else ret c1) = ret c'"
proof -
  obtain pg where pg: "pc_pager c = Some pg" "pager_ready pg" "pager_valid pg (pg_id g)"
    using r g by (auto simp: cache_ready_def resident_def cached_def)
  show thesis
  proof (cases "pg_is_dirty g")
    case False
    have "flushes c c {a}" by (rule flushes_refl[OF r]) (use g False in \<open>simp add: vis_def\<close>)
    then show thesis using that[of None c c] False pg(1) by (simp add: write_back_def)
  next
    case True
    have "length (pg_data g) = PAGE_SIZE" using r g unfolding cache_ready_def cache_wf_def table_ok_def by blast
    then obtain pg' where w: "pager_write_page (pg_id g) (pg_data g) pg = (True, pg')" "pager_ready pg'"
      "pager_valid pg' = pager_valid pg"
      "\<forall>q. pager_valid pg q \<longrightarrow> pager_page pg' q = (if q = pg_id g then pg_data g else pager_page pg q)"
      using pager.wr_law[OF pg(2,3)] by blast
    let ?c1 = "c\<lparr>pc_pager := Some pg'\<rparr>"
    let ?c' = "?c1\<lparr>pc_heap := (pc_heap ?c1)(a \<mapsto> g\<lparr>pg_is_dirty := False\<rparr>)\<rparr>"
    have "like_core c ?c1" by (simp add: like_core_def)
    then have "cache_wf ?c1" by (rule cache_wf_cong[OF cache_ready_wf[OF r]]) (use r in \<open>simp add: cache_ready_def cache_wf_def lru_ok_def\<close>)
    moreover have "resident ?c1 p = resident c p" for p by (simp add: resident_def cached_def)
    ultimately have r1: "cache_ready ?c1" using w(2,3) r pg(1) by (simp add: cache_ready_def)
    have g1: "pc_heap ?c1 a = Some g" using g by simp
    note u = frame_upd[OF r1 g1, of "\<lambda>p. p\<lparr>pg_is_dirty := False\<rparr>"]
    have va: "vis c a = Some (pg_data g, pg_id g, True)" using g True by (simp add: vis_def)
    have "like_core c ?c'" using g by (simp add: like_core_def core_def)
    moreover have "vis ?c' = (vis c)(a \<mapsto> (pg_data g, pg_id g, False))" using u(5) vis_heap[of ?c1 c] by (simp add: core_def)
    ultimately have "flushes c ?c' {a}"
      using u(2) va pg w(3,4) by (auto simp: flushes_def core_def)
    then show thesis using that[of "Some True" ?c1 ?c'] True pg(1) w(1) u(1) by (simp add: write_back_def core_def)
  qed
qed


lemma flush_chain_simps [simp]:
  "flush_chain None k c = ret (k, c)"
  "flush_chain (Some a) k c =
     bindc (page_at a c) (\<lambda>p.
       case write_back p c of (written, c) \<Rightarrow>
         if written = Some True then
           bindc (page_upd a (\<lambda>p. p\<lparr>pg_is_dirty := False\<rparr>) c) (\<lambda>c. flush_chain (pg_hash_next p) (k + 1) c)
         else flush_chain (pg_hash_next p) k c)"
  by (simp_all add: flush_chain.simps[of None] flush_chain.simps[of "Some a"])

lemma flush_chain_good:
  assumes "cache_ready c" "chain (pc_heap c) prev q as"
  shows "\<exists>n c'. flush_chain q k c = ret (n, c') \<and> flushes c c' (set as)"
  using assms
proof (induction as arbitrary: prev q k c)
  case Nil
  then show ?case by (auto intro: flushes_refl)
next
  case (Cons a as)
  then obtain g where g: "q = Some a" "pc_heap c a = Some g" "chain (pc_heap c) (Some a) (pg_hash_next g) as"
    by auto
  obtain w c1 c' where w: "write_back g c = (w, c1)" and f: "flushes c c' {a}"
    and u: "(if w = Some True then page_upd a (\<lambda>p. p\<lparr>pg_is_dirty := False\<rparr>) c1 else ret c1) = ret c'"
    by (rule flush_frame[OF Cons.prems(1) g(2)])
  have "chain (pc_heap c') (Some a) (pg_hash_next g) as"
    by (rule chain_cong[OF _ g(3)]) (use f in \<open>simp add: flushes_def like_core_def\<close>)
  moreover have "cache_ready c'" using f by (simp add: flushes_def)
  ultimately obtain n c'' where n: "flush_chain (pg_hash_next g) (if w = Some True then k + 1 else k) c' = ret (n, c'')"
    "flushes c' c'' (set as)" using Cons.IH by metis
  have "flush_chain q k c = ret (n, c'')"
    using g w u n(1) by (cases "w = Some True") simp_all
  moreover have "flushes c c'' (set (a # as))" using flushes_trans[OF Cons.prems(1) f n(2)] by simp
  ultimately show ?case by blast
qed

lemma flush_buckets_good:
  assumes "cache_ready c" "table_ok c B" "set is \<subseteq> {..<pc_table_size c}"
  shows "\<exists>n c'. flush_buckets is k c = ret (n, c') \<and> flushes c c' (\<Union>i \<in> set is. set (B ! i))"
  using assms
proof (induction "is" arbitrary: k c)
  case Nil
  then show ?case by (auto intro: flushes_refl)
next
  case (Cons i "is")
  then have i: "chain (pc_heap c) None (pc_pages c ! i) (B ! i)" "i < length (pc_pages c)"
    unfolding table_ok_def by auto
  obtain n c' where n: "flush_chain (pc_pages c ! i) k c = ret (n, c')" "flushes c c' (set (B ! i))"
    using flush_chain_good[OF Cons.prems(1) i(1)] by blast
  then have "cache_ready c'" "table_ok c' B" "pc_table_size c' = pc_table_size c"
    using table_ok_cong[OF Cons.prems(2)] by (auto simp: flushes_def like_core_def)
  then obtain m c'' where "flush_buckets is n c' = ret (m, c'')" "flushes c' c'' (\<Union>i \<in> set is. set (B ! i))"
    using Cons.IH[of c' n] Cons.prems(3) by auto
  with n i(2) flushes_trans[OF Cons.prems(1) n(2)] show ?case by (simp add: bucket_def)
qed

lemma flush_good:
  assumes r: "cache_ready c"
  obtains n c' where "page_cache_flush c = ret (n, c')" "flushes c c' (dom (pc_heap c))"
proof -
  obtain B where t: "table_ok c B" using cache_ready_wf[OF r] by (auto simp: cache_wf_def)
  have "(\<Union>i \<in> set [0..<pc_table_size c]. set (B ! i)) = dom (pc_heap c)"
  proof (intro equalityI subsetI)
    fix a assume "a \<in> (\<Union>i \<in> set [0..<pc_table_size c]. set (B ! i))"
    then obtain i where "i < pc_table_size c" "a \<in> set (B ! i)" by auto
    then show "a \<in> dom (pc_heap c)" using t unfolding table_ok_def by blast
  next
    fix a assume "a \<in> dom (pc_heap c)"
    then obtain g where "pc_heap c a = Some g" by auto
    then have "a \<in> set (B ! hash_page_id (pg_id g) (pc_table_size c))" using t unfolding table_ok_def by blast
    then show "a \<in> (\<Union>i \<in> set [0..<pc_table_size c]. set (B ! i))" using table_slot[OF t, of "pg_id g"] by auto
  qed
  then show thesis
    using flush_buckets_good[OF r t, of "[0..<pc_table_size c]" 0] that
    by (auto simp: page_cache_flush_def atLeast0LessThan)
qed

end
