(* ===== verification/Recency.thy ===== *)
theory Recency
  imports Cache_Inv
begin

text \<open>
  The list of pages by last use in \<^verbatim>\<open>src/storage/page_cache.c\<close>.  \<open>recency c xs\<close> relates the links in the heap to the
  list they form, from the page used last; a lookup moves the page to its front, unless the page is there already:
  then \<^verbatim>\<open>lru_mru\<close>, which does not advance the head when it removes the first page, links the page to itself.
\<close>

section \<open>Links\<close>

type_synonym links = "addr \<Rightarrow> (addr option \<times> addr option) option"

definition links_of :: "PageCache \<Rightarrow> links" where
  "links_of c a = map_option (\<lambda>g. (pg_lru_next g, pg_lru_prev g)) (pc_heap c a)"

fun lseg :: "links \<Rightarrow> addr option \<Rightarrow> addr option \<Rightarrow> addr list \<Rightarrow> bool" where
  "lseg l prev q [] \<longleftrightarrow> q = None"
| "lseg l prev q (a # as) \<longleftrightarrow> q = Some a \<and> (\<exists>n. l a = Some (n, prev) \<and> lseg l (Some a) n as)"

definition recency :: "PageCache \<Rightarrow> addr list \<Rightarrow> bool" where
  "recency c xs \<longleftrightarrow> distinct xs \<and> set xs = dom (pc_heap c) \<and> lseg (links_of c) None (pc_lru_head c) xs"

definition set_next :: "addr option \<Rightarrow> addr option \<Rightarrow> links \<Rightarrow> links" where
  "set_next q n l = (case q of None \<Rightarrow> l | Some b \<Rightarrow> l(b := map_option (\<lambda>(m, p). (n, p)) (l b)))"

definition set_prev :: "addr option \<Rightarrow> addr option \<Rightarrow> links \<Rightarrow> links" where
  "set_prev q p l = (case q of None \<Rightarrow> l | Some b \<Rightarrow> l(b := map_option (\<lambda>(n, r). (n, p)) (l b)))"

lemma lseg_cong: "(\<And>a. a \<in> set xs \<Longrightarrow> l' a = l a) \<Longrightarrow> lseg l prev q xs \<Longrightarrow> lseg l' prev q xs"
  by (induction xs arbitrary: prev q) auto

lemma lseg_first: "lseg l prev q xs \<Longrightarrow> q = (case xs of [] \<Rightarrow> None | x # _ \<Rightarrow> Some x)"
  by (cases xs) auto

lemma lseg_inside: "lseg l prev q (ys @ b # a # zs) \<Longrightarrow> \<exists>n. l a = Some (n, Some b) \<and> lseg l (Some a) n zs"
  by (induction ys arbitrary: prev q) auto

lemma lseg_front:
  assumes "lseg l prev q xs" "distinct xs"
  shows "lseg (set_prev q p l) p q xs"
proof (cases xs)
  case (Cons x ys)
  then obtain n where n: "q = Some x" "l x = Some (n, prev)" "lseg l (Some x) n ys" using assms(1) by auto
  have "lseg (set_prev q p l) (Some x) n ys"
    by (rule lseg_cong[OF _ n(3)]) (use Cons assms(2) n(1) in \<open>auto simp: set_prev_def\<close>)
  then show ?thesis using Cons n by (simp add: set_prev_def)
qed (use assms in simp)

lemma lseg_unlink:
  assumes "lseg l prev q (ys @ b # a # zs)" "distinct (ys @ b # a # zs)" "l a = Some (n, Some b)"
  shows "lseg ((set_prev n (Some b) (set_next (Some b) n l))(a := r)) prev q (ys @ b # zs)"
    (is "lseg ?l _ _ _")
  using assms(1,2)
proof (induction ys arbitrary: prev q)
  case Nil
  then have b: "q = Some b" "l b = Some (Some a, prev)" "lseg l (Some a) n zs" using assms(3) by auto
  have n: "n \<noteq> Some b" "n \<noteq> Some a" using lseg_first[OF b(3)] Nil.prems(2) by (auto split: list.splits)
  have "lseg (set_prev n (Some b) l) (Some b) n zs" using lseg_front[OF b(3)] Nil.prems(2) by simp
  then have "lseg ?l (Some b) n zs"
    by (rule lseg_cong[rotated]) (use Nil.prems(2) in \<open>auto simp: set_prev_def set_next_def split: option.split\<close>)
  moreover have "?l b = Some (n, prev)"
    using b(2) n Nil.prems(2) by (auto simp: set_prev_def set_next_def split: option.split)
  ultimately show ?case using b(1) by (simp del: fun_upd_apply)
next
  case (Cons y ys)
  then obtain m where m: "q = Some y" "l y = Some (m, prev)" "lseg l (Some y) m (ys @ b # a # zs)" by auto
  have "lseg l (Some a) n zs" using lseg_inside[OF m(3)] assms(3) by auto
  then have "n \<noteq> Some y" using lseg_first Cons.prems(2) by (fastforce split: list.splits)
  then have "?l y = l y" using Cons.prems(2) by (auto simp: set_prev_def set_next_def split: option.split)
  then show ?case using m Cons.IH[OF m(3)] Cons.prems(2) by (simp del: fun_upd_apply)
qed

section \<open>The operations on links\<close>

lemma page_at_ret: "page_at a c = ret g \<longleftrightarrow> pc_heap c a = Some g"
  by (cases "pc_heap c a") (auto simp: page_at_def ret_def undef_def)

lemma page_upd_links:
  assumes "page_upd a f c = ret c'"
  shows "links_of c' = (links_of c)(a := map_option (\<lambda>g. (pg_lru_next (f g), pg_lru_prev (f g))) (pc_heap c a))"
    "pc_lru_head c' = pc_lru_head c" "dom (pc_heap c') = dom (pc_heap c)" "a \<in> dom (pc_heap c)"
  using assms by (auto simp: page_upd_def links_of_def fun_eq_iff split: option.splits if_splits)

lemma upd_next_links:
  assumes "upd_if q (\<lambda>g. g\<lparr>pg_lru_next := n\<rparr>) c = ret c'"
  shows "links_of c' = set_next q n (links_of c)"
    "pc_lru_head c' = pc_lru_head c" "dom (pc_heap c') = dom (pc_heap c)"
  using assms page_upd_links[of _ _ c c']
  by (auto simp: upd_if_def set_next_def links_of_def fun_eq_iff option.map_comp comp_def split: option.splits)

lemma upd_prev_links:
  assumes "upd_if q (\<lambda>g. g\<lparr>pg_lru_prev := p\<rparr>) c = ret c'"
  shows "links_of c' = set_prev q p (links_of c)"
    "pc_lru_head c' = pc_lru_head c" "dom (pc_heap c') = dom (pc_heap c)"
  using assms page_upd_links[of _ _ c c']
  by (auto simp: upd_if_def set_prev_def links_of_def fun_eq_iff option.map_comp comp_def split: option.splits)

lemma lru_remove_links:
  assumes "lru_remove a c = ret c'" "links_of c a = Some (n, p)" "p \<noteq> Some a"
  shows "links_of c' = (set_prev n p (set_next p n (links_of c)))(a := Some (None, None))"
    "pc_lru_head c' = pc_lru_head c" "dom (pc_heap c') = dom (pc_heap c)"
proof -
  obtain g c1 g1 c2 where s: "pc_heap c a = Some g" "upd_if (pg_lru_prev g) (\<lambda>q. q\<lparr>pg_lru_next := pg_lru_next g\<rparr>) c = ret c1"
    "pc_heap c1 a = Some g1" "upd_if (pg_lru_next g1) (\<lambda>q. q\<lparr>pg_lru_prev := pg_lru_prev g1\<rparr>) c1 = ret c2"
    "page_upd a (\<lambda>p. p\<lparr>pg_lru_prev := None, pg_lru_next := None\<rparr>) c2 = ret c'"
    using assms(1) by (auto simp: lru_remove_def bindc_eq_ret page_at_ret)
  have g: "pg_lru_next g = n" "pg_lru_prev g = p" using s(1) assms(2) by (simp_all add: links_of_def)
  note u1 = upd_next_links[OF s(2)[unfolded g]] and u2 = upd_prev_links[OF s(4)] and u3 = page_upd_links[OF s(5)]
  have "links_of c1 a = Some (n, p)" using u1(1) assms(2,3) by (simp add: set_next_def split: option.split)
  then have g1: "pg_lru_next g1 = n" "pg_lru_prev g1 = p" using s(3) by (simp_all add: links_of_def)
  obtain g2 where "pc_heap c2 a = Some g2" using u3(4) by auto
  then show "links_of c' = (set_prev n p (set_next p n (links_of c)))(a := Some (None, None))"
    "pc_lru_head c' = pc_lru_head c" "dom (pc_heap c') = dom (pc_heap c)"
    using u1 u2 u3 g1 by simp_all
qed

lemma lru_add_front_links:
  assumes "lru_add_front a c = ret c'"
  shows "links_of c' = set_prev (pc_lru_head c) (Some a) ((links_of c)(a := Some (pc_lru_head c, None)))"
    "pc_lru_head c' = Some a" "dom (pc_heap c') = dom (pc_heap c)"
proof -
  obtain c1 c2 where s: "page_upd a (\<lambda>p. p\<lparr>pg_lru_next := pc_lru_head c, pg_lru_prev := None\<rparr>) c = ret c1"
    "upd_if (pc_lru_head c1) (\<lambda>q. q\<lparr>pg_lru_prev := Some a\<rparr>) c1 = ret c2"
    "c' = c2\<lparr>pc_lru_head := Some a, pc_lru_tail := if pc_lru_tail c2 = None then Some a else pc_lru_tail c2\<rparr>"
    using assms by (auto simp: lru_add_front_def bindc_eq_ret)
  note u1 = page_upd_links[OF s(1)] and u2 = upd_prev_links[OF s(2)]
  obtain g where "pc_heap c a = Some g" using u1(4) by auto
  moreover have "links_of c' = links_of c2" using s(3) by (simp add: links_of_def fun_eq_iff)
  ultimately show "links_of c' = set_prev (pc_lru_head c) (Some a) ((links_of c)(a := Some (pc_lru_head c, None)))"
    "pc_lru_head c' = Some a" "dom (pc_heap c') = dom (pc_heap c)"
    using u1 u2 s(3) by simp_all
qed

section \<open>A page moves to the front\<close>

lemma recency_add:
  assumes "lru_add_front a c = ret c'" "lseg (links_of c) None (pc_lru_head c) xs" "distinct xs" "a \<notin> set xs"
    "insert a (set xs) = dom (pc_heap c)"
  shows "recency c' (a # xs)"
proof -
  note u = lru_add_front_links[OF assms(1)]
  have "lseg (set_prev (pc_lru_head c) (Some a) (links_of c)) (Some a) (pc_lru_head c) xs"
    by (rule lseg_front[OF assms(2,3)])
  then have "lseg (links_of c') (Some a) (pc_lru_head c) xs"
    by (rule lseg_cong[rotated]) (use assms(4) in \<open>auto simp: u(1) set_prev_def split: option.split\<close>)
  moreover have "pc_lru_head c \<noteq> Some a" using lseg_first[OF assms(2)] assms(4) by (auto split: list.splits)
  then have "links_of c' a = Some (pc_lru_head c, None)" by (auto simp: u(1) set_prev_def split: option.split)
  ultimately show ?thesis using u assms(3-5) by (auto simp: recency_def)
qed

lemma recency_mru:
  assumes r: "recency c xs" and a: "a \<in> set xs" and c': "lru_mru a c = ret c'"
  shows "if hd xs = a then links_of c' a = Some (Some a, Some a) else recency c' (a # remove1 a xs)"
proof -
  obtain c1 where s: "lru_remove a c = ret c1" "lru_add_front a c1 = ret c'" using c' by (auto simp: lru_mru_def bindc_eq_ret)
  have x: "distinct xs" "set xs = dom (pc_heap c)" "lseg (links_of c) None (pc_lru_head c) xs"
    using r by (simp_all add: recency_def)
  note f = lru_add_front_links[OF s(2)]
  have "if hd xs = a then links_of c' a = Some (Some a, Some a) else recency c' (a # remove1 a xs)"
  proof (cases "hd xs = a")
    case True
    then obtain zs n where n: "xs = a # zs" "links_of c a = Some (n, None)" "pc_lru_head c = Some a"
      using x(3) a by (cases xs) auto
    note u = lru_remove_links[OF s(1) n(2)]
    then show ?thesis using True f n(3) by (simp add: set_prev_def)
  next
    case False
    then obtain y ws where "xs = y # ws" "a \<in> set ws" using a by (cases xs) auto
    then obtain us zs where "xs = (y # us) @ a # zs" using split_list by fastforce
    then obtain ys b where xs: "xs = ys @ b # a # zs"
      by (metis append_Cons append_Nil append_assoc append_butlast_last_id list.distinct(1))
    obtain n where n: "links_of c a = Some (n, Some b)" using lseg_inside x(3) unfolding xs by blast
    have ab: "Some b \<noteq> Some a" using x(1) xs by simp
    note u = lru_remove_links[OF s(1) n ab]
    have "lseg (links_of c1) None (pc_lru_head c1) (ys @ b # zs)"
      unfolding u(1,2) by (rule lseg_unlink[OF x(3)[unfolded xs] x(1)[unfolded xs] n])
    moreover have "remove1 a xs = ys @ b # zs" using x(1) xs by (simp add: remove1_append)
    ultimately show ?thesis
      using recency_add[OF s(2), of "ys @ b # zs"] x(1,2) u f False unfolding xs by auto
  qed
  then show "if hd xs = a then links_of c' a = Some (Some a, Some a) else recency c' (a # remove1 a xs)" .
qed

lemma recency_cong: "recency c xs \<Longrightarrow> links_of c' = links_of c \<Longrightarrow> pc_lru_head c' = pc_lru_head c \<Longrightarrow>
    dom (pc_heap c') = dom (pc_heap c) \<Longrightarrow> recency c' xs"
  by (simp add: recency_def)

lemma cache_hit_recency:
  assumes "recency c xs" "a \<in> set xs" "cache_hit a c = ret (Some a, c')"
  shows "if hd xs = a then links_of c' a = Some (Some a, Some a) else recency c' (a # remove1 a xs)"
proof -
  obtain c1 c2 where s: "lru_mru a (c\<lparr>pc_hit_count := pc_hit_count c + 1\<rparr>) = ret c1"
    "page_upd a (\<lambda>p. p\<lparr>pg_refcount := pg_refcount p + 1\<rparr>) c1 = ret c2" "c' = c2\<lparr>pc_pin_count := pc_pin_count c2 + 1\<rparr>"
    using assms(3) by (auto simp: cache_hit_def bindc_eq_ret)
  have "recency (c\<lparr>pc_hit_count := pc_hit_count c + 1\<rparr>) xs"
    by (rule recency_cong[OF assms(1)]) (simp_all add: links_of_def fun_eq_iff)
  from recency_mru[OF this assms(2) s(1)]
  have 1: "if hd xs = a then links_of c1 a = Some (Some a, Some a) else recency c1 (a # remove1 a xs)" .
  have "links_of c' = links_of c1" "pc_lru_head c' = pc_lru_head c1" "dom (pc_heap c') = dom (pc_heap c1)"
    using page_upd_links[OF s(2)] s(3) by (auto simp: links_of_def fun_eq_iff)
  with 1 show ?thesis using recency_cong[of c1 _ c'] by (auto split: if_splits)
qed

section \<open>A lookup\<close>

lemma hash_insert_links:
  assumes "hash_insert a c = ret c'"
  shows "links_of c' = links_of c" "pc_lru_head c' = pc_lru_head c" "dom (pc_heap c') = dom (pc_heap c)"
proof -
  obtain q c1 c2 i where s: "page_upd a (\<lambda>p. p\<lparr>pg_hash_next := q, pg_hash_prev := None\<rparr>) c = ret c1"
    "upd_if q (\<lambda>q. q\<lparr>pg_hash_prev := Some a\<rparr>) c1 = ret c2" "set_bucket i (Some a) c2 = ret c'"
    using assms by (auto simp: hash_insert_def bindc_eq_ret Let_def)
  have 1: "links_of c1 = links_of c" using page_upd_links(1)[OF s(1)] by (auto simp: links_of_def fun_eq_iff)
  have 2: "links_of c2 = links_of c1" "pc_lru_head c2 = pc_lru_head c1" "dom (pc_heap c2) = dom (pc_heap c1)"
    using s(2) page_upd_links[of _ "\<lambda>q. q\<lparr>pg_hash_prev := Some a\<rparr>" c1 c2]
    by (auto simp: upd_if_def links_of_def fun_eq_iff split: option.splits)
  have 3: "links_of c' = links_of c2" "pc_lru_head c' = pc_lru_head c2" "pc_heap c' = pc_heap c2"
    using s(3) by (auto simp: set_bucket_def links_of_def fun_eq_iff split: if_splits)
  show "links_of c' = links_of c" "pc_lru_head c' = pc_lru_head c" "dom (pc_heap c') = dom (pc_heap c)"
    using 1 2 3 page_upd_links[OF s(1)] by simp_all
qed

text \<open>The frame that is filled from the file, and the steps after that.\<close>

definition new_frame :: "u32 \<Rightarrow> bytes \<Rightarrow> Page" where
  "new_frame p d = \<lparr>pg_data = d, pg_id = p, pg_refcount = 0, pg_is_dirty = False, pg_is_wal = False,
     pg_lru_next = None, pg_lru_prev = None, pg_hash_next = None, pg_hash_prev = None\<rparr>"

lemma cache_load_steps:
  assumes "cache_load p pg c = ret (Some a, c')"
  obtains d pg' c2 c3 c4 where "a = pc_brk c"
    "hash_insert a (c\<lparr>pc_heap := (pc_heap c)(a \<mapsto> new_frame p d), pc_brk := Suc a, pc_pager := Some pg'\<rparr>) = ret c2"
    "lru_add_front a c2 = ret c3" "page_upd a (\<lambda>p. p\<lparr>pg_refcount := 1\<rparr>) (c3\<lparr>pc_count := pc_count c3 + 1\<rparr>) = ret c4"
    "c' = c4\<lparr>pc_pin_count := pc_pin_count c4 + 1\<rparr>"
  using assms
  by (cases c) (auto simp: cache_load_def page_alloc_def page_upd_def new_frame_def Let_def bindc_eq_ret split: prod.splits option.splits)

lemma cache_load_recency:
  assumes "recency c xs" "pc_heap c (pc_brk c) = None" "cache_load p pg c = ret (Some a, c')"
  shows "a = pc_brk c" "recency c' (a # xs)"
proof -
  obtain d pg1 c2 c3 c4 where s: "a = pc_brk c"
    "hash_insert a (c\<lparr>pc_heap := (pc_heap c)(a \<mapsto> new_frame p d), pc_brk := Suc a, pc_pager := Some pg1\<rparr>) = ret c2"
    "lru_add_front a c2 = ret c3" "page_upd a (\<lambda>p. p\<lparr>pg_refcount := 1\<rparr>) (c3\<lparr>pc_count := pc_count c3 + 1\<rparr>) = ret c4"
    "c' = c4\<lparr>pc_pin_count := pc_pin_count c4 + 1\<rparr>"
    by (rule cache_load_steps[OF assms(3)])
  let ?c = "c\<lparr>pc_heap := (pc_heap c)(a \<mapsto> new_frame p d), pc_brk := Suc a, pc_pager := Some pg1\<rparr>"
  have x: "distinct xs" "set xs = dom (pc_heap c)" "lseg (links_of c) None (pc_lru_head c) xs"
    using assms(1) by (simp_all add: recency_def)
  then have a: "a \<notin> set xs" using assms(2) s(1) by auto
  note h = hash_insert_links[OF s(2)]
  have "lseg (links_of ?c) None (pc_lru_head c) xs"
    by (rule lseg_cong[OF _ x(3)]) (use a in \<open>auto simp: links_of_def\<close>)
  then have r3: "recency c3 (a # xs)" using h x a by (intro recency_add[OF s(3)]) simp_all
  have "links_of c' = links_of c3" "pc_lru_head c' = pc_lru_head c3" "dom (pc_heap c') = dom (pc_heap c3)"
    using page_upd_links[OF s(4)] s(5) by (auto simp: links_of_def fun_eq_iff)
  then show "a = pc_brk c" "recency c' (a # xs)" using s(1) recency_cong[OF r3] by simp_all
qed

section \<open>Pins\<close>

definition pins :: "PageCache \<Rightarrow> addr \<Rightarrow> int" where
  "pins c a = (case pc_heap c a of None \<Rightarrow> 0 | Some g \<Rightarrow> pg_refcount g)"

lemma pins_upd [simp]:
  "pins (c\<lparr>pc_hit_count := i\<rparr>) = pins c" "pins (c\<lparr>pc_miss_count := i\<rparr>) = pins c" "pins (c\<lparr>pc_pin_count := i\<rparr>) = pins c"
  "pins (c\<lparr>pc_count := i\<rparr>) = pins c" "pins (c\<lparr>pc_lru_head := q\<rparr>) = pins c" "pins (c\<lparr>pc_lru_tail := q\<rparr>) = pins c"
  "pins (c\<lparr>pc_pages := t\<rparr>) = pins c"
  by (simp_all add: pins_def fun_eq_iff)

lemma page_upd_pins:
  assumes "page_upd a f c = ret c'"
  shows "(\<And>g. pg_refcount (f g) = pg_refcount g) \<Longrightarrow> pins c' = pins c"
    "(\<And>g. pg_refcount (f g) = pg_refcount g + 1) \<Longrightarrow> pins c' = (pins c)(a := pins c a + 1)"
    "(\<And>g. pg_refcount (f g) = 1) \<Longrightarrow> pins c' = (pins c)(a := 1)"
  using assms by (auto simp: page_upd_def pins_def fun_eq_iff split: option.splits if_splits)

lemma upd_if_pins: "upd_if q f c = ret c' \<Longrightarrow> (\<And>g. pg_refcount (f g) = pg_refcount g) \<Longrightarrow> pins c' = pins c"
  using page_upd_pins(1) by (auto simp: upd_if_def split: option.splits)

lemma list_pins:
  "lru_remove a c = ret c' \<Longrightarrow> pins c' = pins c" "lru_add_front a c = ret c' \<Longrightarrow> pins c' = pins c"
  "lru_mru a c = ret c' \<Longrightarrow> pins c' = pins c" "hash_insert a c = ret c' \<Longrightarrow> pins c' = pins c"
proof -
  show r: "pins c' = pins c" if "lru_remove a c = ret c'" for c c'
    using that by (auto simp: lru_remove_def bindc_eq_ret dest!: page_upd_pins(1) upd_if_pins)
  show f: "pins c' = pins c" if "lru_add_front a c = ret c'" for c c'
    using that by (auto simp: lru_add_front_def bindc_eq_ret dest!: page_upd_pins(1) upd_if_pins)
  show "lru_mru a c = ret c' \<Longrightarrow> pins c' = pins c"
    using r f by (auto simp: lru_mru_def bindc_eq_ret)
  show "hash_insert a c = ret c' \<Longrightarrow> pins c' = pins c"
    by (auto simp: hash_insert_def set_bucket_def bindc_eq_ret Let_def split: if_splits dest!: page_upd_pins(1) upd_if_pins)
qed

lemma cache_hit_pins: "cache_hit a c = ret (q, c') \<Longrightarrow> pins c' = (pins c)(a := pins c a + 1)"
  by (auto simp: cache_hit_def bindc_eq_ret dest!: list_pins(3) page_upd_pins(2))

lemma cache_load_pins:
  assumes "pc_heap c (pc_brk c) = None" "cache_load p pg c = ret (Some a, c')"
  shows "pins c' = (pins c)(a := pins c a + 1)"
proof -
  obtain d pg' c2 c3 c4 where s: "a = pc_brk c"
    "hash_insert a (c\<lparr>pc_heap := (pc_heap c)(a \<mapsto> new_frame p d), pc_brk := Suc a, pc_pager := Some pg'\<rparr>) = ret c2"
    "lru_add_front a c2 = ret c3" "page_upd a (\<lambda>p. p\<lparr>pg_refcount := 1\<rparr>) (c3\<lparr>pc_count := pc_count c3 + 1\<rparr>) = ret c4"
    "c' = c4\<lparr>pc_pin_count := pc_pin_count c4 + 1\<rparr>"
    by (rule cache_load_steps[OF assms(2)])
  have "pins c' = (pins c)(a := 1)"
    using list_pins(2)[OF s(3)] list_pins(4)[OF s(2)] page_upd_pins(3)[OF s(4)] s(5) by (auto simp: pins_def fun_eq_iff)
  then show ?thesis using s(1) assms(1) by (simp add: pins_def)
qed

lemma brk_unused: "cache_wf c \<Longrightarrow> pc_heap c (pc_brk c) = None"
  unfolding cache_wf_def table_ok_def by (metis less_irrefl not_None_eq)

text \<open>What a lookup that delivers a frame does to the list and to the pins.\<close>

lemma get_recency:
  assumes wf: "cache_wf c" and room: "(\<exists>a. cached c a p) \<or> pc_count c < pc_max_pages c"
    and g: "page_cache_get p c = ret (Some a, c')"
  shows "pins c' = (pins c)(a := pins c a + 1)"
    and "recency c xs \<Longrightarrow> if xs \<noteq> [] \<and> hd xs = a then links_of c' a = Some (Some a, Some a) else recency c' (a # remove1 a xs)"
proof -
  have "pins c' = (pins c)(a := pins c a + 1) \<and>
    (recency c xs \<longrightarrow> (if xs \<noteq> [] \<and> hd xs = a then links_of c' a = Some (Some a, Some a) else recency c' (a # remove1 a xs)))"
  proof (cases "\<exists>a. cached c a p")
    case True
    then obtain b where b: "cached c b p" by blast
    then have h: "cache_hit b c = ret (Some a, c')" using g hash_find_hit[OF wf] by (simp add: page_cache_get_def)
    then have "b = a" by (auto simp: cache_hit_def bindc_eq_ret)
    then have h: "cache_hit a c = ret (Some a, c')" using h by simp
    have "a \<in> set xs \<and> xs \<noteq> []" if "recency c xs" using cached_dom[OF b] that \<open>b = a\<close> by (auto simp: recency_def)
    then show ?thesis using cache_hit_pins[OF h] cache_hit_recency[OF _ _ h] by auto
  next
    case False
    let ?c = "c\<lparr>pc_miss_count := pc_miss_count c + 1\<rparr>"
    have k: "like c ?c" by (simp add: like_def)
    have wf': "cache_wf ?c" by (rule like_wf[OF wf k]) (use wf_lru[OF wf] in \<open>simp add: lru_ok_def\<close>)
    have f: "\<not> cached ?c b p" for b using False by (simp add: cached_def)
    have "pc_count c < pc_max_pages c" using room False by blast
    then obtain pg where h: "cache_load p pg ?c = ret (Some a, c')"
      using g hash_find_miss[OF wf] hash_find_miss[OF wf' f] False
      by (auto simp: page_cache_get_def make_room.simps[of ?c] Let_def split: option.splits)
    have n: "pc_heap ?c (pc_brk ?c) = None" using brk_unused[OF wf] by simp
    have "recency ?c xs" if "recency c xs" by (rule recency_cong[OF that]) (simp_all add: links_of_def fun_eq_iff)
    moreover have "hd xs \<noteq> a \<and> remove1 a xs = xs" if "recency c xs" "xs \<noteq> []"
    proof -
      have "a \<notin> set xs" using that cache_load_recency(1)[OF _ n h, of xs] calculation n by (auto simp: recency_def)
      then show ?thesis using that(2) by (cases xs) (auto simp: remove1_idem)
    qed
    ultimately show ?thesis using cache_load_pins[OF n h] cache_load_recency(2)[OF _ n h, of xs] by (cases "xs = []") auto
  qed
  then show "pins c' = (pins c)(a := pins c a + 1)"
    and "recency c xs \<Longrightarrow> if xs \<noteq> [] \<and> hd xs = a then links_of c' a = Some (Some a, Some a) else recency c' (a # remove1 a xs)"
    by blast+
qed

end
