(* ===== verification/Cache_Props.thy ===== *)
theory Cache_Props
  imports Recency
begin

text \<open>
  The properties of the page cache: a page that is asked for is delivered, a flush makes the
  file agree with the cache, and what becomes of the cache once pages have to be replaced.
\<close>

section \<open>Delivery\<close>

lemma view_vis_upd:
  assumes wf: "cache_wf c" "cache_wf c'" and v: "vis c' = (vis c)(a \<mapsto> (d, p, x))" "pc_heap c a = None"
    and q: "resident c q"
  shows "resident c' q" "cache_view c' q = cache_view c q"
proof -
  obtain b e y where b: "vis c b = Some (e, q, y)" using q by (auto simp: resident_def cached_vis)
  then have "b \<noteq> a" using v(2) by (auto simp: vis_def)
  then have "vis c' b = Some (e, q, y)" using b v(1) by simp
  with b view_vis[OF wf(1)] view_vis[OF wf(2)] show "resident c' q" "cache_view c' q = cache_view c q"
    by (auto simp: resident_def cached_vis)
qed

lemma get_new:
  assumes r: "cache_ready c" and p: "\<not> resident c p" and room: "pc_count c < pc_max_pages c"
    and pg: "pc_pager c = Some pg" "pager_valid pg p"
  obtains a c' pg' where "page_cache_get p c = ret (Some a, c')" "cache_ready c'" "cached c' a p"
    "cache_view c' p = pager_page pg p" "cache_keeps c c'" "insync c' p"
    "pc_count c' = pc_count c + 1" "pc_max_pages c' = pc_max_pages c"
    "pc_pager c' = Some pg'" "pager_valid pg' = pager_valid pg"
    "\<forall>q. pager_valid pg q \<longrightarrow> pager_page pg' q = pager_page pg q"
    "\<And>q. resident c' q \<Longrightarrow> q = p \<or> resident c q"
proof -
  have wf: "cache_wf c" and rp: "pager_ready pg" and val: "\<And>q. resident c q \<Longrightarrow> pager_valid pg q"
    using r pg(1) by (auto simp: cache_ready_def)
  have miss: "\<not> cached c a p" for a using p by (simp add: resident_def)
  obtain a c' pg' where g: "page_cache_get p c = ret (Some a, c')" "cache_wf c'" "pc_heap c a = None"
    "vis c' = (vis c)(a \<mapsto> (pager_page pg p, p, False))"
    "pc_count c' = pc_count c + 1" "pc_max_pages c' = pc_max_pages c"
    "pc_pager c' = Some pg'" "pager_ready pg'" "pager_valid pg' = pager_valid pg"
    "\<forall>q. pager_valid pg q \<longrightarrow> pager_page pg' q = pager_page pg q"
    by (rule get_miss[OF wf miss room pg(1) rp pg(2)])
  have old: "q = p \<or> resident c q" if "resident c' q" for q
    using that g(4) by (auto simp: resident_def cached_vis split: if_splits)
  have "cache_ready c'" using g old val pg(2) by (auto simp: cache_ready_def)
  moreover have "cached c' a p" using g(4) by (auto simp: cached_vis)
  moreover have "cache_view c' p = pager_page pg p" by (rule view_vis[OF g(2), of a _ _ False]) (simp add: g(4))
  moreover have "insync c' q" if "q = p \<or> insync c q" for q
    unfolding insync_def
  proof (intro allI impI)
    fix b d pg2 assume b: "vis c' b = Some (d, q, False)" "pc_pager c' = Some pg2"
    show "pager_page pg2 q = d"
    proof (cases "b = a")
      case True
      then show ?thesis using b g(4,7,10) pg(2) by auto
    next
      case False
      then have v: "vis c b = Some (d, q, False)" using b(1) g(4) by simp
      then have q: "resident c q" unfolding resident_def cached_vis by blast
      then have "insync c q" using that p by blast
      then have "pager_page pg q = d" using v pg(1) by (simp add: insync_def)
      then show ?thesis using g(7,10) b(2) val[OF q] by simp
    qed
  qed
  then have "insync c' p" "cache_keeps c c'"
    using view_vis_upd[OF wf g(2,4,3)] by (auto simp: keeps_pages_def)
  ultimately show thesis using that g old by blast
qed

text \<open>A page that can be had without evicting another one.\<close>

definition reachable :: "PageCache \<Rightarrow> u32 \<Rightarrow> bool" where
  "reachable c p \<longleftrightarrow> resident c p \<or>
     pc_count c < pc_max_pages c \<and> (\<exists>pg. pc_pager c = Some pg \<and> pager_valid pg p)"

lemma get_delivers:
  assumes r: "cache_ready c" and p: "reachable c p"
  obtains a c' where "page_pin p c = ret (Some a, c')" "cached c' a p" "cache_view c' p = cache_view c p"
    "cache_ready c'" "cache_keeps c c'"
proof (cases "resident c p")
  case True
  obtain a c' where "page_pin p c = ret (Some a, c')" "cache_ready c'" "cached c' a p" "cache_keeps c c'"
    by (rule pin_resident[OF r True])
  with True show thesis by (intro that) (auto simp: keeps_pages_def)
next
  case False
  then obtain pg where pg: "pc_count c < pc_max_pages c" "pc_pager c = Some pg" "pager_valid pg p"
    using p by (auto simp: reachable_def)
  have v: "cache_view c p = pager_page pg p"
    using False pg(2) by (intro view_uncached) (auto simp: resident_def)
  show thesis by (rule get_new[OF r False pg]) (simp add: that page_pin_def v)
qed

lemma access_page:
  assumes "cache_ready c" "reachable c p"
  obtains a c1 c2 where "page_pin p c = ret (Some a, c1)" "page_data a c1 = ret (cache_view c p)"
    "page_unpin (Some a) c1 = ret c2" "cache_ready c2" "resident c2 p" "cache_view c2 p = cache_view c p" "cache_keeps c c2"
proof -
  obtain a c1 where 1: "page_pin p c = ret (Some a, c1)" "cached c1 a p" "cache_view c1 p = cache_view c p"
    "cache_ready c1" "cache_keeps c c1"
    by (rule get_delivers[OF assms])
  obtain c2 where 2: "page_unpin (Some a) c1 = ret c2" "cache_ready c2" "cache_keeps c1 c2"
    using frames.unpin_law[OF 1(4,2)] by blast
  have "page_data a c1 = ret (cache_view c p)" "resident c1 p" using frames.load_law[OF 1(4,2)] 1(3) by simp_all
  moreover from this have "resident c2 p" "cache_view c2 p = cache_view c p"
    using 2(3) 1(3) by (simp_all add: keeps_pages_def)
  ultimately show thesis using that[OF 1(1) _ 2(1,2)] keeps_pages_trans[OF 1(5) 2(3)] by simp
qed

lemma get_frame:
  assumes r: "cache_ready c" and p: "reachable c p" and g: "page_cache_get p c = ret (Some a, c')"
  shows "resident c' q \<longleftrightarrow> resident c q \<or> q = p"
    and "pc_pager c = Some pg \<Longrightarrow> pager_valid pg q \<Longrightarrow> cache_view c' q = cache_view c q"
    and "cached c b p \<Longrightarrow> b = a"
proof -
  have wf: "cache_wf c" by (rule cache_ready_wf[OF r])
  have "(resident c' q \<longleftrightarrow> resident c q \<or> q = p) \<and> (cached c b p \<longrightarrow> b = a) \<and>
    (pc_pager c = Some pg \<longrightarrow> pager_valid pg q \<longrightarrow> cache_view c' q = cache_view c q)"
  proof (cases "resident c p")
    case True
    then obtain e where e: "cached c e p" by (auto simp: resident_def)
    obtain c2 where "page_cache_get p c = ret (Some e, c2)" "like c c2" by (rule get_hit[OF wf e])
    then have "like c c'" "e = a" using g by simp_all
    then show ?thesis
      using True like_view[of c c' q] like_cached[of c c' _ q] cached_unique[OF wf e, of b] by (auto simp: resident_def)
  next
    case False
    then obtain pg0 where pg: "pc_count c < pc_max_pages c" "pc_pager c = Some pg0" "pager_valid pg0 p"
      using p by (auto simp: reachable_def)
    obtain e c2 pg' where n: "page_cache_get p c = ret (Some e, c2)" "cached c2 e p" "cache_view c2 p = pager_page pg0 p"
      "cache_keeps c c2" "pc_pager c2 = Some pg'" "\<forall>q. pager_valid pg0 q \<longrightarrow> pager_page pg' q = pager_page pg0 q"
      "\<And>q. resident c2 q \<Longrightarrow> q = p \<or> resident c q"
      by (rule get_new[OF r False pg]) blast
    have c2: "c2 = c'" using n(1) g by simp
    have "cache_view c' q = cache_view c q" if "\<not> resident c q" "pager_valid pg0 q"
    proof (cases "q = p")
      case False
      then have "\<not> cached c' b q" for b using that(1) n(7)[of q] unfolding c2 resident_def by blast
      then show ?thesis using that n(5,6) pg(2) view_uncached[of c q] view_uncached[of c' q] unfolding c2 by (simp add: resident_def)
    qed (use that n(3) pg(2) view_uncached[of c q] in \<open>simp add: resident_def c2\<close>)
    then have "pager_valid pg0 q \<longrightarrow> cache_view c' q = cache_view c q"
      using n(4) unfolding c2 by (cases "resident c q") (simp_all add: keeps_pages_def)
    then show ?thesis using n(2,4) n(7)[of q] pg(2) False unfolding c2 by (auto simp: keeps_pages_def resident_def)
  qed
  then show "resident c' q \<longleftrightarrow> resident c q \<or> q = p"
    and "pc_pager c = Some pg \<Longrightarrow> pager_valid pg q \<Longrightarrow> cache_view c' q = cache_view c q"
    and "cached c b p \<Longrightarrow> b = a" by blast+
qed

text \<open>C3: In a cache whose table is intact, asking for a page that is present, or for any page of the file
  while there is room, returns the frame that holds the page - the one it is in, if it is present - with the contents
  last stored for it.  Every page of the file, in the cache or not, keeps its contents; the pages present are those
  that were and this one; the frame is pinned once more and no other; and the table stays intact.  If the pages present
  are linked into a list by last use, the frame is moved to the front of that list, or put there if it is new; but
  if it is at the front already, it ends up linked to itself in both directions.\<close>

theorem cache_get_delivers:
  assumes "cache_ready c" "reachable c p"
  shows "\<exists>a c'. page_cache_get p c = ret (Some a, c') \<and> page_data a c' = ret (cache_view c p) \<and>
    cache_ready c' \<and> cache_keeps c c' \<and> cached c' a p \<and> (\<forall>b. cached c b p \<longrightarrow> b = a) \<and>
    (\<forall>q. resident c' q \<longleftrightarrow> resident c q \<or> q = p) \<and>
    (\<forall>pg q. pc_pager c = Some pg \<and> pager_valid pg q \<longrightarrow> cache_view c' q = cache_view c q) \<and>
    pins c' = (pins c)(a := pins c a + 1) \<and>
    (\<forall>xs. recency c xs \<longrightarrow>
       (if xs \<noteq> [] \<and> hd xs = a then links_of c' a = Some (Some a, Some a) else recency c' (a # remove1 a xs)))"
proof -
  obtain a c' where c': "page_pin p c = ret (Some a, c')" "cached c' a p" "cache_view c' p = cache_view c p"
    "cache_ready c'" "cache_keeps c c'"
    by (rule get_delivers[OF assms])
  then have g: "page_cache_get p c = ret (Some a, c')" by (simp add: page_pin_def)
  have "(\<exists>a. cached c a p) \<or> pc_count c < pc_max_pages c" using assms(2) by (auto simp: reachable_def resident_def)
  note rec = get_recency[OF cache_ready_wf[OF assms(1)] this g]
  show ?thesis
    using g c' frames.load_law[OF c'(4,2)] get_frame[OF assms g] rec by (intro exI[of _ a] exI[of _ c']) simp
qed

section \<open>A new cache\<close>

lemma table_size_for_bounds:
  "0 < t \<Longrightarrow> t \<le> table_size_for m t \<and> table_size_for m t \<le> max t (4 * m)"
proof (induction m t rule: table_size_for.induct)
  case (1 m t)
  then show ?case by (subst (1 2) table_size_for.simps) auto
qed

lemma cache_create_ready:
  assumes "0 < n" "pager_ready pg"
  shows "cache_ready (page_cache_create d n (Some pg))" "\<not> resident (page_cache_create d n (Some pg)) p"
    "pc_count (page_cache_create d n (Some pg)) = 0" "0 < pc_max_pages (page_cache_create d n (Some pg))"
    "pc_pager (page_cache_create d n (Some pg)) = Some pg"
proof -
  let ?c = "page_cache_create d n (Some pg)"
  let ?t = "pc_table_size ?c"
  define m where "m = (if n > PAGER_MAX_PAGES then PAGER_MAX_PAGES else n)"
  have t: "?t = table_size_for (nat m) 16" using assms(1) by (simp add: page_cache_create_def Let_def m_def)
  have "m \<le> 65536" by (simp add: m_def PAGER_MAX_PAGES_def)
  then have "max 16 (4 * nat m) < 2 ^ 32" by simp
  then have b: "16 \<le> ?t" "?t < 2 ^ 32"
    using table_size_for_bounds[of 16 "nat m"] unfolding t by (simp, meson le_less_trans zero_less_numeral)
  have pages: "pc_pages ?c = replicate ?t None" and h: "pc_heap ?c = (\<lambda>_. None)"
    by (simp_all add: page_cache_create_def Let_def)
  have "table_ok ?c (replicate ?t [])"
    using b pages h by (simp add: table_ok_def cached_def) (simp add: page_cache_create_def Let_def)
  moreover have "lru_ok ?c" by (simp add: lru_ok_def page_cache_create_def Let_def)
  moreover show nr: "\<not> resident ?c p" for p using h by (simp add: resident_def cached_def)
  moreover show pgc: "pc_pager ?c = Some pg" by (simp add: page_cache_create_def Let_def)
  ultimately show "cache_ready ?c" using assms(2) by (auto simp: cache_ready_def cache_wf_def)
  show "pc_count ?c = 0" "0 < pc_max_pages ?c"
    using assms(1) by (simp_all add: page_cache_create_def Let_def PAGER_MAX_PAGES_def)
qed

lemma two_page_pager_ok:
  "pager_ready two_page_pager" "pager_valid two_page_pager 1" "pager_page two_page_pager 1 = replicate PAGE_SIZE 3"
  by (simp_all add: pager_ready_def nofail_def two_page_pager_def pager_valid_def pager_is_valid_page_def
      get_page_offset_def pager_page_def get_at_def)

theorem cache_get_delivers_witness:
  "\<exists>a c' c''. page_cache_get 1 (page_cache_create 256 4 (Some two_page_pager)) = ret (Some a, c') \<and>
     page_data a c' = ret (replicate PAGE_SIZE 3) \<and> pins c' a = 1 \<and> recency c' [a] \<and>
     page_cache_get 1 c' = ret (Some a, c'') \<and> pins c'' a = 2 \<and> links_of c'' a = Some (Some a, Some a)"
proof -
  let ?c = "page_cache_create 256 4 (Some two_page_pager)"
  note c = cache_create_ready[of 4 two_page_pager 256]
  have v: "cache_view ?c 1 = replicate PAGE_SIZE 3"
    using view_uncached[of ?c 1] c two_page_pager_ok by (simp add: resident_def)
  have n: "recency ?c []" "pins ?c b = 0" for b
    by (simp_all add: recency_def pins_def page_cache_create_def Let_def)
  have "reachable ?c 1" using c two_page_pager_ok by (auto simp: reachable_def)
  from cache_get_delivers[OF c(1) this] obtain a c' where 1: "page_cache_get 1 ?c = ret (Some a, c')"
    "page_data a c' = ret (replicate PAGE_SIZE 3)" "cache_ready c'" "cached c' a 1" "pins c' a = 1" "recency c' [a]"
    using v n two_page_pager_ok by auto
  have "reachable c' 1" using 1(4) by (auto simp: reachable_def resident_def)
  from cache_get_delivers[OF 1(3) this] obtain b c'' where 2: "page_cache_get 1 c' = ret (Some b, c'')"
    "b = a" "pins c'' b = pins c' b + 1" "links_of c'' b = Some (Some b, Some b)"
    using 1(4,6) by fastforce
  with 1 show ?thesis by (intro exI[of _ a] exI[of _ c'] exI[of _ c'']) simp
qed

section \<open>Durability\<close>

text \<open>A page that is not marked as changed agrees with the file.\<close>

definition coherent :: "PageCache \<Rightarrow> bool" where
  "coherent c \<longleftrightarrow> (\<forall>p. insync c p)"

lemma coherent_keeps: "coherent c \<Longrightarrow> cache_keeps c c' \<Longrightarrow> coherent c'"
  by (simp add: coherent_def keeps_pages_def)

lemma coherent_create: "coherent (page_cache_create d n pg)"
  by (simp add: coherent_def insync_def vis_def page_cache_create_def Let_def)

lemma flushes_pages:
  assumes r: "cache_ready c" and s: "coherent c" and f: "flushes c c' (dom (pc_heap c))"
    and pg: "pc_pager c = Some pg" "pc_pager c' = Some pg'"
  shows "resident c p \<or> pager_valid pg p \<Longrightarrow> pager_page pg' p = cache_view c p"
    and "cache_keeps c c'" "\<And>a d p. vis c' a \<noteq> Some (d, p, True)"
proof -
  have v: "vis c' a = map_option (\<lambda>(d, p, x). (d, p, False)) (vis c a)" for a
    using f vis_dom[of c a] by (cases "vis c a") (simp_all add: flushes_def)
  have F: "\<forall>a \<in> dom (pc_heap c). \<forall>d p. vis c a = Some (d, p, True) \<longrightarrow> pager_page pg' p = d"
    "\<forall>p. pager_valid pg p \<longrightarrow> (\<forall>a \<in> dom (pc_heap c). \<forall>d. vis c a \<noteq> Some (d, p, True)) \<longrightarrow>
       pager_page pg' p = pager_page pg p" and r': "cache_ready c'"
    using f pg by (auto simp: flushes_def)
  have w: "pager_page pg' p = d" if "vis c a = Some (d, p, True)" for a d p
    using F(1) that vis_dom[of c a] by blast
  have w': "pager_page pg' p = pager_page pg p" if "pager_valid pg p" "\<And>a d. vis c a \<noteq> Some (d, p, True)" for p
    using F(2) that by blast
  have res: "pager_page pg' p = d" if a: "vis c a = Some (d, p, x)" for a d p x
  proof (cases x)
    case False
    then have rp: "resident c p" using a by (auto simp: resident_def cached_vis)
    have "vis c b \<noteq> Some (e, p, True)" for b e
      using a False vis_unique[OF cache_ready_wf[OF r] a, of b e True] by auto
    then show ?thesis using w'[of p] s rp a False pg(1) r by (auto simp: coherent_def insync_def cache_ready_def)
  qed (use w a in simp)
  have cv: "cache_view c p = d" if "vis c a = Some (d, p, x)" for a d p x
    by (rule view_vis[OF cache_ready_wf[OF r] that])
  show "pager_page pg' p = cache_view c p" if "resident c p \<or> pager_valid pg p"
  proof (cases "resident c p")
    case True
    with res cv show ?thesis by (auto simp: resident_def cached_vis)
  next
    case False
    then have "cache_view c p = pager_page pg p"
      using pg(1) by (intro view_uncached) (auto simp: resident_def)
    moreover have "vis c a \<noteq> Some (d, p, True)" for a d using False by (auto simp: resident_def cached_vis)
    ultimately show ?thesis using w' that False by simp
  qed
  have "resident c' q \<and> cache_view c' q = cache_view c q" if rq: "resident c q" for q
  proof -
    obtain a d x where a: "vis c a = Some (d, q, x)" using rq by (auto simp: resident_def cached_vis)
    then have a': "vis c' a = Some (d, q, False)" using v by simp
    from a a' cv view_vis[OF cache_ready_wf[OF r'] a'] show ?thesis by (auto simp: resident_def cached_vis)
  qed
  moreover have "insync c' q" for q using v res pg(2) by (fastforce simp: insync_def)
  ultimately show "cache_keeps c c'" by (simp add: keeps_pages_def)
  show "vis c' a \<noteq> Some (d, p, True)" for a d p by (auto simp: v)
qed

text \<open>C5: A flush writes every changed page: afterwards the file holds, for every page, what a client of the
  cache saw before it, no page is marked as changed, and the clients' view is the same.\<close>

theorem cache_flush_durable:
  assumes "cache_ready c" "coherent c" "pc_pager c = Some pg"
  shows "\<exists>n c' pg'. page_cache_flush c = ret (n, c') \<and> pc_pager c' = Some pg' \<and> cache_ready c' \<and>
    (\<forall>p. resident c p \<or> pager_valid pg p \<longrightarrow> pager_page pg' p = cache_view c p) \<and>
    cache_keeps c c' \<and> (\<forall>a g. pc_heap c' a = Some g \<longrightarrow> \<not> pg_is_dirty g)"
proof -
  obtain n c' where f: "page_cache_flush c = ret (n, c')" "flushes c c' (dom (pc_heap c))"
    by (rule flush_good[OF assms(1)])
  then obtain pg' where pg': "pc_pager c' = Some pg'" "cache_ready c'" by (auto simp: flushes_def)
  note p = flushes_pages[OF assms(1,2) f(2) assms(3) pg'(1)]
  have "\<not> pg_is_dirty g" if "pc_heap c' a = Some g" for a g
    using p(3)[of a "pg_data g" "pg_id g"] that by (simp add: vis_def)
  with f(1) pg' p(1,2) show ?thesis by blast
qed

theorem cache_flush_durable_witness:
  "\<exists>a c1 c2 c3 n c4 pg'. page_cache_get 1 (page_cache_create 256 4 (Some two_page_pager)) = ret (Some a, c1) \<and>
     set_page_data a (replicate PAGE_SIZE 9) c1 = ret c2 \<and> page_mark_dirty (Some a) c2 = ret c3 \<and>
     page_cache_flush c3 = ret (n, c4) \<and> pc_pager c4 = Some pg' \<and> pager_page pg' 1 = replicate PAGE_SIZE 9"
proof -
  let ?c = "page_cache_create 256 4 (Some two_page_pager)"
  note c = cache_create_ready[of 4 two_page_pager 256, OF _ two_page_pager_ok(1), simplified]
  have room: "pc_count ?c < pc_max_pages ?c" using c(3,4) by simp
  obtain a c1 where 1: "page_cache_get 1 ?c = ret (Some a, c1)" "cache_ready c1" "cached c1 a 1" "coherent c1"
    by (rule get_new[OF c(1,2) room c(5) two_page_pager_ok(2)]) (use coherent_keeps[OF coherent_create] in blast)
  obtain c2 where 2: "set_page_data a (replicate PAGE_SIZE 9) c1 = ret c2" "cache_ready c2" "cached c2 a 1"
    "resident c2 1 \<and> cache_view c2 1 = replicate PAGE_SIZE 9" "\<forall>q. q \<noteq> 1 \<longrightarrow> insync c2 q"
    using frames.store_law[OF 1(2,3), of "replicate PAGE_SIZE 9"] frames.load_law[OF 1(2,3)] 1(4)
    by (auto simp: coherent_def)
  obtain c3 where 3: "page_mark_dirty (Some a) c2 = ret c3" "cache_ready c3" "insync c3 1" "cache_keeps c2 c3"
    using frames.mark_law[OF 2(2,3)] by blast
  have s: "coherent c3" using 2(5) 3(3,4) unfolding coherent_def keeps_pages_def by metis
  have v: "resident c3 1" "cache_view c3 1 = replicate PAGE_SIZE 9" using 2(4) 3(4) by (auto simp: keeps_pages_def)
  obtain pg3 where "pc_pager c3 = Some pg3" using 3(2) by (auto simp: cache_ready_def)
  from cache_flush_durable[OF 3(2) s this] obtain n c4 pg' where "page_cache_flush c3 = ret (n, c4)"
    "pc_pager c4 = Some pg'" "\<forall>p. resident c3 p \<or> pager_valid pg3 p \<longrightarrow> pager_page pg' p = cache_view c3 p" by blast
  with 1(1) 2(1) 3(1) v show ?thesis by auto
qed

section \<open>Replacement\<close>

text \<open>A page that is pinned and linked to itself is walked over for ever.\<close>

lemma victim_diverges:
  assumes "pc_heap c a = Some g" "pg_refcount g \<noteq> 0" "pg_lru_prev g = Some a"
  shows "lru_victim (Some a) c = None"
proof (rule ccontr)
  assume "lru_victim (Some a) c \<noteq> None"
  then obtain y where "lru_victim (Some a) c = Some y" by auto
  then have "\<not> (Some a = Some a \<and> c = c)"
  proof (rule lru_victim.raw_induct[where P = "\<lambda>q d y. \<not> (q = Some a \<and> d = c)", rotated])
    fix f :: "addr option \<Rightarrow> PageCache \<Rightarrow> addr option comp" and q d y
    assume IH: "\<And>q d y. f q d = Some y \<Longrightarrow> \<not> (q = Some a \<and> d = c)"
      and e: "(case q of None \<Rightarrow> ret None | Some a \<Rightarrow>
        bindc (page_at a d) (\<lambda>p. if pg_refcount p = 0 then ret (Some a) else f (pg_lru_prev p) d)) = Some y"
    then show "\<not> (q = Some a \<and> d = c)" using assms IH[of "Some a" c y] by auto
  qed
  then show False by simp
qed

text \<open>What one update of a page leaves as it was.\<close>

definition outer :: "PageCache \<Rightarrow> addr option \<times> int \<times> int \<times> addr \<times> Pager option \<times> addr set" where
  "outer c = (pc_lru_tail c, pc_count c, pc_max_pages c, pc_brk c, pc_pager c, dom (pc_heap c))"

lemma page_upd_outer: "page_upd a f c = ret c' \<Longrightarrow> outer c' = outer c"
  by (auto simp: page_upd_def outer_def split: option.splits if_splits)

lemma upd_if_outer: "upd_if q f c = ret c' \<Longrightarrow> outer c' = outer c"
  by (auto simp: upd_if_def page_upd_outer split: option.splits)

lemma set_bucket_outer: "set_bucket i q c = ret c' \<Longrightarrow> outer c' = outer c"
  by (auto simp: set_bucket_def outer_def split: if_splits)

lemmas outer_keeps = page_upd_outer upd_if_outer set_bucket_outer

lemma lru_remove_outer: "lru_remove a c = ret c' \<Longrightarrow> outer c' = outer c"
  by (auto simp: lru_remove_def bindc_eq_ret dest!: outer_keeps)

lemma hash_remove_outer: "hash_remove a c = ret c' \<Longrightarrow> outer c' = outer c"
  by (auto simp: hash_remove_def bindc_eq_ret Let_def split: option.splits dest!: outer_keeps)

lemma hash_insert_outer: "hash_insert a c = ret c' \<Longrightarrow> outer c' = outer c"
  by (auto simp: hash_insert_def bindc_eq_ret Let_def dest!: outer_keeps)

text \<open>An evicted page stays the last one of the list by last use: the pointer to it dangles.\<close>

definition dangling :: "PageCache \<Rightarrow> bool" where
  "dangling c \<longleftrightarrow> (\<exists>a. pc_lru_tail c = Some a \<and> a \<notin> dom (pc_heap c) \<and> a < pc_brk c)"

lemma lru_victim_simps [simp]:
  "lru_victim None c = ret None"
  "lru_victim (Some a) c =
     bindc (page_at a c) (\<lambda>p. if pg_refcount p = 0 then ret (Some a) else lru_victim (pg_lru_prev p) c)"
  by (simp_all add: lru_victim.simps[of None] lru_victim.simps[of "Some a"])

lemma write_back_outer:
  assumes "write_back g c = (w, c')" "pc_pager c = Some pg"
  shows "\<exists>pg'. outer c' = (pc_lru_tail c, pc_count c, pc_max_pages c, pc_brk c, Some pg', dom (pc_heap c))"
  using assms by (auto simp: write_back_def outer_def split: if_splits prod.splits)

lemma evict_tail_dangles:
  assumes "pc_lru_tail c = Some a" "pc_heap c a = Some g" "pg_refcount g = 0" "a < pc_brk c" "pc_pager c = Some pg"
    and "evict_lru_page c = ret (True, c')"
  shows "dangling c' \<and> pc_count c' = pc_count c - 1 \<and> pc_max_pages c' = pc_max_pages c \<and> (\<exists>pg. pc_pager c' = Some pg)"
proof -
  obtain w c1 where w: "write_back g c = (w, c1)" by (cases "write_back g c")
  obtain pg' where o1: "outer c1 = (Some a, pc_count c, pc_max_pages c, pc_brk c, Some pg', dom (pc_heap c))"
    using write_back_outer[OF w assms(5)] assms(1) by auto
  have "bindc (drop_page a c1) (\<lambda>c. ret (True, c)) = ret (True, c')"
    using assms(1-3,6) w by (simp add: evict_lru_page_def split: option.splits bool.splits)
  then obtain c2 c3 where "lru_remove a c1 = ret c2" "hash_remove a c2 = ret c3"
    "page_free a (c3\<lparr>pc_count := pc_count c3 - 1, pc_evict_count := pc_evict_count c3 + 1\<rparr>) = ret c'"
    by (auto simp: drop_page_def bindc_eq_ret)
  moreover from this have "outer c3 = outer c1" using lru_remove_outer hash_remove_outer by simp
  ultimately show ?thesis
    using o1 assms(4) by (auto simp: page_free_def dangling_def outer_def split: option.splits)
qed

lemma lru_add_front_outer:
  assumes "lru_add_front a c = ret c'" "pc_lru_tail c = Some t"
  shows "outer c' = outer c"
proof -
  obtain c1 c2 where "page_upd a (\<lambda>p. p\<lparr>pg_lru_next := pc_lru_head c, pg_lru_prev := None\<rparr>) c = ret c1"
    "upd_if (pc_lru_head c1) (\<lambda>q. q\<lparr>pg_lru_prev := Some a\<rparr>) c1 = ret c2"
    "c' = c2\<lparr>pc_lru_head := Some a, pc_lru_tail := if pc_lru_tail c2 = None then Some a else pc_lru_tail c2\<rparr>"
    using assms(1) by (auto simp: lru_add_front_def bindc_eq_ret)
  moreover from this have "outer c2 = outer c" using outer_keeps by metis
  ultimately show ?thesis using assms(2) by (auto simp: outer_def)
qed

lemma cache_load_dangling:
  assumes "dangling c" "cache_load p pg c = ret (Some b, c')"
  shows "dangling c' \<and> pc_count c' = pc_count c + 1 \<and> pc_max_pages c' = pc_max_pages c \<and> (\<exists>pg. pc_pager c' = Some pg)"
proof -
  obtain t where t: "pc_lru_tail c = Some t" "t \<notin> dom (pc_heap c)" "t < pc_brk c"
    using assms(1) by (auto simp: dangling_def)
  obtain a c1 where a: "page_alloc p c = (a, c1)" by (cases "page_alloc p c")
  then have o1: "outer c1 = (Some t, pc_count c, pc_max_pages c, Suc (pc_brk c), pc_pager c, insert (pc_brk c) (dom (pc_heap c)))"
    using t(1) by (auto simp: page_alloc_def Let_def outer_def)
  obtain buf pg' where rd: "pager_read_page p pg = (Some buf, pg')"
    using assms(2) a by (auto simp: cache_load_def bindc_eq_ret split: prod.splits option.splits)
  with assms(2) a obtain c2 c3 c4 c5 where c: "page_upd a (\<lambda>p. p\<lparr>pg_data := buf\<rparr>) (c1\<lparr>pc_pager := Some pg'\<rparr>) = ret c2"
    "hash_insert a c2 = ret c3" "lru_add_front a c3 = ret c4"
    "page_upd a (\<lambda>p. p\<lparr>pg_refcount := 1\<rparr>) (c4\<lparr>pc_count := pc_count c4 + 1\<rparr>) = ret c5"
    "c' = c5\<lparr>pc_pin_count := pc_pin_count c5 + 1\<rparr>"
    by (auto simp: cache_load_def bindc_eq_ret)
  have "outer c3 = outer (c1\<lparr>pc_pager := Some pg'\<rparr>)"
    using page_upd_outer[OF c(1)] hash_insert_outer[OF c(2)] by simp
  moreover from this have "outer c4 = outer c3"
    using o1 by (intro lru_add_front_outer[OF c(3)]) (auto simp: outer_def)
  moreover have "outer c' = outer (c4\<lparr>pc_count := pc_count c4 + 1\<rparr>)"
    using page_upd_outer[OF c(4)] c(5) by (simp add: outer_def)
  ultimately show ?thesis using o1 t by (auto simp: outer_def dangling_def)
qed

lemma dangling_evict: "dangling c \<Longrightarrow> evict_lru_page c = undef"
  by (auto simp: dangling_def evict_lru_page_def page_at_def domIff)

text \<open>The statistics do not matter for a lookup.\<close>

lemma hash_walk_heap:
  assumes "hash_walk p q c = Some y" "pc_heap d = pc_heap c"
  shows "hash_walk p q d = Some y"
proof -
  have "\<forall>d. pc_heap d = pc_heap c \<longrightarrow> hash_walk p q d = Some y"
  proof (rule hash_walk.raw_induct[where P = "\<lambda>p q c y. \<forall>d. pc_heap d = pc_heap c \<longrightarrow> hash_walk p q d = Some y", OF _ assms(1)])
    fix f :: "u32 \<Rightarrow> addr option \<Rightarrow> PageCache \<Rightarrow> addr option comp" and p q c y
    assume IH: "\<And>p q c y. f p q c = Some y \<Longrightarrow> \<forall>d. pc_heap d = pc_heap c \<longrightarrow> hash_walk p q d = Some y"
      and e: "(case q of None \<Rightarrow> ret None | Some a \<Rightarrow>
        bindc (page_at a c) (\<lambda>g. if pg_id g = p then ret (Some a) else f p (pg_hash_next g) c)) = Some y"
    show "\<forall>d. pc_heap d = pc_heap c \<longrightarrow> hash_walk p q d = Some y"
    proof (cases q)
      case (Some a)
      with e IH show ?thesis by (cases "pc_heap c a") (auto simp: page_at_def)
    qed (use e in simp)
  qed
  with assms(2) show ?thesis by blast
qed

lemma hash_find_miss_count:
  "hash_find p c = ret r \<Longrightarrow> hash_find p (c\<lparr>pc_miss_count := n\<rparr>) = ret r"
  using hash_walk_heap[of p _ c "Done r" "c\<lparr>pc_miss_count := n\<rparr>"]
  by (auto simp: hash_find_def bindc_eq_ret bucket_def ret_def[symmetric] split: if_splits)

lemma get_absent:
  assumes "hash_find p c = ret None" "pc_pager c = Some pg"
  shows "page_cache_get p c = bindc (make_room (c\<lparr>pc_miss_count := pc_miss_count c + 1\<rparr>)) (\<lambda>(room, c).
    case pc_pager c of Some pg \<Rightarrow> if room then cache_load p pg c else ret (None, c) | None \<Rightarrow> undef)"
  using assms hash_find_miss_count[OF assms(1)] by (simp add: page_cache_get_def)

text \<open>C29: Let a full cache have an unpinned page at the end of its list by last use.  If a first page that is not
  present can be brought in at all, then asking for a second one reads a freed page.\<close>

theorem second_replacement_undefined:
  assumes "pc_lru_tail c = Some a" "pc_heap c a = Some g" "pg_refcount g = 0" "a < pc_brk c"
    and "pc_count c = pc_max_pages c"
    and "hash_find p c = ret None" "page_cache_get p c = ret (Some b, c')" "hash_find q c' = ret None"
  shows "page_cache_get q c' = undef"
proof -
  let ?c = "c\<lparr>pc_miss_count := pc_miss_count c + 1\<rparr>"
  obtain pg where pg: "pc_pager c = Some pg" using assms(6,7) by (cases "pc_pager c") (auto simp: page_cache_get_def)
  obtain room c1 where m: "make_room ?c = ret (room, c1)" and
    l: "(case pc_pager c1 of Some pg \<Rightarrow> if room then cache_load p pg c1 else ret (None, c1) | None \<Rightarrow> undef) = ret (Some b, c')"
    using assms(7) get_absent[OF assms(6) pg] by (auto simp: bindc_eq_ret)
  then obtain pg1 where l1: "room" "cache_load p pg1 c1 = ret (Some b, c')"
    by (auto split: option.splits if_splits)
  obtain r c2 where e: "evict_lru_page ?c = ret (r, c2)" "(if r then make_room c2 else ret (r, c2)) = ret (True, c1)"
    using m l1(1) assms(5) by (auto simp: make_room.simps[of ?c] bindc_eq_ret split: if_splits)
  then have r: "r" by (auto split: if_splits)
  have d: "dangling c2 \<and> pc_count c2 = pc_count ?c - 1 \<and> pc_max_pages c2 = pc_max_pages ?c"
    using evict_tail_dangles[of ?c a g pg c2] assms(1-4) pg e(1) r by auto
  then have "make_room c2 = ret (True, c2)" using assms(5) by (simp add: make_room.simps[of c2])
  with e(2) r have "c1 = c2" by simp
  with cache_load_dangling[OF _ l1(2)] d assms(5) obtain pg' where
    d': "dangling c'" "pc_count c' = pc_max_pages c'" "pc_pager c' = Some pg'" by auto
  let ?c' = "c'\<lparr>pc_miss_count := pc_miss_count c' + 1\<rparr>"
  have "make_room ?c' = undef"
    using d' dangling_evict[of ?c'] by (simp add: make_room.simps[of ?c'] dangling_def)
  then show ?thesis using get_absent[OF assms(8) d'(3)] by simp
qed

text \<open>A cache of two frames with pages 1 and 2, over a file of five pages.\<close>

definition five_page_pager :: Pager where
  "five_page_pager = \<lparr>p_fd = \<lparr>fbytes = replicate (5 * PAGE_SIZE) 3, fpos = 0, fwritable = True, fsched = []\<rparr>,
     p_page_count = 5, p_first_free_page = 0, p_free_page_count = 0,
     p_file_size = 5 * PAGE_SIZE, p_is_open = True\<rparr>"

definition full_cache :: PageCache where
  "full_cache =
     \<lparr>pc_pages = [None, None, None, None, None, None, None, None, None, None, None, None, None, None, Some 1, Some 0],
      pc_table_size = 16, pc_lru_head = Some 1, pc_lru_tail = Some 0, pc_count = 2, pc_max_pages = 2,
      pc_hit_count = 0, pc_miss_count = 2, pc_pager = Some five_page_pager, pc_pin_count = 2, pc_evict_count = 0,
      pc_heap = [0 \<mapsto> \<lparr>pg_data = replicate PAGE_SIZE 3, pg_id = 1, pg_refcount = 0, pg_is_dirty = False,
                       pg_is_wal = False, pg_lru_next = None, pg_lru_prev = Some 1, pg_hash_next = None,
                       pg_hash_prev = None\<rparr>,
                 1 \<mapsto> \<lparr>pg_data = replicate PAGE_SIZE 3, pg_id = 2, pg_refcount = 0, pg_is_dirty = False,
                       pg_is_wal = False, pg_lru_next = Some 0, pg_lru_prev = None, pg_hash_next = None,
                       pg_hash_prev = None\<rparr>],
      pc_brk = 2\<rparr>"

theorem second_replacement_undefined_witness:
  "\<exists>b c'. page_cache_get 3 full_cache = ret (Some b, c') \<and> page_cache_get 4 c' = undef"
proof -
  have pg: "pager_ready five_page_pager" "pager_valid five_page_pager 3"
    by (simp_all add: pager_ready_def nofail_def five_page_pager_def pager_valid_def pager_is_valid_page_def
        get_page_offset_def)
  obtain pg' where rd: "pager_read_page 3 five_page_pager = (Some (pager_page five_page_pager 3), pg')"
    using pager.rd_law[OF pg] by blast
  have "\<exists>c'. page_cache_get 3 full_cache = ret (Some 2, c') \<and> hash_find 4 c' = ret None"
    by (simp add: page_cache_get_def full_cache_def hash_find_def hash_page_id_def bucket_def
        make_room.simps evict_lru_page_def write_back_def drop_page_def lru_remove_def hash_remove_def page_free_def
        upd_if_def page_upd_def set_bucket_def cache_load_def page_alloc_def rd hash_insert_def lru_add_front_def Let_def)
  then obtain c' where c': "page_cache_get 3 full_cache = ret (Some 2, c')" "hash_find 4 c' = ret None" by blast
  obtain g where g: "pc_heap full_cache 0 = Some g" "pg_refcount g = 0" by (simp add: full_cache_def)
  have f: "pc_lru_tail full_cache = Some 0" "0 < pc_brk full_cache" "pc_count full_cache = pc_max_pages full_cache"
    "hash_find 3 full_cache = ret None"
    by (simp_all add: full_cache_def hash_find_def hash_page_id_def bucket_def)
  have "page_cache_get 4 c' = undef" by (rule second_replacement_undefined[OF f(1) g f(2-4) c'])
  with c' show ?thesis by blast
qed

text \<open>In a cache for one page, asking for the same page twice links it to itself, and while it is pinned the
  search for a page to evict never ends: asking for another page does not return.\<close>

theorem repeated_get_hangs:
  assumes "pager_ready pg" "pager_valid pg p" "p \<noteq> q"
  shows "\<exists>a c1 c2. page_cache_get p (page_cache_create d 1 (Some pg)) = ret (Some a, c1) \<and>
    page_cache_get p c1 = ret (Some a, c2) \<and> page_cache_get q c2 = None"
proof -
  let ?c = "page_cache_create d 1 (Some pg)"
  let ?i = "hash_page_id p 16"
  have i: "hash_page_id x 16 < 16" for x by (rule hash_page_id_less) simp_all
  have t: "table_size_for (Suc 0) 16 = 16" by (simp add: table_size_for.simps)
  obtain pg' where rd: "pager_read_page p pg = (Some (pager_page pg p), pg')"
    using pager.rd_law[OF assms(1,2)] by blast
  define page where "page r l = \<lparr>pg_data = pager_page pg p, pg_id = p, pg_refcount = r, pg_is_dirty = False,
    pg_is_wal = False, pg_lru_next = l, pg_lru_prev = l, pg_hash_next = None, pg_hash_prev = None\<rparr>" for r l
  define st where "st g h k n = \<lparr>pc_pages = (replicate 16 None)[?i := Some 0], pc_table_size = 16, pc_lru_head = Some 0,
    pc_lru_tail = Some 0, pc_count = 1, pc_max_pages = 1, pc_hit_count = h, pc_miss_count = n,
    pc_pager = Some pg', pc_pin_count = k, pc_evict_count = 0, pc_heap = [0 \<mapsto> g], pc_brk = Suc 0\<rparr>" for g h k n
  have c1: "page_cache_get p ?c = ret (Some 0, st (page 1 None) 0 1 1)"
    using i[of p] rd by (simp add: page_cache_get_def page_cache_create_def PAGER_MAX_PAGES_def t hash_find_def bucket_def
        make_room.simps cache_load_def page_alloc_def page_upd_def hash_insert_def upd_if_def set_bucket_def
        lru_add_front_def st_def page_def Let_def)
  have c2: "page_cache_get p (st (page 1 None) 0 1 1) = ret (Some 0, st (page 2 (Some 0)) 1 2 1)"
    using i[of p] by (simp add: page_cache_get_def hash_find_def bucket_def st_def cache_hit_def lru_mru_def lru_remove_def
        lru_add_front_def upd_if_def page_upd_def page_def)
  let ?c2 = "st (page 2 (Some 0)) 1 2 1"
  have "hash_find q ?c2 = ret None"
    using i[of q] i[of p] assms(3) by (simp add: hash_find_def bucket_def st_def page_def nth_list_update)
  moreover have "make_room (?c2\<lparr>pc_miss_count := n\<rparr>) = None" for n
    using victim_diverges[of "?c2\<lparr>pc_miss_count := n\<rparr>" 0 "page 2 (Some 0)"]
    by (simp add: make_room.simps evict_lru_page_def st_def page_def del: lru_victim_simps)
  ultimately have "page_cache_get q ?c2 = None"
    using get_absent[of q ?c2 pg'] by (simp add: st_def)
  with c1 c2 show ?thesis by blast
qed

theorem repeated_get_hangs_witness:
  "\<exists>a c1 c2. page_cache_get 1 (page_cache_create 256 1 (Some two_page_pager)) = ret (Some a, c1) \<and>
    page_cache_get 1 c1 = ret (Some a, c2) \<and> page_cache_get 7 c2 = None"
  by (rule repeated_get_hangs) (use two_page_pager_ok in simp_all)

end
