(* ===== verification/Btree.thy ===== *)
theory Btree
  imports Cache_Inv
begin

text \<open>
  The B-tree, \<^verbatim>\<open>src/storage/btree.c\<close>, on top of the page cache.  Nodes are pages; the code reads
  and writes them byte by byte through \<^verbatim>\<open>page->data\<close>.  An access outside the page buffer is
  undefined, and so is a use of a tree that has been freed (\<open>bt_alive\<close> is the allocation state
  of the structure).

  The tree and its cache share one pager, as all callers set them up: the pager of the tree is
  the pager of the cache.  The mutex of the tree is never locked and is left out.  Keys are read
  and written in host byte order through a cast pointer, everything else is big-endian.
  The buffer that a caller passes to \<^verbatim>\<open>btree_get\<close> has a size that the function does not know;
  here it is the argument \<open>cap\<close>, and copying more than that is undefined.
\<close>

section \<open>Page bytes\<close>

definition BTREE_MAX_DEPTH :: nat where
  "BTREE_MAX_DEPTH = 16"

definition BTREE_LEAF_HEADER_SIZE :: nat where
  "BTREE_LEAF_HEADER_SIZE = 10"

definition BTREE_CELL_POINTER_SIZE :: nat where
  "BTREE_CELL_POINTER_SIZE = 2"

definition BTREE_PAGE_TYPE_LEAF :: u8 where
  "BTREE_PAGE_TYPE_LEAF = 0x0D"

definition BTREE_PAGE_TYPE_INTERNAL :: u8 where
  "BTREE_PAGE_TYPE_INTERNAL = 0x0A"

definition read_u8 :: "bytes \<Rightarrow> nat \<Rightarrow> u8 comp" where
  "read_u8 d off = bindc (mem_read d off 1) (\<lambda>bs. ret (be_val bs))"

definition write_u8 :: "bytes \<Rightarrow> nat \<Rightarrow> u8 \<Rightarrow> bytes comp" where
  "write_u8 d off v = mem_write d off [v]"

definition read_u16 :: "bytes \<Rightarrow> nat \<Rightarrow> u16 comp" where
  "read_u16 d off = bindc (mem_read d off 2) (\<lambda>bs. ret (be_val bs))"

definition write_u16 :: "bytes \<Rightarrow> nat \<Rightarrow> u16 \<Rightarrow> bytes comp" where
  "write_u16 d off v = mem_write d off (be_bytes 2 v)"

definition read_u32 :: "bytes \<Rightarrow> nat \<Rightarrow> u32 comp" where
  "read_u32 d off = bindc (mem_read d off 4) (\<lambda>bs. ret (be_val bs))"

definition write_u32 :: "bytes \<Rightarrow> nat \<Rightarrow> u32 \<Rightarrow> bytes comp" where
  "write_u32 d off v = mem_write d off (be_bytes 4 v)"

definition read_key :: "bytes \<Rightarrow> nat \<Rightarrow> u64 comp" where
  "read_key d off = bindc (mem_read d off 8) (\<lambda>bs. ret (le_val bs))"

record BTreeNodeHeader =
  nh_page_type :: u8
  nh_cell_count :: u16
  nh_content_start :: u16
  nh_fragmented_bytes :: u8

definition get_node_header :: "bytes \<Rightarrow> BTreeNodeHeader comp" where
  "get_node_header d =
     bindc (read_u8 d 0) (\<lambda>page_type.
     bindc (read_u16 d 1) (\<lambda>cell_count.
     bindc (read_u16 d 3) (\<lambda>content_start.
     bindc (read_u8 d 5) (\<lambda>fragmented_bytes.
     ret \<lparr>nh_page_type = page_type, nh_cell_count = cell_count, nh_content_start = content_start,
          nh_fragmented_bytes = fragmented_bytes\<rparr>))))"

definition set_node_header :: "bytes \<Rightarrow> BTreeNodeHeader \<Rightarrow> bytes comp" where
  "set_node_header d header =
     bindc (write_u8 d 0 (nh_page_type header)) (\<lambda>d.
     bindc (write_u16 d 1 (nh_cell_count header)) (\<lambda>d.
     bindc (write_u16 d 3 (nh_content_start header)) (\<lambda>d.
     write_u8 d 5 (nh_fragmented_bytes header))))"

definition get_cell_pointer :: "bytes \<Rightarrow> nat \<Rightarrow> u16 comp" where
  "get_cell_pointer d index = read_u16 d (BTREE_LEAF_HEADER_SIZE + index * BTREE_CELL_POINTER_SIZE)"

definition set_cell_pointer :: "bytes \<Rightarrow> nat \<Rightarrow> u16 \<Rightarrow> bytes comp" where
  "set_cell_pointer d index v = write_u16 d (BTREE_LEAF_HEADER_SIZE + index * BTREE_CELL_POINTER_SIZE) v"

definition get_leaf_cell :: "bytes \<Rightarrow> nat \<Rightarrow> (u32 \<times> u32 \<times> nat \<times> nat) comp" where
  "get_leaf_cell d off =
     bindc (read_u32 d off) (\<lambda>payload_size.
     bindc (read_u32 d (off + 4)) (\<lambda>key_size.
     ret (payload_size, key_size, off + 8, off + 8 + unat key_size)))"

definition is_leaf_page :: "u8 \<Rightarrow> bool" where
  "is_leaf_page page_type \<longleftrightarrow> page_type = BTREE_PAGE_TYPE_LEAF"

definition is_internal_page :: "u8 \<Rightarrow> bool" where
  "is_internal_page page_type \<longleftrightarrow> page_type = BTREE_PAGE_TYPE_INTERNAL"

definition get_right_child :: "bytes \<Rightarrow> u32 comp" where
  "get_right_child d = read_u32 d 6"

definition set_right_child :: "bytes \<Rightarrow> u32 \<Rightarrow> bytes comp" where
  "set_right_child d child = write_u32 d 6 child"

section \<open>Trees and cursors\<close>

record BTree =
  bt_root_page :: u32
  bt_page_count :: u32
  bt_is_open :: bool
  bt_alive :: bool

record BTreeCursor =
  cu_tree :: BTree
  cu_page :: u32
  cu_cell :: nat
  cu_is_end :: bool
  cu_depth :: nat
  cu_stack :: "(u32 \<times> nat) list"
  cu_is_forward :: bool

text \<open>\<^verbatim>\<open>calloc\<close> of a cursor, with the direction set.\<close>

definition cursor_new :: "BTree \<Rightarrow> bool \<Rightarrow> BTreeCursor" where
  "cursor_new tree forward =
     \<lparr>cu_tree = tree, cu_page = 0, cu_cell = 0, cu_is_end = False, cu_depth = 0,
      cu_stack = replicate BTREE_MAX_DEPTH (0, 0), cu_is_forward = forward\<rparr>"

definition btree_open :: "u32 \<Rightarrow> BTree" where
  "btree_open root_page = \<lparr>bt_root_page = root_page, bt_page_count = 0, bt_is_open = True, bt_alive = True\<rparr>"

definition btree_create :: "PageCache \<Rightarrow> (BTree option \<times> PageCache) comp" where
  "btree_create c =
     (case pc_pager c of None \<Rightarrow> undef | Some pg \<Rightarrow>
      case pager_allocate_page pg of
        (None, pg) \<Rightarrow> ret (None, c\<lparr>pc_pager := Some pg\<rparr>)
      | (Some root_page, pg) \<Rightarrow>
          bindc (page_pin root_page (c\<lparr>pc_pager := Some pg\<rparr>)) (\<lambda>(page, c).
          case page of
            None \<Rightarrow> ret (None, c)
          | Some a \<Rightarrow>
              bindc (page_data a c) (\<lambda>d.
              bindc (mem_write d 0 (replicate PAGE_SIZE 0)) (\<lambda>d.
              bindc (write_u8 d 0 BTREE_PAGE_TYPE_LEAF) (\<lambda>d.
              bindc (write_u16 d 1 0) (\<lambda>d.
              bindc (write_u16 d 3 (of_nat PAGE_SIZE)) (\<lambda>d.
              bindc (write_u8 d 5 0) (\<lambda>d.
              bindc (set_page_data a d c) (\<lambda>c.
              bindc (page_mark_dirty page c) (\<lambda>c.
              bindc (page_unpin page c) (\<lambda>c.
              ret (Some (btree_open root_page), c))))))))))))"

definition btree_close :: "BTree \<Rightarrow> PageCache \<Rightarrow> (BTree \<times> PageCache) comp" where
  "btree_close tree c =
     (if \<not> bt_alive tree then undef else
      bindc (page_cache_flush c) (\<lambda>(_, c). ret (tree\<lparr>bt_alive := False\<rparr>, c)))"

section \<open>Search\<close>

text \<open>
  \<^verbatim>\<open>find_cell_index\<close> is not called.  For an internal node its loop moves \<^verbatim>\<open>left\<close> past
  \<^verbatim>\<open>mid\<close> in every step; what it reads there has no influence but must lie within the page.
\<close>

function find_cell_between :: "bytes \<Rightarrow> u64 \<Rightarrow> bool \<Rightarrow> nat \<Rightarrow> nat \<Rightarrow> nat comp" where
  "find_cell_between d key leaf left right =
     (if left < right then
        let mid = (left + right) div 2 in
        if leaf then
          bindc (get_cell_pointer d mid) (\<lambda>cell_offset.
          bindc (read_u32 d (unat cell_offset + 4)) (\<lambda>_.
          bindc (read_key d (unat cell_offset + 8)) (\<lambda>cell_key.
          if cell_key < key then find_cell_between d key leaf (mid + 1) right
          else find_cell_between d key leaf left mid)))
        else
          bindc (read_u32 d (BTREE_LEAF_HEADER_SIZE + mid * BTREE_CELL_POINTER_SIZE)) (\<lambda>_.
          bindc (read_u16 d (BTREE_LEAF_HEADER_SIZE + mid * BTREE_CELL_POINTER_SIZE + 4)) (\<lambda>_.
          find_cell_between d key leaf (mid + 1) right))
      else ret left)"
  by pat_completeness auto
termination
  by (relation "measure (\<lambda>(d, key, leaf, left, right). right - left)") auto

definition find_cell_index :: "bytes \<Rightarrow> u64 \<Rightarrow> bool \<Rightarrow> nat comp" where
  "find_cell_index d key leaf =
     bindc (get_node_header d) (\<lambda>header.
     find_cell_between d key leaf 0 (unat (nh_cell_count header)))"

text \<open>The loop over the cells of a leaf: \<open>n\<close> cells are left, the next one is \<open>i\<close>.\<close>

fun leaf_search :: "bytes \<Rightarrow> u64 \<Rightarrow> nat \<Rightarrow> nat \<Rightarrow> nat option comp" where
  "leaf_search d key 0 i = ret None"
| "leaf_search d key (Suc n) i =
     bindc (get_cell_pointer d i) (\<lambda>cell_offset.
     bindc (read_u32 d (unat cell_offset + 4)) (\<lambda>key_size.
     if key_size = 8 then
       bindc (read_key d (unat cell_offset + 8)) (\<lambda>cell_key.
       if cell_key = key then ret (Some i) else leaf_search d key n (Suc i))
     else leaf_search d key n (Suc i)))"

text \<open>The loop over the cells of an internal node, with the index of the child to descend to.\<close>

fun internal_search :: "bytes \<Rightarrow> u64 \<Rightarrow> nat \<Rightarrow> nat \<Rightarrow> nat \<Rightarrow> nat comp" where
  "internal_search d key 0 i target_cell = ret target_cell"
| "internal_search d key (Suc n) i target_cell =
     bindc (get_cell_pointer d i) (\<lambda>cell_offset.
     bindc (read_u16 d (unat cell_offset + 4)) (\<lambda>key_size.
     if key_size = 8 then
       bindc (read_key d (unat cell_offset + 8)) (\<lambda>cell_key.
       if key \<le> cell_key then ret i else internal_search d key n (Suc i) (i + 1))
     else internal_search d key n (Suc i) (i + 1)))"

text \<open>
  The descent shared by \<^verbatim>\<open>btree_find\<close>, \<^verbatim>\<open>btree_first\<close> and \<^verbatim>\<open>btree_last\<close>: pin the page, read its
  header, do \<open>at_leaf\<close> with a leaf, let \<open>child\<close> choose the page to go on with (and the
  cell to note on the stack) in an internal node, and release the page.  \<open>n\<close> levels are
  left of \<^verbatim>\<open>BTREE_MAX_DEPTH\<close>.
\<close>

fun descend ::
    "(BTreeNodeHeader \<Rightarrow> bytes \<Rightarrow> u32 \<Rightarrow> nat \<Rightarrow> BTreeCursor \<Rightarrow> BTreeCursor comp) \<Rightarrow>
     (BTreeNodeHeader \<Rightarrow> bytes \<Rightarrow> (u32 \<times> nat) comp) \<Rightarrow>
     nat \<Rightarrow> u32 \<Rightarrow> nat \<Rightarrow> BTreeCursor \<Rightarrow> PageCache \<Rightarrow> (BTreeCursor option \<times> PageCache) comp" where
  "descend at_leaf child 0 page_num depth cursor c = ret (None, c)"
| "descend at_leaf child (Suc n) page_num depth cursor c =
     bindc (page_pin page_num c) (\<lambda>(page, c).
     case page of
       None \<Rightarrow> ret (None, c)
     | Some a \<Rightarrow>
         bindc (page_data a c) (\<lambda>d.
         bindc (get_node_header d) (\<lambda>header.
         if is_leaf_page (nh_page_type header) then
           bindc (at_leaf header d page_num depth cursor) (\<lambda>cursor.
           bindc (page_unpin page c) (\<lambda>c. ret (Some cursor, c)))
         else if is_internal_page (nh_page_type header) then
           bindc (child header d) (\<lambda>(child_page, cell).
           bindc (page_unpin page c) (\<lambda>c.
           descend at_leaf child n child_page (Suc depth)
             (cursor\<lparr>cu_stack := (cu_stack cursor)[depth := (page_num, cell)]\<rparr>) c))
         else bindc (page_unpin page c) (\<lambda>c. ret (None, c)))))"

definition find_leaf :: "u64 \<Rightarrow> BTreeNodeHeader \<Rightarrow> bytes \<Rightarrow> u32 \<Rightarrow> nat \<Rightarrow> BTreeCursor \<Rightarrow> BTreeCursor comp" where
  "find_leaf key header d page_num depth cursor =
     (let cursor = cursor\<lparr>cu_stack := (cu_stack cursor)[depth := (page_num, 0)], cu_depth := depth + 1,
                          cu_page := page_num\<rparr>;
          cell_count = unat (nh_cell_count header) in
      bindc (leaf_search d key cell_count 0) (\<lambda>found.
      case found of
        Some i \<Rightarrow> ret (cursor\<lparr>cu_cell := i\<rparr>)
      | None \<Rightarrow> ret (cursor\<lparr>cu_cell := cell_count, cu_is_end := True\<rparr>)))"

definition find_child :: "u64 \<Rightarrow> BTreeNodeHeader \<Rightarrow> bytes \<Rightarrow> (u32 \<times> nat) comp" where
  "find_child key header d =
     (let cell_count = unat (nh_cell_count header) in
      bindc (get_right_child d) (\<lambda>right_child.
      bindc (internal_search d key cell_count 0 0) (\<lambda>target_cell.
      if target_cell < cell_count then
        bindc (read_u32 d (BTREE_LEAF_HEADER_SIZE + target_cell * BTREE_CELL_POINTER_SIZE + 2)) (\<lambda>child_page.
        ret (child_page, target_cell))
      else ret (right_child, target_cell))))"

definition btree_find :: "BTree \<Rightarrow> u64 \<Rightarrow> PageCache \<Rightarrow> (BTreeCursor option \<times> PageCache) comp" where
  "btree_find tree key c =
     (if \<not> bt_alive tree then undef
      else if \<not> bt_is_open tree then ret (None, c)
      else descend (find_leaf key) (find_child key) BTREE_MAX_DEPTH (bt_root_page tree) 0 (cursor_new tree True) c)"

definition first_leaf :: "BTreeNodeHeader \<Rightarrow> bytes \<Rightarrow> u32 \<Rightarrow> nat \<Rightarrow> BTreeCursor \<Rightarrow> BTreeCursor comp" where
  "first_leaf header d page_num depth cursor =
     ret (cursor\<lparr>cu_page := page_num, cu_cell := 0, cu_depth := depth + 1,
                 cu_is_end := (nh_cell_count header = 0),
                 cu_stack := (cu_stack cursor)[depth := (page_num, 0)]\<rparr>)"

definition first_child :: "BTreeNodeHeader \<Rightarrow> bytes \<Rightarrow> (u32 \<times> nat) comp" where
  "first_child header d =
     bindc (get_right_child d) (\<lambda>right_child.
     if 0 < nh_cell_count header then
       bindc (get_cell_pointer d 0) (\<lambda>cell_offset.
       bindc (read_u32 d (unat cell_offset + 2)) (\<lambda>child_page. ret (child_page, 0)))
     else ret (right_child, 0))"

definition btree_first :: "BTree \<Rightarrow> PageCache \<Rightarrow> (BTreeCursor option \<times> PageCache) comp" where
  "btree_first tree c =
     (if \<not> bt_alive tree then undef
      else if \<not> bt_is_open tree then ret (None, c)
      else descend first_leaf first_child BTREE_MAX_DEPTH (bt_root_page tree) 0 (cursor_new tree True) c)"

definition last_leaf :: "BTreeNodeHeader \<Rightarrow> bytes \<Rightarrow> u32 \<Rightarrow> nat \<Rightarrow> BTreeCursor \<Rightarrow> BTreeCursor comp" where
  "last_leaf header d page_num depth cursor =
     (let cell = (if 0 < nh_cell_count header then unat (nh_cell_count header) - 1 else 0) in
      ret (cursor\<lparr>cu_page := page_num, cu_cell := cell, cu_depth := depth + 1,
                  cu_is_end := (nh_cell_count header = 0),
                  cu_stack := (cu_stack cursor)[depth := (page_num, cell)]\<rparr>))"

definition last_child :: "BTreeNodeHeader \<Rightarrow> bytes \<Rightarrow> (u32 \<times> nat) comp" where
  "last_child header d =
     bindc (get_right_child d) (\<lambda>right_child. ret (right_child, unat (nh_cell_count header)))"

definition btree_last :: "BTree \<Rightarrow> PageCache \<Rightarrow> (BTreeCursor option \<times> PageCache) comp" where
  "btree_last tree c =
     (if \<not> bt_alive tree then undef
      else if \<not> bt_is_open tree then ret (None, c)
      else descend last_leaf last_child BTREE_MAX_DEPTH (bt_root_page tree) 0 (cursor_new tree False) c)"

section \<open>Cursors\<close>

definition btree_cursor_next :: "BTreeCursor \<Rightarrow> PageCache \<Rightarrow> (BTreeCursor \<times> PageCache) comp" where
  "btree_cursor_next cursor c =
     (if cu_is_end cursor then ret (cursor, c)
      else if \<not> bt_alive (cu_tree cursor) then undef
      else
        bindc (page_pin (cu_page cursor) c) (\<lambda>(page, c).
        case page of
          None \<Rightarrow> ret (cursor, c)
        | Some a \<Rightarrow>
            bindc (page_data a c) (\<lambda>d.
            bindc (get_node_header d) (\<lambda>header.
            let cell_count = unat (nh_cell_count header);
                cursor = cursor\<lparr>cu_cell := cu_cell cursor + 1\<rparr>;
                cursor = (if cell_count \<le> cu_cell cursor
                          then cursor\<lparr>cu_is_end := True, cu_cell := cell_count\<rparr> else cursor) in
            bindc (page_unpin page c) (\<lambda>c. ret (cursor, c))))))"

definition btree_cursor_prev :: "BTreeCursor \<Rightarrow> BTreeCursor" where
  "btree_cursor_prev cursor =
     (if cu_is_end cursor then cursor
      else if 0 < cu_cell cursor then cursor\<lparr>cu_cell := cu_cell cursor - 1\<rparr>
      else cursor\<lparr>cu_cell := 0\<rparr>)"

definition btree_cursor_valid :: "BTreeCursor \<Rightarrow> bool" where
  "btree_cursor_valid cursor \<longleftrightarrow> \<not> cu_is_end cursor"

definition btree_get :: "nat \<Rightarrow> BTreeCursor \<Rightarrow> PageCache \<Rightarrow> ((u64 \<times> bytes) option \<times> PageCache) comp" where
  "btree_get cap cursor c =
     (if cu_is_end cursor then ret (None, c)
      else if \<not> bt_alive (cu_tree cursor) then undef
      else
        bindc (page_pin (cu_page cursor) c) (\<lambda>(page, c).
        case page of
          None \<Rightarrow> ret (None, c)
        | Some a \<Rightarrow>
            bindc (page_data a c) (\<lambda>d.
            bindc (get_node_header d) (\<lambda>header.
            if unat (nh_cell_count header) \<le> cu_cell cursor then
              bindc (page_unpin page c) (\<lambda>c. ret (None, c))
            else
              bindc (get_cell_pointer d (cu_cell cursor)) (\<lambda>cell_offset.
              bindc (read_u32 d (unat cell_offset)) (\<lambda>payload_size.
              bindc (read_u32 d (unat cell_offset + 4)) (\<lambda>key_size.
              bindc (read_key d (unat cell_offset + 8)) (\<lambda>key.
              let value_len = payload_size - key_size - 8 in
              bindc (if unat value_len \<le> cap
                     then mem_read d (unat cell_offset + 8 + unat key_size) (unat value_len) else undef) (\<lambda>buf.
              bindc (page_unpin page c) (\<lambda>c. ret (Some (key, buf), c)))))))))))"

definition btree_cursor_peek :: "nat \<Rightarrow> BTreeCursor \<Rightarrow> PageCache \<Rightarrow> ((u64 \<times> bytes) option \<times> PageCache) comp" where
  "btree_cursor_peek cap cursor c = btree_get cap cursor c"

section \<open>Insertion\<close>

text \<open>The pointers from \<open>insert_idx\<close> on move up by one, the last one first.\<close>

fun shift_pointers :: "nat \<Rightarrow> nat \<Rightarrow> bytes \<Rightarrow> bytes comp" where
  "shift_pointers 0 insert_idx d = ret d"
| "shift_pointers (Suc i) insert_idx d =
     (if insert_idx < Suc i then
        bindc (get_cell_pointer d i) (\<lambda>p.
        bindc (set_cell_pointer d (Suc i) p) (\<lambda>d. shift_pointers i insert_idx d))
      else ret d)"

text \<open>The new cell: \<open>None\<close> when the node has no room for it.\<close>

definition insert_cell :: "u64 \<Rightarrow> bytes \<Rightarrow> u32 \<Rightarrow> nat \<Rightarrow> bytes \<Rightarrow> bytes option comp" where
  "insert_cell key value len insert_idx d =
     bindc (get_node_header d) (\<lambda>header.
     let cell_count = unat (nh_cell_count header);
         total_payload = 8 + len + 8;
         cell_size = (ucast (2 + total_payload) :: u16);
         content_start = unat (nh_content_start header);
         available_space = int content_start - int (BTREE_LEAF_HEADER_SIZE + cell_count * BTREE_CELL_POINTER_SIZE) in
     if int (unat cell_size) > available_space then ret None
     else
       bindc (shift_pointers cell_count insert_idx d) (\<lambda>d.
       let cell_offset = nh_content_start header - ucast total_payload in
       bindc (set_cell_pointer d insert_idx cell_offset) (\<lambda>d.
       bindc (write_u32 d (unat cell_offset) total_payload) (\<lambda>d.
       bindc (write_u32 d (unat cell_offset + 4) 8) (\<lambda>d.
       bindc (mem_write d (unat cell_offset + 8) (le_bytes 8 key)) (\<lambda>d.
       bindc (mem_read value 0 (unat len)) (\<lambda>v.
       bindc (mem_write d (unat cell_offset + 16) v) (\<lambda>d.
       bindc (set_node_header d (header\<lparr>nh_cell_count := nh_cell_count header + 1,
                                        nh_content_start := cell_offset\<rparr>)) (\<lambda>d.
       ret (Some d))))))))))"

definition btree_insert :: "BTree \<Rightarrow> u64 \<Rightarrow> bytes \<Rightarrow> u32 \<Rightarrow> PageCache \<Rightarrow> (bool \<times> PageCache) comp" where
  "btree_insert tree key value len c =
     (if \<not> bt_alive tree then undef
      else if \<not> bt_is_open tree then ret (False, c)
      else
        bindc (btree_find tree key c) (\<lambda>(cursor, c).
        case cursor of
          None \<Rightarrow> ret (False, c)
        | Some cursor \<Rightarrow>
            if \<not> cu_is_end cursor then
              bindc (page_pin (cu_page cursor) c) (\<lambda>(page, c).
              bindc (page_unpin page c) (\<lambda>c. ret (True, c)))
            else
              bindc (page_pin (cu_page cursor) c) (\<lambda>(page, c).
              case page of
                None \<Rightarrow> ret (False, c)
              | Some a \<Rightarrow>
                  bindc (page_data a c) (\<lambda>d.
                  bindc (insert_cell key value len (cu_cell cursor) d) (\<lambda>r.
                  case r of
                    None \<Rightarrow> bindc (page_unpin page c) (\<lambda>c. ret (False, c))
                  | Some d \<Rightarrow>
                      bindc (set_page_data a d c) (\<lambda>c.
                      bindc (page_mark_dirty page c) (\<lambda>c.
                      bindc (page_unpin page c) (\<lambda>c. ret (True, c)))))))))"

definition btree_delete :: "BTree \<Rightarrow> u64 \<Rightarrow> bool" where
  "btree_delete tree key = False"

definition btree_update :: "BTree \<Rightarrow> u64 \<Rightarrow> bytes \<Rightarrow> u32 \<Rightarrow> PageCache \<Rightarrow> (bool \<times> PageCache) comp" where
  "btree_update tree key value len c = btree_insert tree key value len c"

section \<open>Ranges and utilities\<close>

record BTreeRange =
  rg_tree :: BTree
  rg_start :: "BTreeCursor option"
  rg_end :: "BTreeCursor option"
  rg_start_key :: u64
  rg_end_key :: u64

definition btree_range_new :: "BTree \<Rightarrow> u64 \<Rightarrow> u64 \<Rightarrow> PageCache \<Rightarrow> (BTreeRange \<times> PageCache) comp" where
  "btree_range_new tree start_key end_key c =
     bindc (btree_find tree start_key c) (\<lambda>(start, c).
     bindc (btree_find tree end_key c) (\<lambda>(stop, c).
     ret (\<lparr>rg_tree = tree, rg_start = start, rg_end = stop, rg_start_key = start_key, rg_end_key = end_key\<rparr>, c)))"

definition btree_page_count :: "BTree \<Rightarrow> u32" where
  "btree_page_count tree = bt_page_count tree"

definition btree_verify :: "BTree \<Rightarrow> bool" where
  "btree_verify tree = True"

definition btree_print :: "BTree \<Rightarrow> string" where
  "btree_print tree =
     ''BTree: root='' @ dec_digits (unat (bt_root_page tree)) @ '', pages='' @
     dec_digits (unat (bt_page_count tree)) @ [CHR 0x0A]"

end
