(* ===== verification/Btree_Rep.thy ===== *)
theory Btree_Rep
  imports Btree Cache_Props
begin

text \<open>
  What a leaf page means.  \<open>leaf_rep d kvs\<close>: the bytes \<open>d\<close> are a leaf with the entries
  \<open>kvs\<close>, whose cells were put one below the other from the end of the page.  The lemmas show
  what the loops and the insertion of \<^verbatim>\<open>btree.c\<close> do on such a page.
\<close>

section \<open>Buffers\<close>

lemma mem_read_in [simp]: "off + n \<le> length d \<Longrightarrow> mem_read d off n = ret (get_at off n d)"
  by (simp add: mem_read_def)

lemma mem_write_in [simp]: "off + length bs \<le> length d \<Longrightarrow> mem_write d off bs = ret (put_at off bs d)"
  by (simp add: mem_write_def)

lemma length_put_in [simp]: "off + length bs \<le> length d \<Longrightarrow> length (put_at off bs d) = length d"
  by (simp add: length_put_at)

lemma put_at_append: "put_at (off + length as) bs (put_at off as xs) = put_at off (as @ bs) xs"
  by (auto simp: put_at_def min_def ac_simps)

text \<open>Reading a part of bytes that are known.\<close>

lemma get_at_part:
  assumes "get_at off n d = bs" "i + m \<le> n"
  shows "get_at (off + i) m d = get_at i m bs"
  using get_at_get_at[OF assms(2), of off d] assms(1) by simp

lemma get_at_skip: "length as \<le> i \<Longrightarrow> get_at i n (as @ bs) = get_at (i - length as) n bs"
  by (simp add: get_at_def)

lemma get_at_take: "n \<le> length as \<Longrightarrow> get_at 0 n (as @ bs) = get_at 0 n as"
  by (simp add: get_at_def)

lemma get_at_all: "length as = n \<Longrightarrow> get_at 0 n (as @ bs) = as"
  by (simp add: get_at_def)

section \<open>Leaves\<close>

type_synonym entry = "u64 \<times> bytes"

definition cell_bytes :: "entry \<Rightarrow> bytes" where
  "cell_bytes kv = be_bytes 4 (of_nat (16 + length (snd kv)) :: u32) @ be_bytes 4 (8 :: u32) @ le_bytes 8 (fst kv) @ snd kv"

definition cells_len :: "entry list \<Rightarrow> nat" where
  "cells_len kvs = sum_list (map (length \<circ> cell_bytes) kvs)"

definition cell_off :: "entry list \<Rightarrow> nat \<Rightarrow> nat" where
  "cell_off kvs i = PAGE_SIZE - cells_len (take (Suc i) kvs)"

definition leaf_used :: "entry list \<Rightarrow> nat" where
  "leaf_used kvs = 10 + 2 * length kvs + cells_len kvs"

definition leaf_header :: "entry list \<Rightarrow> bytes" where
  "leaf_header kvs = [0x0D] @ be_bytes 2 (of_nat (length kvs) :: u16) @
     be_bytes 2 (of_nat (PAGE_SIZE - cells_len kvs) :: u16) @ [0]"

definition leaf_rep :: "bytes \<Rightarrow> entry list \<Rightarrow> bool" where
  "leaf_rep d kvs \<longleftrightarrow> length d = PAGE_SIZE \<and> leaf_used kvs \<le> PAGE_SIZE \<and> get_at 0 6 d = leaf_header kvs \<and>
     (\<forall>i < length kvs. get_at (10 + 2 * i) 2 d = be_bytes 2 (of_nat (cell_off kvs i) :: u16) \<and>
        get_at (cell_off kvs i) (length (cell_bytes (kvs ! i))) d = cell_bytes (kvs ! i))"

lemma length_cell_bytes [simp]: "length (cell_bytes kv) = 16 + length (snd kv)"
  by (simp add: cell_bytes_def)

lemma length_leaf_header [simp]: "length (leaf_header kvs) = 6"
  by (simp add: leaf_header_def)

lemma cells_len_append [simp]: "cells_len (xs @ ys) = cells_len xs + cells_len ys"
  by (simp add: cells_len_def)

lemma cells_len_single [simp]: "cells_len [kv] = 16 + length (snd kv)"
  by (simp add: cells_len_def)

lemma cells_len_Nil [simp]: "cells_len [] = 0"
  by (simp add: cells_len_def)

lemma cells_len_take: "cells_len (take i kvs) \<le> cells_len kvs"
  by (metis append_take_drop_id cells_len_append le_add1)

lemma cell_off_bounds:
  assumes "leaf_used kvs \<le> PAGE_SIZE" "i < length kvs"
  shows "PAGE_SIZE - cells_len kvs \<le> cell_off kvs i" "10 + 2 * length kvs \<le> cell_off kvs i"
    "cell_off kvs i + length (cell_bytes (kvs ! i)) \<le> PAGE_SIZE" "cell_off kvs i < 65536"
proof -
  have c: "cells_len (take (Suc i) kvs) \<le> cells_len kvs" by (rule cells_len_take)
  then show "PAGE_SIZE - cells_len kvs \<le> cell_off kvs i" by (simp add: cell_off_def)
  show "10 + 2 * length kvs \<le> cell_off kvs i" using c assms(1) by (simp add: cell_off_def leaf_used_def)
  have "cells_len (take (Suc i) kvs) = cells_len (take i kvs) + length (cell_bytes (kvs ! i))"
    using assms(2) by (simp add: take_Suc_conv_app_nth)
  then show "cell_off kvs i + length (cell_bytes (kvs ! i)) \<le> PAGE_SIZE"
    using c assms(1) by (simp add: cell_off_def leaf_used_def)
  show "cell_off kvs i < 65536" by (simp add: cell_off_def PAGE_SIZE_def)
qed

lemma cell_off_append: "i < length kvs \<Longrightarrow> cell_off (kvs @ xs) i = cell_off kvs i"
  by (simp add: cell_off_def)

lemma unat_u16: "n < 65536 \<Longrightarrow> unat (of_nat n :: u16) = n"
  by (simp add: unat_of_nat take_bit_nat_eq_self)

lemma unat_u32: "n < 4294967296 \<Longrightarrow> unat (of_nat n :: u32) = n"
  by (simp add: unat_of_nat take_bit_nat_eq_self)

lemma u16_of_u32: "n < 4294967296 \<Longrightarrow> ucast (of_nat n :: u32) = (of_nat n :: u16)"
  by (simp add: unsigned_of_nat take_bit_nat_eq_self)

lemma of_nat_unat_id: "of_nat (unat w) = (w :: 'a::len word)"
  by simp

lemma leaf_count:
  assumes "leaf_rep d kvs"
  shows "length d = PAGE_SIZE" "length kvs < 4096" "cells_len kvs \<le> PAGE_SIZE" "leaf_used kvs \<le> PAGE_SIZE"
  using assms by (auto simp: leaf_rep_def leaf_used_def PAGE_SIZE_def)

lemma be_val_byte [simp]: "be_val [b] = (b :: u8)"
  by (simp add: be_val_def)

text \<open>The header fields.\<close>

definition leaf_hdr :: "entry list \<Rightarrow> BTreeNodeHeader" where
  "leaf_hdr kvs = \<lparr>nh_page_type = BTREE_PAGE_TYPE_LEAF, nh_cell_count = of_nat (length kvs),
     nh_content_start = of_nat (PAGE_SIZE - cells_len kvs), nh_fragmented_bytes = 0\<rparr>"

lemma leaf_get_header:
  assumes "leaf_rep d kvs"
  shows "get_node_header d = ret (leaf_hdr kvs)"
proof -
  have l: "length d = 4096" using leaf_count[OF assms] by (simp add: PAGE_SIZE_def)
  have h: "get_at 0 6 d = leaf_header kvs" using assms by (simp add: leaf_rep_def)
  have "get_at 0 1 d = [0x0D]" "get_at 1 2 d = be_bytes 2 (of_nat (length kvs) :: u16)"
    "get_at 3 2 d = be_bytes 2 (of_nat (PAGE_SIZE - cells_len kvs) :: u16)" "get_at 5 1 d = [0]"
    using get_at_part[OF h, of 0 1] get_at_part[OF h, of 1 2] get_at_part[OF h, of 3 2] get_at_part[OF h, of 5 1]
    by (simp_all add: leaf_header_def get_at_def)
  then show ?thesis using l
    by (simp add: get_node_header_def read_u8_def read_u16_def leaf_hdr_def BTREE_PAGE_TYPE_LEAF_def enc_simps)
qed

lemma leaf_hdr_simps [simp]:
  "is_leaf_page (nh_page_type (leaf_hdr kvs))"
  "leaf_rep d kvs \<Longrightarrow> unat (nh_cell_count (leaf_hdr kvs)) = length kvs"
  "leaf_rep d kvs \<Longrightarrow> unat (nh_content_start (leaf_hdr kvs)) = PAGE_SIZE - cells_len kvs"
proof -
  have "PAGE_SIZE - cells_len kvs < 65536" by (simp add: PAGE_SIZE_def)
  then show "unat (nh_content_start (leaf_hdr kvs)) = PAGE_SIZE - cells_len kvs" by (simp add: leaf_hdr_def unat_u16)
  show "leaf_rep d kvs \<Longrightarrow> unat (nh_cell_count (leaf_hdr kvs)) = length kvs"
    using leaf_count(2)[of d kvs] by (simp add: leaf_hdr_def unat_u16)
qed (simp add: is_leaf_page_def leaf_hdr_def)

lemma leaf_cell:
  assumes r: "leaf_rep d kvs" and i: "i < length kvs"
  shows "get_cell_pointer d i = ret (of_nat (cell_off kvs i))"
    "unat (of_nat (cell_off kvs i) :: u16) = cell_off kvs i"
    "read_u32 d (cell_off kvs i) = ret (of_nat (16 + length (snd (kvs ! i))))"
    "read_u32 d (cell_off kvs i + 4) = ret 8"
    "read_key d (cell_off kvs i + 8) = ret (fst (kvs ! i))"
    "mem_read d (cell_off kvs i + 16) (length (snd (kvs ! i))) = ret (snd (kvs ! i))"
proof -
  note b = cell_off_bounds[OF leaf_count(4)[OF r] i]
  have l: "length d = PAGE_SIZE" by (rule leaf_count[OF r])
  have p: "get_at (10 + 2 * i) 2 d = be_bytes 2 (of_nat (cell_off kvs i) :: u16)"
    and c: "get_at (cell_off kvs i) (length (cell_bytes (kvs ! i))) d = cell_bytes (kvs ! i)"
    using r i by (simp_all add: leaf_rep_def)
  have "10 + i * 2 + 2 \<le> PAGE_SIZE" using leaf_count(4)[OF r] i by (simp add: leaf_used_def)
  then show "get_cell_pointer d i = ret (of_nat (cell_off kvs i))"
    using p l by (simp add: get_cell_pointer_def read_u16_def BTREE_LEAF_HEADER_SIZE_def BTREE_CELL_POINTER_SIZE_def
        mult.commute enc_simps)
  show "unat (of_nat (cell_off kvs i) :: u16) = cell_off kvs i" by (rule unat_u16[OF b(4)])
  have "get_at (cell_off kvs i + 0) 4 d = be_bytes 4 (of_nat (16 + length (snd (kvs ! i))) :: u32)"
    "get_at (cell_off kvs i + 4) 4 d = be_bytes 4 (8 :: u32)"
    "get_at (cell_off kvs i + 8) 8 d = le_bytes 8 (fst (kvs ! i))"
    "get_at (cell_off kvs i + 16) (length (snd (kvs ! i))) d = snd (kvs ! i)"
    using get_at_part[OF c, of 0 4] get_at_part[OF c, of 4 4] get_at_part[OF c, of 8 8]
      get_at_part[OF c, of 16 "length (snd (kvs ! i))"]
    by (simp_all add: cell_bytes_def get_at_def)
  then show "read_u32 d (cell_off kvs i) = ret (of_nat (16 + length (snd (kvs ! i))))"
    "read_u32 d (cell_off kvs i + 4) = ret 8"
    "read_key d (cell_off kvs i + 8) = ret (fst (kvs ! i))"
    "mem_read d (cell_off kvs i + 16) (length (snd (kvs ! i))) = ret (snd (kvs ! i))"
    using b(3) l by (simp_all add: read_u32_def read_key_def enc_simps)
qed

section \<open>Searching a leaf\<close>

lemma leaf_search_absent:
  assumes "leaf_rep d kvs" "i + n = length kvs" "key \<notin> fst ` set (drop i kvs)"
  shows "leaf_search d key n i = ret None"
  using assms(2,3)
proof (induction n arbitrary: i)
  case (Suc n)
  then have i: "i < length kvs" by simp
  then have "key \<noteq> fst (kvs ! i)" "key \<notin> fst ` set (drop (Suc i) kvs)"
    using Suc.prems(2) by (auto simp: Cons_nth_drop_Suc[symmetric])
  with Suc.IH[of "Suc i"] Suc.prems(1) leaf_cell[OF assms(1) i] show ?case by simp
qed simp

lemma leaf_search_present:
  assumes "leaf_rep d kvs" "j < length kvs" "fst (kvs ! j) = key" "\<And>i. i < j \<Longrightarrow> fst (kvs ! i) \<noteq> key"
    and "i + n = length kvs" "i \<le> j"
  shows "leaf_search d key n i = ret (Some j)"
  using assms(5,6)
proof (induction n arbitrary: i)
  case 0
  then show ?case using assms(2) by simp
next
  case (Suc n)
  then have i: "i < length kvs" by simp
  show ?case
  proof (cases "i = j")
    case True
    then show ?thesis using leaf_cell[OF assms(1) i] assms(3) by simp
  next
    case False
    then show ?thesis using leaf_cell[OF assms(1) i] assms(4)[of i] Suc by simp
  qed
qed

section \<open>Inserting into a leaf\<close>

lemma shift_none: "shift_pointers n n d = ret d"
  by (cases n) simp_all

text \<open>The page after an insertion: header, cell pointer and cell have been stored.\<close>

definition leaf_plus :: "entry list \<Rightarrow> entry \<Rightarrow> bytes \<Rightarrow> bytes" where
  "leaf_plus kvs kv d = put_at 0 (leaf_header (kvs @ [kv]))
     (put_at (cell_off (kvs @ [kv]) (length kvs)) (cell_bytes kv)
       (put_at (10 + 2 * length kvs) (be_bytes 2 (of_nat (cell_off (kvs @ [kv]) (length kvs)) :: u16)) d))"

lemma leaf_plus_rep:
  assumes r: "leaf_rep d kvs" and fits: "leaf_used (kvs @ [kv]) \<le> PAGE_SIZE"
  shows "leaf_rep (leaf_plus kvs kv d) (kvs @ [kv])"
proof -
  let ?o = "cell_off (kvs @ [kv]) (length kvs)" and ?n = "length kvs"
  have l: "length d = PAGE_SIZE" by (rule leaf_count[OF r])
  have o: "10 + 2 * Suc ?n \<le> ?o" "?o + length (cell_bytes kv) \<le> PAGE_SIZE"
    using cell_off_bounds(2,3)[OF fits, of ?n] by simp_all
  have "?o + length (cell_bytes kv) = PAGE_SIZE - cells_len kvs"
    using fits by (simp add: cell_off_def leaf_used_def)
  then have below: "?o + length (cell_bytes kv) \<le> cell_off kvs i" if "i < ?n" for i
    using cell_off_bounds(1)[OF leaf_count(4)[OF r] that] by simp
  define d1 where "d1 = put_at (10 + 2 * ?n) (be_bytes 2 (of_nat ?o :: u16)) d"
  define d2 where "d2 = put_at ?o (cell_bytes kv) d1"
  have l1: "length d1 = PAGE_SIZE" using l o by (simp add: d1_def length_put_at)
  have l2: "length d2 = PAGE_SIZE" using l1 o by (simp add: d2_def length_put_at)
  have d': "leaf_plus kvs kv d = put_at 0 (leaf_header (kvs @ [kv])) d2"
    by (simp add: leaf_plus_def d1_def d2_def)
  have away: "get_at x m (leaf_plus kvs kv d) = get_at x m d2" if "6 \<le> x" "x + m \<le> PAGE_SIZE" for x m
    using that l2 by (simp add: d' get_at_put_at_disjoint)
  have "get_at (10 + 2 * i) 2 d2 = be_bytes 2 (of_nat (cell_off (kvs @ [kv]) i) :: u16) \<and>
      get_at (cell_off (kvs @ [kv]) i) (length (cell_bytes ((kvs @ [kv]) ! i))) d2 = cell_bytes ((kvs @ [kv]) ! i)"
    if i: "i < Suc ?n" for i
  proof (cases "i = ?n")
    case True
    have "get_at (10 + 2 * ?n) 2 d2 = get_at (10 + 2 * ?n) 2 d1"
      unfolding d2_def by (rule get_at_put_at_disjoint) (use l1 o in simp_all)
    then show ?thesis using True get_at_put_at_same[of ?o "cell_bytes kv" d1]
        get_at_put_at_same[of "10 + 2 * ?n" "be_bytes 2 (of_nat ?o :: u16)" d] by (simp add: d2_def d1_def)
  next
    case False
    then have i: "i < ?n" using i by simp
    note b = cell_off_bounds[OF leaf_count(4)[OF r] i]
    have "get_at (10 + 2 * i) 2 d2 = get_at (10 + 2 * i) 2 d"
      using i o l l1 by (simp add: d2_def d1_def get_at_put_at_disjoint)
    moreover have "get_at (cell_off kvs i) (length (cell_bytes (kvs ! i))) d2 =
        get_at (cell_off kvs i) (length (cell_bytes (kvs ! i))) d"
      using below[OF i] b(3) l l1 o by (simp add: d2_def d1_def get_at_put_at_disjoint)
    ultimately show ?thesis using r i by (simp add: leaf_rep_def nth_append cell_off_append)
  qed
  moreover have "6 \<le> cell_off (kvs @ [kv]) i \<and> cell_off (kvs @ [kv]) i + length (cell_bytes ((kvs @ [kv]) ! i)) \<le> PAGE_SIZE"
    if "i < Suc ?n" for i using cell_off_bounds(2,3)[OF fits, of i] that by simp
  moreover have "10 + 2 * i + 2 \<le> PAGE_SIZE" if "i < Suc ?n" for i using that fits by (simp add: leaf_used_def)
  moreover have "get_at 0 6 (leaf_plus kvs kv d) = leaf_header (kvs @ [kv])"
    using get_at_put_at_same[of 0 "leaf_header (kvs @ [kv])" d2] by (simp add: d')
  moreover have "length (leaf_plus kvs kv d) = PAGE_SIZE" using l2 by (simp add: d' length_put_at PAGE_SIZE_def)
  ultimately show ?thesis using fits away by (simp add: leaf_rep_def)
qed

lemma put_at_join: "length as = k \<Longrightarrow> put_at (off + k) bs (put_at off as xs) = put_at off (as @ bs) xs"
  using put_at_append[of off as bs xs] by simp

text \<open>The header and the cell are stored piece by piece.\<close>

lemma set_header_eval:
  assumes "length d = PAGE_SIZE"
  shows "set_node_header d header = ret (put_at 0 ([nh_page_type header] @ be_bytes 2 (nh_cell_count header) @
    be_bytes 2 (nh_content_start header) @ [nh_fragmented_bytes header]) d)"
proof -
  let ?a = "[nh_page_type header]" and ?b = "be_bytes 2 (nh_cell_count header)"
  let ?c = "be_bytes 2 (nh_content_start header)" and ?e = "[nh_fragmented_bytes header]"
  have j: "put_at 1 ?b (put_at 0 ?a d) = put_at 0 (?a @ ?b) d"
    "put_at 3 ?c (put_at 0 (?a @ ?b) d) = put_at 0 (?a @ ?b @ ?c) d"
    "put_at 5 ?e (put_at 0 (?a @ ?b @ ?c) d) = put_at 0 (?a @ ?b @ ?c @ ?e) d"
    using put_at_join[of ?a 1 0 ?b d] put_at_join[of "?a @ ?b" 3 0 ?c d] put_at_join[of "?a @ ?b @ ?c" 5 0 ?e d]
    by simp_all
  have l: "length (put_at 0 ?a d) = PAGE_SIZE" "length (put_at 0 (?a @ ?b) d) = PAGE_SIZE"
    "length (put_at 0 (?a @ ?b @ ?c) d) = PAGE_SIZE" and P: "6 \<le> PAGE_SIZE"
    using assms by (simp_all add: length_put_at PAGE_SIZE_def)
  have "write_u8 d 0 (nh_page_type header) = ret (put_at 0 ?a d)"
    "write_u16 (put_at 0 ?a d) 1 (nh_cell_count header) = ret (put_at 0 (?a @ ?b) d)"
    "write_u16 (put_at 0 (?a @ ?b) d) 3 (nh_content_start header) = ret (put_at 0 (?a @ ?b @ ?c) d)"
    "write_u8 (put_at 0 (?a @ ?b @ ?c) d) 5 (nh_fragmented_bytes header) = ret (put_at 0 (?a @ ?b @ ?c @ ?e) d)"
    using assms l P j by (simp_all only: write_u8_def write_u16_def mem_write_def) simp_all
  then show ?thesis by (simp only: set_node_header_def bindc_simps)
qed

lemma write_cell_eval:
  assumes l: "length d = PAGE_SIZE" and v: "length value = unat len" "unat len < 65000" and o: "off + 16 + unat len \<le> PAGE_SIZE"
  shows "bindc (write_u32 d off (8 + len + 8)) (\<lambda>d. bindc (write_u32 d (off + 4) 8) (\<lambda>d.
    bindc (mem_write d (off + 8) (le_bytes 8 key)) (\<lambda>d. bindc (mem_read value 0 (unat len)) (\<lambda>v.
    bindc (mem_write d (off + 16) v) f)))) = f (put_at off (cell_bytes (key, value)) d)"
proof -
  let ?a = "be_bytes 4 (8 + len + 8)" and ?b = "be_bytes 4 (8 :: u32)" and ?c = "le_bytes 8 key"
  have w: "8 + len + 8 = (of_nat (16 + length value) :: u32)" using v(1) by simp
  have j: "put_at (off + 4) ?b (put_at off ?a d) = put_at off (?a @ ?b) d"
    "put_at (off + 8) ?c (put_at off (?a @ ?b) d) = put_at off (?a @ ?b @ ?c) d"
    "put_at (off + 16) value (put_at off (?a @ ?b @ ?c) d) = put_at off (?a @ ?b @ ?c @ value) d"
    using put_at_join[of ?a 4 off ?b d] put_at_join[of "?a @ ?b" 8 off ?c d] put_at_join[of "?a @ ?b @ ?c" 16 off "value" d]
    by simp_all
  have l': "length (put_at off ?a d) = PAGE_SIZE" "length (put_at off (?a @ ?b) d) = PAGE_SIZE"
    "length (put_at off (?a @ ?b @ ?c) d) = PAGE_SIZE"
    using l o by (simp_all add: length_put_at)
  have "mem_read value 0 (unat len) = ret value" using v(1) by (simp add: get_at_def)
  moreover have "write_u32 d off (8 + len + 8) = ret (put_at off ?a d)"
    "write_u32 (put_at off ?a d) (off + 4) 8 = ret (put_at off (?a @ ?b) d)"
    "mem_write (put_at off (?a @ ?b) d) (off + 8) ?c = ret (put_at off (?a @ ?b @ ?c) d)"
    "mem_write (put_at off (?a @ ?b @ ?c) d) (off + 16) value = ret (put_at off (?a @ ?b @ ?c @ value) d)"
    using l l' o v(1) j by (simp_all only: write_u32_def mem_write_def) simp_all
  ultimately show ?thesis by (simp only: bindc_simps cell_bytes_def fst_conv snd_conv w)
qed

lemma set_pointer_eval:
  assumes "length d = PAGE_SIZE" "10 + 2 * i + 2 \<le> PAGE_SIZE"
  shows "set_cell_pointer d i v = ret (put_at (10 + 2 * i) (be_bytes 2 v) d)"
  using assms by (simp add: set_cell_pointer_def write_u16_def BTREE_LEAF_HEADER_SIZE_def
      BTREE_CELL_POINTER_SIZE_def mult.commute)

text \<open>The sizes that the code computes, for values whose cell size does not wrap around.\<close>

lemma cell_sizes:
  fixes len :: u32
  assumes "unat len < 65000"
  shows "unat (ucast (2 + (8 + len + 8)) :: u16) = 18 + unat len" "unat (ucast (8 + len + 8) :: u16) = 16 + unat len"
proof -
  have "2 + (8 + len + 8) = (of_nat (18 + unat len) :: u32)" "8 + len + 8 = (of_nat (16 + unat len) :: u32)"
    by simp_all
  then show "unat (ucast (2 + (8 + len + 8)) :: u16) = 18 + unat len"
    "unat (ucast (8 + len + 8) :: u16) = 16 + unat len"
    using assms by (simp_all only: u16_of_u32) (simp_all only: unat_u16)
qed

lemma insert_cell_eval:
  assumes r: "leaf_rep d kvs" and v: "length value = unat len" "unat len < 65000"
  shows "insert_cell key value len (length kvs) d =
    ret (if leaf_used (kvs @ [(key, value)]) \<le> PAGE_SIZE then Some (leaf_plus kvs (key, value) d) else None)"
proof -
  let ?h = "leaf_hdr kvs" and ?kvs = "kvs @ [(key, value)]"
  have u: "leaf_used ?kvs = leaf_used kvs + 18 + unat len" using v(1) by (simp add: leaf_used_def)
  have cs: "cells_len kvs \<le> PAGE_SIZE" "leaf_used kvs \<le> PAGE_SIZE" using leaf_count[OF r] by simp_all
  have avail: "int (unat (ucast (2 + (8 + len + 8)) :: u16)) >
      int (unat (nh_content_start ?h)) - int (BTREE_LEAF_HEADER_SIZE + length kvs * BTREE_CELL_POINTER_SIZE) \<longleftrightarrow>
      PAGE_SIZE < leaf_used ?kvs"
    using leaf_hdr_simps(3)[OF r] cell_sizes(1)[OF v(2)] cs u v(1)[symmetric]
    by (simp add: BTREE_LEAF_HEADER_SIZE_def BTREE_CELL_POINTER_SIZE_def leaf_used_def of_nat_diff) linarith
  show ?thesis
  proof (cases "leaf_used ?kvs \<le> PAGE_SIZE")
    case False
    then show ?thesis
      by (simp only: insert_cell_def leaf_get_header[OF r] bindc_simps Let_def leaf_hdr_simps(2)[OF r] avail) simp
  next
    case True
    let ?o = "cell_off ?kvs (length kvs)"
    let ?w = "nh_content_start ?h - ucast (8 + len + 8)"
    have o: "?o = PAGE_SIZE - cells_len kvs - (16 + unat len)" using v(1) by (simp add: cell_off_def)
    have fit: "cells_len kvs + 16 + unat len \<le> PAGE_SIZE" using True u by (simp add: leaf_used_def)
    have "(ucast (8 + len + 8) :: u16) \<le> nh_content_start ?h"
      using leaf_hdr_simps(3)[OF r] cell_sizes(2)[OF v(2)] fit by (simp add: word_le_nat_alt)
    then have uw: "unat ?w = ?o"
      using leaf_hdr_simps(3)[OF r] cell_sizes(2)[OF v(2)] by (simp add: unat_sub o)
    then have w: "?w = of_nat ?o" by (metis of_nat_unat_id)
    define d1 where "d1 = put_at (10 + 2 * length kvs) (be_bytes 2 (of_nat ?o :: u16)) d"
    define d2 where "d2 = put_at ?o (cell_bytes (key, value)) d1"
    have p: "10 + 2 * length kvs + 2 \<le> PAGE_SIZE" "?o + 16 + unat len \<le> PAGE_SIZE"
      using True u o fit by (simp_all add: leaf_used_def)
    have l: "length d = PAGE_SIZE" by (rule leaf_count[OF r])
    have l1: "length d1 = PAGE_SIZE" using l p(1) by (simp add: d1_def length_put_at)
    have l2: "length d2 = PAGE_SIZE" using l1 p(2) v(1) by (simp add: d2_def length_put_at)
    let ?h' = "?h\<lparr>nh_cell_count := nh_cell_count ?h + 1, nh_content_start := ?w\<rparr>"
    have h: "[nh_page_type ?h'] @ be_bytes 2 (nh_cell_count ?h') @ be_bytes 2 (nh_content_start ?h') @
        [nh_fragmented_bytes ?h'] = leaf_header ?kvs"
      using w o v(1) by (simp add: leaf_hdr_def leaf_header_def BTREE_PAGE_TYPE_LEAF_def add.commute)
    have "set_node_header d2 ?h' = ret (leaf_plus kvs (key, value) d)"
      using set_header_eval[OF l2, of ?h'] h by (simp add: leaf_plus_def d2_def d1_def)
    moreover have "set_cell_pointer d (length kvs) ?w = ret d1"
      using set_pointer_eval[OF l p(1)] w by (simp add: d1_def)
    moreover note W = write_cell_eval[OF l1 v p(2), of key "\<lambda>d. bindc (set_node_header d ?h') (\<lambda>d. ret (Some d))", folded d2_def]
    ultimately show ?thesis
      using True by (simp only: insert_cell_def leaf_get_header[OF r] bindc_simps Let_def leaf_hdr_simps(2)[OF r] avail
          shift_none uw W linorder_not_less[symmetric] simp_thms if_True if_False)
  qed
qed

end
