(* ===== verification/Cursors.thy ===== *)
theory Cursors
  imports Prelude
begin

text \<open>
  The interface between a store with cursors and the loops that scan it.  A cursor stands in
  front of the entries that are still to come; a valid cursor delivers the first of them and
  moves past it.  The B-tree and the catalog provide it, the catalog and the executor scan
  with it: all their loops have the form of \<open>scan_loop\<close>, which looks at the current entry,
  may stop there, and moves on.
\<close>

partial_function (option) scan_loop ::
    "('cur \<Rightarrow> bool) \<Rightarrow> ('cur \<Rightarrow> 's \<Rightarrow> ('e option \<times> 's) comp) \<Rightarrow> ('cur \<Rightarrow> 's \<Rightarrow> ('cur \<times> 's) comp) \<Rightarrow>
     ('acc \<Rightarrow> 'e option \<Rightarrow> 'acc \<times> bool) \<Rightarrow> 'cur \<Rightarrow> 'acc \<Rightarrow> 's \<Rightarrow> ('acc \<times> 's) comp" where
  "scan_loop valid get nxt body cur acc s =
     (if valid cur then
        bindc (get cur s) (\<lambda>r.
        let b = body acc (fst r) in
        if snd b then ret (fst b, snd r)
        else bindc (nxt cur (snd r)) (\<lambda>n. scan_loop valid get nxt body (fst n) (fst b) (snd n)))
      else ret (acc, s))"

text \<open>What a loop computes from a list of entries.\<close>

fun fold_stop :: "('acc \<Rightarrow> 'e option \<Rightarrow> 'acc \<times> bool) \<Rightarrow> 'acc \<Rightarrow> 'e list \<Rightarrow> 'acc" where
  "fold_stop body acc [] = acc"
| "fold_stop body acc (e # es) =
     (case body acc (Some e) of (acc, stop) \<Rightarrow> if stop then acc else fold_stop body acc es)"

locale cursor =
  fixes at :: "'s \<Rightarrow> 'cur \<Rightarrow> 'e list \<Rightarrow> bool"
    and keeps :: "'s \<Rightarrow> 's \<Rightarrow> bool"
    and valid :: "'cur \<Rightarrow> bool"
    and get :: "'cur \<Rightarrow> 's \<Rightarrow> ('e option \<times> 's) comp"
    and nxt :: "'cur \<Rightarrow> 's \<Rightarrow> ('cur \<times> 's) comp"
  assumes keeps_refl: "keeps s s"
    and keeps_trans: "keeps s t \<Longrightarrow> keeps t u \<Longrightarrow> keeps s u"
    and at_end: "at s cur [] \<Longrightarrow> \<not> valid cur"
    and at_entry: "at s cur (e # es) \<Longrightarrow> valid cur \<and> (\<exists>s'. get cur s = ret (Some e, s') \<and> at s' cur (e # es) \<and> keeps s s')"
    and at_next: "at s cur (e # es) \<Longrightarrow> \<exists>cur' s'. nxt cur s = ret (cur', s') \<and> at s' cur' es \<and> keeps s s'"
begin

lemma scan:
  assumes "at s cur es"
  shows "\<exists>s'. scan_loop valid get nxt body cur acc s = ret (fold_stop body acc es, s') \<and> keeps s s'"
  using assms
proof (induction es arbitrary: s cur acc)
  case Nil
  then show ?case using at_end keeps_refl by (auto simp: scan_loop.simps[of valid get nxt body cur])
next
  case (Cons e es)
  obtain s1 where 1: "valid cur" "get cur s = ret (Some e, s1)" "at s1 cur (e # es)" "keeps s s1"
    using at_entry[OF Cons.prems] by blast
  obtain cur' s2 where 2: "nxt cur s1 = ret (cur', s2)" "at s2 cur' es" "keeps s1 s2"
    using at_next[OF 1(3)] by blast
  obtain acc' stop where b: "body acc (Some e) = (acc', stop)" by (cases "body acc (Some e)")
  obtain s3 where 3: "scan_loop valid get nxt body cur' acc' s2 = ret (fold_stop body acc' es, s3)" "keeps s2 s3"
    using Cons.IH[OF 2(2)] by blast
  have "keeps s s3" using 1(4) 2(3) 3(2) keeps_trans by blast
  with 1 2(1) 3(1) b show ?case
    by (cases stop) (auto simp: scan_loop.simps[of valid get nxt body cur] Let_def)
qed

end

end
