(* ===== verification/Btree_Props.thy ===== *)
theory Btree_Props
  imports Btree_Rep Cursors
begin

text \<open>
  The B-tree as an association list.  \<open>tree_rep t c kvs\<close>: the root page of the tree, as the
  cache shows it, is a leaf with the entries \<open>kvs\<close>.  Since insertion never splits a node, a
  tree never grows beyond its root; the lemmas below show that creating, inserting, searching
  and scanning implement operations on that list, and what happens with long values.
\<close>

definition tree_rep :: "BTree \<Rightarrow> PageCache \<Rightarrow> entry list \<Rightarrow> bool" where
  "tree_rep t c kvs \<longleftrightarrow> bt_alive t \<and> bt_is_open t \<and> cache_ready c \<and> reachable c (bt_root_page t) \<and>
     leaf_rep (cache_view c (bt_root_page t)) kvs"

lemma tree_repD:
  assumes "tree_rep t c kvs"
  shows "bt_alive t" "bt_is_open t" "cache_ready c" "reachable c (bt_root_page t)"
    "leaf_rep (cache_view c (bt_root_page t)) kvs"
  using assms by (simp_all add: tree_rep_def)

lemma tree_rep_keeps:
  assumes "tree_rep t c kvs" "cache_ready c'" "resident c (bt_root_page t)" "cache_keeps c c'"
  shows "tree_rep t c' kvs"
  using assms by (simp add: tree_rep_def reachable_def keeps_pages_def)

section \<open>Searching\<close>

lemma descend_leaf:
  assumes r: "cache_ready c" "reachable c p" and l: "leaf_rep (cache_view c p) kvs"
    and e: "at_leaf (leaf_hdr kvs) (cache_view c p) p depth cur = ret cur'"
  obtains c' where "descend at_leaf child (Suc n) p depth cur c = ret (Some cur', c')" "cache_ready c'"
    "resident c' p" "cache_view c' p = cache_view c p" "cache_keeps c c'"
proof -
  obtain a c1 c2 where "page_pin p c = ret (Some a, c1)" "page_data a c1 = ret (cache_view c p)"
    "page_unpin (Some a) c1 = ret c2" "cache_ready c2" "resident c2 p" "cache_view c2 p = cache_view c p" "cache_keeps c c2"
    by (rule access_page[OF r])
  with leaf_get_header[OF l] e show thesis by (intro that[of c2]) simp_all
qed

text \<open>The cursor that a search returns: on the first entry with the key, or behind the last entry.\<close>

definition cursor_at :: "BTree \<Rightarrow> bool \<Rightarrow> nat \<Rightarrow> nat \<Rightarrow> bool \<Rightarrow> BTreeCursor" where
  "cursor_at t forward top_cell cell at_end =
     (cursor_new t forward)\<lparr>cu_page := bt_root_page t, cu_cell := cell, cu_is_end := at_end, cu_depth := 1,
        cu_stack := (replicate BTREE_MAX_DEPTH (0, 0))[0 := (bt_root_page t, top_cell)]\<rparr>"

fun key_index :: "entry list \<Rightarrow> u64 \<Rightarrow> nat" where
  "key_index [] key = 0"
| "key_index (kv # kvs) key = (if fst kv = key then 0 else Suc (key_index kvs key))"

lemma key_index_first:
  assumes "key \<in> fst ` set kvs"
  shows "key_index kvs key < length kvs" "kvs ! key_index kvs key = (key, the (map_of kvs key))"
    "i < key_index kvs key \<Longrightarrow> fst (kvs ! i) \<noteq> key"
proof -
  show "key_index kvs key < length kvs" "kvs ! key_index kvs key = (key, the (map_of kvs key))"
    using assms by (induction kvs) auto
  show "i < key_index kvs key \<Longrightarrow> fst (kvs ! i) \<noteq> key"
  proof (induction kvs arbitrary: i)
    case (Cons kv kvs)
    then show ?case by (cases i) (auto split: if_splits)
  qed simp
qed

lemma key_index_absent: "key \<notin> fst ` set kvs \<Longrightarrow> key_index kvs key = length kvs"
  by (induction kvs) auto

lemma find_leaf_eval:
  assumes l: "leaf_rep d kvs"
  shows "find_leaf key (leaf_hdr kvs) d (bt_root_page t) 0 (cursor_new t True) =
    ret (cursor_at t True 0 (key_index kvs key) (key \<notin> fst ` set kvs))"
proof (cases "key \<in> fst ` set kvs")
  case True
  note k = key_index_first[OF True]
  have "leaf_search d key (length kvs) 0 = ret (Some (key_index kvs key))"
    by (rule leaf_search_present[OF l k(1)]) (use k(2,3) in simp_all)
  with True show ?thesis
    by (simp add: find_leaf_def leaf_hdr_simps(2)[OF l] cursor_at_def cursor_new_def)
next
  case False
  have "leaf_search d key (length kvs) 0 = ret None"
    by (rule leaf_search_absent[OF l]) (use False in simp_all)
  with False show ?thesis
    by (simp add: find_leaf_def leaf_hdr_simps(2)[OF l] cursor_at_def cursor_new_def key_index_absent)
qed

lemma BTREE_MAX_DEPTH_Suc: "BTREE_MAX_DEPTH = Suc 15"
  by (simp add: BTREE_MAX_DEPTH_def)

lemma find_eval:
  assumes t: "tree_rep t c kvs"
  obtains c' where "btree_find t key c = ret (Some (cursor_at t True 0 (key_index kvs key) (key \<notin> fst ` set kvs)), c')"
    "tree_rep t c' kvs" "resident c' (bt_root_page t)" "cache_view c' (bt_root_page t) = cache_view c (bt_root_page t)"
    "cache_keeps c c'"
proof -
  note T = tree_repD[OF t]
  obtain c' where "descend (find_leaf key) (find_child key) (Suc 15) (bt_root_page t) 0 (cursor_new t True) c =
      ret (Some (cursor_at t True 0 (key_index kvs key) (key \<notin> fst ` set kvs)), c')" "cache_ready c'"
    "resident c' (bt_root_page t)" "cache_view c' (bt_root_page t) = cache_view c (bt_root_page t)" "cache_keeps c c'"
    by (rule descend_leaf[where at_leaf = "find_leaf key", OF T(3-5) find_leaf_eval[OF T(5)]])
  with T show thesis by (intro that[of c']) (simp_all add: btree_find_def BTREE_MAX_DEPTH_Suc tree_rep_def reachable_def)
qed

lemma first_eval:
  assumes t: "tree_rep t c kvs"
  obtains c' where "btree_first t c = ret (Some (cursor_at t True 0 0 (kvs = [])), c')"
    "tree_rep t c' kvs" "resident c' (bt_root_page t)" "cache_keeps c c'"
proof -
  note T = tree_repD[OF t]
  have "nh_cell_count (leaf_hdr kvs) = 0 \<longleftrightarrow> kvs = []"
    using leaf_hdr_simps(2)[OF T(5)] by (metis length_0_conv unat_0 unat_eq_zero)
  then have e: "first_leaf (leaf_hdr kvs) (cache_view c (bt_root_page t)) (bt_root_page t) 0 (cursor_new t True) =
      ret (cursor_at t True 0 0 (kvs = []))"
    by (simp add: first_leaf_def cursor_at_def cursor_new_def)
  obtain c' where "descend first_leaf first_child (Suc 15) (bt_root_page t) 0 (cursor_new t True) c =
      ret (Some (cursor_at t True 0 0 (kvs = [])), c')" "cache_ready c'"
    "resident c' (bt_root_page t)" "cache_view c' (bt_root_page t) = cache_view c (bt_root_page t)" "cache_keeps c c'"
    by (rule descend_leaf[where at_leaf = first_leaf, OF T(3-5) e])
  with T show thesis by (intro that[of c']) (simp_all add: btree_first_def BTREE_MAX_DEPTH_Suc tree_rep_def reachable_def)
qed

section \<open>Reading and moving\<close>

lemma get_eval:
  assumes c: "cache_ready c" "reachable c p" and l: "leaf_rep (cache_view c p) kvs"
    and cur: "\<not> cu_is_end cur" "bt_alive (cu_tree cur)" "cu_page cur = p" "cu_cell cur < length kvs"
    and cap: "length (snd (kvs ! cu_cell cur)) \<le> cap"
  obtains c' where "btree_get cap cur c = ret (Some (kvs ! cu_cell cur), c')" "cache_ready c'" "resident c' p"
    "cache_view c' p = cache_view c p" "cache_keeps c c'"
proof -
  obtain a c1 c2 where p: "page_pin p c = ret (Some a, c1)" "page_data a c1 = ret (cache_view c p)"
    "page_unpin (Some a) c1 = ret c2" and c2: "cache_ready c2" "resident c2 p" "cache_view c2 p = cache_view c p" "cache_keeps c c2"
    by (rule access_page[OF c])
  note k = leaf_cell[OF l cur(4)]
  let ?v = "snd (kvs ! cu_cell cur)"
  have "length ?v < 4294967280"
    using cell_off_bounds(3)[OF leaf_count(4)[OF l] cur(4)] by (simp add: PAGE_SIZE_def)
  then have len: "unat ((of_nat (16 + length ?v) :: u32) - 8 - 8) = length ?v"
    by (simp add: unat_u32)
  have k6: "mem_read (cache_view c p) (16 + cell_off kvs (cu_cell cur)) (length ?v) = ret ?v"
    using k(6) by (simp add: add.commute)
  have "btree_get cap cur c = ret (Some (fst (kvs ! cu_cell cur), ?v), c2)"
    using cur(1,2,3) cur(4) p leaf_get_header[OF l] k(1-5) k6 len cap leaf_hdr_simps(2)[OF l]
    by (simp add: btree_get_def Let_def del: of_nat_add)
  then show thesis using that[of c2] c2 by simp
qed

lemma next_eval:
  assumes c: "cache_ready c" "reachable c p" and l: "leaf_rep (cache_view c p) kvs"
    and cur: "\<not> cu_is_end cur" "bt_alive (cu_tree cur)" "cu_page cur = p" "cu_cell cur < length kvs"
  obtains c' where "btree_cursor_next cur c =
      ret (cur\<lparr>cu_cell := Suc (cu_cell cur), cu_is_end := (length kvs \<le> Suc (cu_cell cur))\<rparr>, c')" "cache_ready c'"
    "resident c' p" "cache_view c' p = cache_view c p" "cache_keeps c c'"
proof -
  obtain a c1 c2 where p: "page_pin p c = ret (Some a, c1)" "page_data a c1 = ret (cache_view c p)"
    "page_unpin (Some a) c1 = ret c2" and c2: "cache_ready c2" "resident c2 p" "cache_view c2 p = cache_view c p" "cache_keeps c c2"
    by (rule access_page[OF c])
  have "btree_cursor_next cur c =
      ret (cur\<lparr>cu_cell := Suc (cu_cell cur), cu_is_end := (length kvs \<le> Suc (cu_cell cur))\<rparr>, c2)"
    using cur p leaf_get_header[OF l] leaf_hdr_simps(2)[OF l]
    by (cases cur) (auto simp: btree_cursor_next_def Let_def)
  then show thesis using that[of c2] c2 by simp
qed

text \<open>
  A cursor into a leaf with the entries that are still to come, each of which fits the buffer of
  the caller.
\<close>

definition tree_cursor_at :: "nat \<Rightarrow> PageCache \<Rightarrow> BTreeCursor \<Rightarrow> entry list \<Rightarrow> bool" where
  "tree_cursor_at cap c cur es \<longleftrightarrow> cache_ready c \<and> bt_alive (cu_tree cur) \<and> resident c (cu_page cur) \<and>
     (\<exists>kvs. leaf_rep (cache_view c (cu_page cur)) kvs \<and> cu_cell cur \<le> length kvs \<and> es = drop (cu_cell cur) kvs) \<and>
     (cu_is_end cur \<longleftrightarrow> es = []) \<and> (\<forall>e \<in> set es. length (snd e) \<le> cap)"

definition cache_step :: "PageCache \<Rightarrow> PageCache \<Rightarrow> bool" where
  "cache_step c c' \<longleftrightarrow> (cache_ready c \<longrightarrow> cache_ready c') \<and> cache_keeps c c'"

lemma drop_eq_Cons: "drop n xs = y # ys \<Longrightarrow> n < length xs \<and> xs ! n = y \<and> drop (Suc n) xs = ys"
  by (metis Cons_nth_drop_Suc drop_all list.discI list.inject linorder_not_le)

interpretation tree: cursor "tree_cursor_at cap" cache_step btree_cursor_valid "btree_get cap" btree_cursor_next for cap
proof (unfold_locales, goal_cases)
  case (1 c)
  then show ?case by (simp add: cache_step_def)
next
  case (2 c d e)
  then show ?case using keeps_pages_trans by (auto simp: cache_step_def)
next
  case (3 c cur)
  then show ?case by (simp add: tree_cursor_at_def btree_cursor_valid_def)
next
  case (4 c cur e es)
  then obtain kvs where k: "leaf_rep (cache_view c (cu_page cur)) kvs" "drop (cu_cell cur) kvs = e # es"
    by (auto simp: tree_cursor_at_def)
  have n: "cu_cell cur < length kvs" "kvs ! cu_cell cur = e" using drop_eq_Cons[OF k(2)] by simp_all
  have h: "cache_ready c" "reachable c (cu_page cur)" "\<not> cu_is_end cur" "bt_alive (cu_tree cur)"
    "length (snd (kvs ! cu_cell cur)) \<le> cap"
    using 4 n(2) by (simp_all add: tree_cursor_at_def reachable_def)
  obtain c' where c': "btree_get cap cur c = ret (Some (kvs ! cu_cell cur), c')" "cache_ready c'" "resident c' (cu_page cur)"
    "cache_view c' (cu_page cur) = cache_view c (cu_page cur)" "cache_keeps c c'"
    by (rule get_eval[OF h(1,2) k(1) h(3,4) refl n(1) h(5)])
  then show ?case using 4 n(2) by (auto simp: tree_cursor_at_def btree_cursor_valid_def cache_step_def)
next
  case (5 c cur e es)
  then obtain kvs where k: "leaf_rep (cache_view c (cu_page cur)) kvs" "drop (cu_cell cur) kvs = e # es"
    by (auto simp: tree_cursor_at_def)
  have n: "cu_cell cur < length kvs" "drop (Suc (cu_cell cur)) kvs = es" using drop_eq_Cons[OF k(2)] by simp_all
  have h: "cache_ready c" "reachable c (cu_page cur)" "\<not> cu_is_end cur" "bt_alive (cu_tree cur)"
    using 5 by (simp_all add: tree_cursor_at_def reachable_def)
  let ?cur = "cur\<lparr>cu_cell := Suc (cu_cell cur), cu_is_end := (length kvs \<le> Suc (cu_cell cur))\<rparr>"
  obtain c' where c': "btree_cursor_next cur c = ret (?cur, c')" "cache_ready c'"
    "resident c' (cu_page cur)" "cache_view c' (cu_page cur) = cache_view c (cu_page cur)" "cache_keeps c c'"
    by (rule next_eval[OF h(1,2) k(1) h(3,4) refl n(1)])
  have "tree_cursor_at cap c' ?cur es"
    using 5 c' k(1) n by (auto simp: tree_cursor_at_def)
  with c' show ?case by (auto simp: cache_step_def)
qed

lemma first_cursor:
  assumes t: "tree_rep t c kvs" and cap: "\<forall>e \<in> set kvs. length (snd e) \<le> cap"
  obtains cur c' where "btree_first t c = ret (Some cur, c')" "tree_cursor_at cap c' cur kvs" "tree_rep t c' kvs"
    "resident c' (bt_root_page t)" "cache_keeps c c'"
proof -
  obtain c' where c': "btree_first t c = ret (Some (cursor_at t True 0 0 (kvs = [])), c')"
    "tree_rep t c' kvs" "resident c' (bt_root_page t)" "cache_keeps c c'"
    by (rule first_eval[OF t])
  have "tree_cursor_at cap c' (cursor_at t True 0 0 (kvs = [])) kvs"
    using tree_repD[OF c'(2)] c'(3) cap
    by (auto simp: tree_cursor_at_def cursor_at_def cursor_new_def)
  then show thesis by (rule that[OF c'(1) _ c'(2-4)])
qed

section \<open>Insertion\<close>

text \<open>Insertion on the list of entries: nothing for a key that is there, \<open>None\<close> when the page is full.\<close>

definition insert_spec :: "u64 \<Rightarrow> bytes \<Rightarrow> entry list \<Rightarrow> entry list option" where
  "insert_spec key value kvs =
     (if key \<in> fst ` set kvs then Some kvs
      else if leaf_used (kvs @ [(key, value)]) \<le> PAGE_SIZE then Some (kvs @ [(key, value)])
      else None)"

definition others_kept :: "BTree \<Rightarrow> PageCache \<Rightarrow> PageCache \<Rightarrow> bool" where
  "others_kept t c c' \<longleftrightarrow>
     (\<forall>p. p \<noteq> bt_root_page t \<longrightarrow> resident c p \<longrightarrow> resident c' p \<and> cache_view c' p = cache_view c p) \<and>
     (coherent c \<longrightarrow> coherent c')"

lemma keeps_others: "cache_keeps c c' \<Longrightarrow> others_kept t c c'"
  by (simp add: others_kept_def keeps_pages_def coherent_def)

lemma others_kept_trans: "others_kept t c d \<Longrightarrow> others_kept t d e \<Longrightarrow> others_kept t c e"
  by (simp add: others_kept_def)

lemma insert_eval:
  assumes t: "tree_rep t c kvs" and v: "length value = unat len" "unat len < 65000"
  obtains c' where "btree_insert t key value len c = ret (insert_spec key value kvs \<noteq> None, c')"
    "tree_rep t c' (case insert_spec key value kvs of Some kvs' \<Rightarrow> kvs' | None \<Rightarrow> kvs)"
    "resident c' (bt_root_page t)" "others_kept t c c'"
proof -
  let ?p = "bt_root_page t" and ?new = "key \<notin> fst ` set kvs"
  define cur where "cur = cursor_at t True 0 (key_index kvs key) ?new"
  obtain c1 where 1: "btree_find t key c = ret (Some cur, c1)" "tree_rep t c1 kvs" "resident c1 ?p"
    "cache_view c1 ?p = cache_view c ?p" "cache_keeps c c1" unfolding cur_def by (rule find_eval[OF t])
  note T = tree_repD[OF 1(2)]
  have cur: "cu_is_end cur = ?new" "cu_page cur = ?p" "?new \<Longrightarrow> cu_cell cur = length kvs"
    using key_index_absent[of key kvs] by (simp_all add: cursor_at_def cur_def)
  obtain a c2 c3 where 2: "page_pin ?p c1 = ret (Some a, c2)" "page_data a c2 = ret (cache_view c1 ?p)"
    "page_unpin (Some a) c2 = ret c3" "cache_ready c3" "resident c3 ?p" "cache_view c3 ?p = cache_view c1 ?p" "cache_keeps c1 c3"
    by (rule access_page[OF T(3,4)])
  have rep3: "tree_rep t c3 kvs" by (rule tree_rep_keeps[OF 1(2) 2(4) 1(3) 2(7)])
  have ok3: "others_kept t c c3" using keeps_others[OF keeps_pages_trans[OF 1(5) 2(7)]] .
  show thesis
  proof (cases "insert_spec key value kvs = Some (kvs @ [(key, value)])")
    case False
    have "btree_insert t key value len c = ret (insert_spec key value kvs \<noteq> None, c3)"
    proof (cases ?new)
      case True
      with False have full: "\<not> leaf_used (kvs @ [(key, value)]) \<le> PAGE_SIZE" by (simp add: insert_spec_def split: if_splits)
      with True T(1,2) 1(1) 2(1-3) insert_cell_eval[OF T(5) v, of key] cur show ?thesis
        by (simp add: btree_insert_def insert_spec_def)
    qed (use T(1,2) 1(1) 2(1-3) cur in \<open>simp add: btree_insert_def insert_spec_def\<close>)
    moreover have "insert_spec key value kvs = Some kvs \<or> insert_spec key value kvs = None"
      using False by (cases ?new; cases "leaf_used (kvs @ [(key, value)]) \<le> PAGE_SIZE") (simp_all add: insert_spec_def)
    ultimately show thesis using that[of c3] rep3 2(5) ok3 by auto
  next
    case True
    then have k: "key \<notin> fst ` set kvs" "leaf_used (kvs @ [(key, value)]) \<le> PAGE_SIZE"
      by (auto simp: insert_spec_def split: if_splits)
    let ?d = "leaf_plus kvs (key, value) (cache_view c1 ?p)"
    have d: "leaf_rep ?d (kvs @ [(key, value)])" by (rule leaf_plus_rep[OF T(5) k(2)])
    obtain b s1 s2 s3 s4 where w: "page_pin ?p c1 = ret (Some b, s1)" "page_data b s1 = ret (cache_view c1 ?p)"
      "set_page_data b ?d s1 = ret s2" "page_mark_dirty (Some b) s2 = ret s3" "page_unpin (Some b) s3 = ret s4" "cache_ready s4"
      "\<forall>q. resident c1 q \<longrightarrow> resident s4 q \<and> cache_view s4 q = ((cache_view c1)(?p := ?d)) q"
      "\<forall>q. insync c1 q \<longrightarrow> insync s4 q"
      by (rule frames.write_access[OF T(3) 1(3) leaf_count(1)[OF d]])
    have "btree_insert t key value len c = ret (True, s4)"
      using T(1,2) 1(1) w(1-5) insert_cell_eval[OF T(5) v, of key] cur k
      by (simp add: btree_insert_def)
    moreover have "tree_rep t s4 (kvs @ [(key, value)])" "resident s4 ?p"
      using T(1,2) w(6,7) 1(3) d by (simp_all add: tree_rep_def reachable_def)
    moreover have "others_kept t c1 s4" using w(7,8) by (auto simp: others_kept_def coherent_def)
    ultimately show thesis using that[of s4] True others_kept_trans[OF keeps_others[OF 1(5)]] by simp
  qed
qed

section \<open>Creation\<close>

lemma empty_leaf:
  "set_node_header (replicate PAGE_SIZE 0) (leaf_hdr []) = ret (put_at 0 (leaf_header []) (replicate PAGE_SIZE 0))"
  "leaf_rep (put_at 0 (leaf_header []) (replicate PAGE_SIZE 0)) []"
proof -
  show "set_node_header (replicate PAGE_SIZE 0) (leaf_hdr []) = ret (put_at 0 (leaf_header []) (replicate PAGE_SIZE 0))"
    using set_header_eval[of "replicate PAGE_SIZE 0" "leaf_hdr []"]
    by (simp add: leaf_hdr_def leaf_header_def BTREE_PAGE_TYPE_LEAF_def)
  have "length (put_at 0 (leaf_header []) (replicate PAGE_SIZE 0)) = PAGE_SIZE"
    by (simp add: length_put_at PAGE_SIZE_def)
  then show "leaf_rep (put_at 0 (leaf_header []) (replicate PAGE_SIZE 0)) []"
    using get_at_put_at_same[of 0 "leaf_header []" "replicate PAGE_SIZE 0"]
    by (simp add: leaf_rep_def leaf_used_def) (simp add: PAGE_SIZE_def)
qed

text \<open>What creation needs: a pager without free pages that can grow, and room for one more page.\<close>

definition can_create :: "PageCache \<Rightarrow> bool" where
  "can_create c \<longleftrightarrow> cache_ready c \<and> \<not> resident c 0 \<and> pc_count c < pc_max_pages c \<and>
     (\<exists>pg. pc_pager c = Some pg \<and> pager_inv pg [] \<and> p_page_count pg + 1 \<noteq> 0)"

lemma pager_inv_grown:
  assumes "pager_inv pg []" "0 < p" "p < p_page_count pg"
  shows "pager_valid pg p"
  using pager_inv_valid[OF assms(1), of p] assms(2,3) by (simp add: live_pages_def)

lemma allocate_root:
  assumes c: "cache_ready c" "\<not> resident c 0" "pc_count c < pc_max_pages c" "pc_pager c = Some pg" "pager_inv pg []"
    "p_page_count pg + 1 \<noteq> 0"
  obtains n pg' where "pager_allocate_page pg = (Some n, pg')" "\<not> resident c n" "n = p_page_count pg"
    "cache_ready (c\<lparr>pc_pager := Some pg'\<rparr>)" "reachable (c\<lparr>pc_pager := Some pg'\<rparr>) n"
    "cache_keeps c (c\<lparr>pc_pager := Some pg'\<rparr>)" "pager_inv pg' []"
proof -
  let ?n = "p_page_count pg"
  obtain pg' where a: "pager_allocate_page pg = (Some ?n, pg')" "pager_inv pg' []" "p_page_count pg' = ?n + 1"
    "\<And>q. 0 < q \<Longrightarrow> q < ?n \<Longrightarrow> pager_page pg' q = pager_page pg q"
    by (rule pager_allocate_grow[OF c(5,6)]) blast
  let ?c = "c\<lparr>pc_pager := Some pg'\<rparr>"
  have n: "0 < ?n" "?n < ?n + 1" using c(5) unat_Suc_word[OF c(6)] by (simp_all add: pager_inv_def word_less_nat_alt)
  have res: "0 < q \<and> q < ?n" if "resident c q" for q
    using that c(1,2,4) by (cases "q = 0") (auto simp: cache_ready_def pager_valid_def pager_is_valid_page_def word_gt_0)
  have same: "resident ?c = resident c" by (simp add: resident_def cached_def fun_eq_iff)
  have "like_core c ?c" by (simp add: like_core_def)
  then have "cache_wf ?c"
    by (rule cache_wf_cong[OF cache_ready_wf[OF c(1)]]) (use c(1) in \<open>simp add: cache_ready_def cache_wf_def lru_ok_def\<close>)
  moreover have "pager_valid pg' q" if "0 < q" "q < ?n + 1" for q
    by (rule pager_inv_grown[OF a(2) that(1)]) (simp add: a(3) that(2))
  moreover have "q < ?n + 1" if "q < ?n" for q using that n(2) by simp
  ultimately have "cache_ready ?c" "reachable ?c ?n"
    using pager_inv_ready[OF a(2)] res n c(3) by (auto simp: cache_ready_def same reachable_def)
  moreover have v: "vis ?c = vis c" by (rule vis_heap) simp
  have "insync ?c q" if "insync c q" for q
    using that res[of q] a(4)[of q] c(4) v by (auto simp: insync_def resident_def cached_vis)
  moreover have "cache_view ?c q = cache_view c q" if "resident c q" for q
  proof -
    obtain a d x where "vis c a = Some (d, q, x)" using \<open>resident c q\<close> by (auto simp: resident_def cached_vis)
    then show ?thesis
      using v view_vis[OF cache_ready_wf[OF c(1)]] view_vis[OF \<open>cache_wf ?c\<close>] by metis
  qed
  ultimately show thesis using that[of ?n pg'] a(1,2) res[of ?n] by (auto simp: keeps_pages_def same)
qed

lemma create_eval:
  assumes "can_create c"
  obtains n c' where "btree_create c = ret (Some (btree_open n), c')" "tree_rep (btree_open n) c' []"
    "resident c' n" "\<not> resident c n" "others_kept (btree_open n) c c'"
proof -
  obtain pg where c: "cache_ready c" "\<not> resident c 0" "pc_count c < pc_max_pages c" "pc_pager c = Some pg" "pager_inv pg []"
    "p_page_count pg + 1 \<noteq> 0" using assms by (auto simp: can_create_def)
  obtain n pg' where a: "pager_allocate_page pg = (Some n, pg')" "\<not> resident c n"
    "cache_ready (c\<lparr>pc_pager := Some pg'\<rparr>)" "reachable (c\<lparr>pc_pager := Some pg'\<rparr>) n"
    "cache_keeps c (c\<lparr>pc_pager := Some pg'\<rparr>)" by (rule allocate_root[OF c])
  obtain b c2 where 2: "page_pin n (c\<lparr>pc_pager := Some pg'\<rparr>) = ret (Some b, c2)" "cached c2 b n"
    "cache_ready c2" "cache_keeps (c\<lparr>pc_pager := Some pg'\<rparr>) c2"
    by (rule get_delivers[OF a(3,4)])
  have ld: "page_data b c2 = ret (cache_view c2 n)" and rs: "resident c2 n" using frames.load_law[OF 2(3,2)] by simp_all
  have len: "length (cache_view c2 n) = PAGE_SIZE" by (rule frames.view_len[OF 2(3) rs])
  let ?z = "replicate PAGE_SIZE (0 :: byte)"
  let ?d = "put_at 0 (leaf_header []) ?z"
  have z: "mem_write (cache_view c2 n) 0 ?z = ret ?z" using len by (simp add: put_at_def)
  have h: "bindc (write_u8 ?z 0 BTREE_PAGE_TYPE_LEAF) (\<lambda>d. bindc (write_u16 d 1 0) (\<lambda>d.
      bindc (write_u16 d 3 (of_nat PAGE_SIZE)) (\<lambda>d. bindc (write_u8 d 5 0) f))) = f ?d" for f
    using arg_cong[OF empty_leaf(1), of "\<lambda>m. bindc m f"]
    by (simp add: set_node_header_def leaf_hdr_def bindc_assoc)
  have "length ?d = PAGE_SIZE" using leaf_count(1)[OF empty_leaf(2)] .
  from frames.store_law[OF 2(3,2) this] obtain c3 where 3: "set_page_data b ?d c2 = ret c3" "cache_ready c3" "cached c3 b n"
    "\<forall>q. resident c2 q \<longrightarrow> resident c3 q \<and> cache_view c3 q = ((cache_view c2)(n := ?d)) q"
    "\<forall>q. q \<noteq> n \<longrightarrow> insync c2 q \<longrightarrow> insync c3 q" by blast
  obtain c4 where 4: "page_mark_dirty (Some b) c3 = ret c4" "cache_ready c4" "cached c4 b n" "insync c4 n" "cache_keeps c3 c4"
    using frames.mark_law[OF 3(2,3)] by blast
  obtain c5 where 5: "page_unpin (Some b) c4 = ret c5" "cache_ready c5" "cache_keeps c4 c5"
    using frames.unpin_law[OF 4(2,3)] by blast
  have "btree_create c = ret (Some (btree_open n), c5)"
    using c(4) a(1) 2(1) ld z 3(1) 4(1) 5(1) h[of "\<lambda>d. bindc (set_page_data b d c2) (\<lambda>c. bindc (page_mark_dirty (Some b) c)
      (\<lambda>c. bindc (page_unpin (Some b) c) (\<lambda>c. ret (Some (btree_open n), c))))"]
    by (simp add: btree_create_def)
  moreover have "tree_rep (btree_open n) c5 []" "resident c5 n"
    using 3(4) 4(5) 5(2,3) rs empty_leaf(2) by (simp_all add: tree_rep_def btree_open_def reachable_def keeps_pages_def)
  moreover have "insync c5 q" if "insync c2 q" for q
    using that 3(5) 4(4,5) 5(3) by (cases "q = n") (simp_all add: keeps_pages_def)
  then have "others_kept (btree_open n) c2 c5"
    using 3(4) 4(5) 5(3) by (auto simp: others_kept_def btree_open_def keeps_pages_def coherent_def)
  then have "others_kept (btree_open n) c c5"
    using others_kept_trans keeps_others[OF keeps_pages_trans[OF a(5) 2(4)]] by blast
  ultimately show thesis using that a(2) by blast
qed

text \<open>Creating a tree adds one page to the file and one to the cache, so that the next tree can be created.\<close>

lemma page_upd_resident:
  assumes "page_upd a f c = ret c'" "\<And>g. pg_id (f g) = pg_id g"
  shows "resident c' = resident c"
proof -
  have "cached c' b q = cached c b q" for b q
    using assms by (cases "b = a") (auto simp: page_upd_def cached_def split: option.splits)
  then show ?thesis by (simp add: resident_def fun_eq_iff)
qed

lemma create_disk:
  assumes "can_create c" "btree_create c = ret (Some t, c')" "pc_pager c = Some pg"
  obtains pg' where "pc_pager c' = Some pg'" "pager_inv pg' []" "p_page_count pg' = p_page_count pg + 1"
    "pc_count c' = pc_count c + 1" "pc_max_pages c' = pc_max_pages c" "\<not> resident c' 0"
proof -
  have c: "cache_ready c" "\<not> resident c 0" "pc_count c < pc_max_pages c" "pager_inv pg []" "p_page_count pg + 1 \<noteq> 0"
    using assms(1,3) by (auto simp: can_create_def)
  obtain n pg1 where a: "pager_allocate_page pg = (Some n, pg1)" "\<not> resident c n" "n = p_page_count pg"
    "cache_ready (c\<lparr>pc_pager := Some pg1\<rparr>)" "pager_inv pg1 []"
    by (rule allocate_root[OF c(1-3) assms(3) c(4,5)])
  have cnt: "p_page_count pg1 = n + 1"
    using a(1,3) pager_allocate_grow[OF c(4,5)] by (metis prod.inject)
  let ?c = "c\<lparr>pc_pager := Some pg1\<rparr>"
  have n: "0 < n" "n < n + 1"
    using c(4,5) unat_Suc_word[OF c(5)] a(3) by (simp_all add: pager_inv_def word_less_nat_alt)
  have live: "n \<in> live_pages pg1 []" using n cnt by (simp add: live_pages_def)
  have miss: "\<not> cached ?c b n" for b using a(2) by (auto simp: resident_def cached_def)
  obtain b c2 pg2 where 2: "page_pin n ?c = ret (Some b, c2)"
    "vis c2 = (vis ?c)(b \<mapsto> (pager_page pg1 n, n, False))" "pc_count c2 = pc_count c + 1" "pc_max_pages c2 = pc_max_pages c"
    "pc_pager c2 = Some pg2" "snd (pager_read_page n pg1) = pg2"
    by (rule get_miss[OF cache_ready_wf[OF a(4)] miss _ _ pager_inv_ready[OF a(5)] pager_inv_valid[OF a(5) live]])
      (use c(3) in \<open>simp_all add: page_pin_def\<close>)
  have pg2: "pager_inv pg2 []" "p_page_count pg2 = n + 1"
    using 2(6) cnt by (auto intro: pager_read_live[OF a(5) live])
  have "resident c2 q \<Longrightarrow> q = n \<or> resident c q" for q
    using 2(2) by (auto simp: resident_def cached_vis vis_def split: if_splits)
  then have r2: "\<not> resident c2 0" using c(2) n(1) by auto
  obtain d c3 c4 where "set_page_data b d c2 = ret c3" "page_mark_dirty (Some b) c3 = ret c4" "page_unpin (Some b) c4 = ret c'"
    using assms(2,3) a(1) 2(1) by (auto simp: btree_create_def bindc_eq_ret)
  then have u: "page_upd b (\<lambda>p. p\<lparr>pg_data := d\<rparr>) c2 = ret c3" "page_upd b (\<lambda>p. p\<lparr>pg_is_dirty := True\<rparr>) c3 = ret c4"
    "page_upd b (\<lambda>p. if pg_refcount p > 0 then p\<lparr>pg_refcount := pg_refcount p - 1\<rparr> else p) c4 = ret c'"
    by (simp_all add: set_page_data_def page_mark_dirty_def page_unpin_def upd_if_def)
  have "outer c' = outer c2" using page_upd_outer[OF u(1)] page_upd_outer[OF u(2)] page_upd_outer[OF u(3)] by simp
  moreover have "resident c' = resident c2"
    using page_upd_resident[OF u(1)] page_upd_resident[OF u(2)] page_upd_resident[OF u(3)] by simp
  ultimately show thesis using that[of pg2] 2(3-5) pg2 r2 a(3) by (simp add: outer_def)
qed

lemma create_again:
  assumes "can_create c" "btree_create c = ret (Some t, c')" "cache_ready c'" "pc_count c + 1 < pc_max_pages c"
    "pc_pager c = Some pg" "p_page_count pg + 2 \<noteq> 0"
  shows "can_create c'"
proof -
  obtain pg' where "pc_pager c' = Some pg'" "pager_inv pg' []" "p_page_count pg' = p_page_count pg + 1"
    "pc_count c' = pc_count c + 1" "pc_max_pages c' = pc_max_pages c" "\<not> resident c' 0"
    by (rule create_disk[OF assms(1,2,5)])
  with assms(3,4,6) show ?thesis by (simp add: can_create_def add.assoc)
qed

section \<open>Long values\<close>

lemma undef_bind:
  assumes "m = undef \<or> (\<exists>x. m = ret x \<and> P x)" "\<And>x. P x \<Longrightarrow> f x = undef"
  shows "bindc m f = undef"
  using assms by auto

text \<open>A write stays within the page or is undefined.\<close>

lemma write_cases:
  assumes "length d = PAGE_SIZE"
  shows "mem_write d off bs = undef \<or> (\<exists>d'. mem_write d off bs = ret d' \<and> length d' = PAGE_SIZE)"
    "write_u32 d off v = undef \<or> (\<exists>d'. write_u32 d off v = ret d' \<and> length d' = PAGE_SIZE)"
    "set_cell_pointer d i w = undef \<or> (\<exists>d'. set_cell_pointer d i w = ret d' \<and> length d' = PAGE_SIZE)"
  using assms by (simp_all add: write_u32_def set_cell_pointer_def write_u16_def mem_write_def length_put_at)

lemma long_cell_undefined:
  assumes r: "leaf_rep d kvs" and v: "length value = 65518"
  shows "insert_cell key value 65518 (length kvs) d = undef"
proof -
  let ?o = "nh_content_start (leaf_hdr kvs) - ucast (8 + (65518 :: u32) + 8)"
  have avail: "\<not> int (unat (ucast (2 + (8 + (65518 :: u32) + 8)) :: u16)) >
      int (unat (nh_content_start (leaf_hdr kvs))) - int (BTREE_LEAF_HEADER_SIZE + length kvs * BTREE_CELL_POINTER_SIZE)"
    using leaf_hdr_simps(3)[OF r] leaf_count(3,4)[OF r]
    by (simp add: BTREE_LEAF_HEADER_SIZE_def BTREE_CELL_POINTER_SIZE_def leaf_used_def of_nat_diff)
  have l: "length d = PAGE_SIZE" by (rule leaf_count[OF r])
  have rd: "mem_read value 0 (unat (65518 :: u32)) = ret value" using v by (simp add: get_at_def)
  have big: "mem_write d' off value = undef" if "length d' = PAGE_SIZE" for d' off
    using that v by (simp add: mem_write_def PAGE_SIZE_def)
  have tail: "bindc (write_u32 d1 (unat ?o) (8 + 65518 + 8)) (\<lambda>d. bindc (write_u32 d (unat ?o + 4) 8) (\<lambda>d.
      bindc (mem_write d (unat ?o + 8) (le_bytes 8 key)) (\<lambda>d. bindc (mem_read value 0 (unat (65518 :: u32))) (\<lambda>v.
      bindc (mem_write d (unat ?o + 16) v) f)))) = undef" if "length d1 = PAGE_SIZE" for d1 and f :: "bytes \<Rightarrow> bytes option comp"
    unfolding rd bindc_simps
    by (rule undef_bind[OF write_cases(2)[OF that] undef_bind[OF write_cases(2) undef_bind[OF write_cases(1)]]])
      (simp_all add: big)
  show ?thesis
    unfolding insert_cell_def leaf_get_header[OF r] bindc_simps Let_def leaf_hdr_simps(2)[OF r] shift_none if_not_P[OF avail]
    by (intro undef_bind[where P = "\<lambda>d. length d = PAGE_SIZE"] write_cases l tail)
qed

section \<open>The properties\<close>

lemma map_of_again: "k \<in> fst ` set kvs \<Longrightarrow> map_of (kvs @ [(k, v)]) = map_of kvs"
proof
  fix x assume k: "k \<in> fst ` set kvs"
  show "map_of (kvs @ [(k, v)]) x = map_of kvs x"
  proof (cases "map_of kvs x")
    case None
    with k have "x \<noteq> k" by (auto simp: map_of_eq_None_iff)
    with None show ?thesis by (simp add: map_add_def)
  qed (simp add: map_add_def)
qed

text \<open>A pager over a new file, the cache on it, and the tree created there.\<close>

lemma fresh_can_create:
  obtains pg where "pager_create (Some fresh_file) = Some pg" "can_create (page_cache_create 256 64 (Some pg))"
    "coherent (page_cache_create 256 64 (Some pg))"
proof -
  obtain pg where pg: "pager_create (Some fresh_file) = Some pg" "pager_inv pg []" "p_page_count pg = 1"
    by (rule pager_create_inv[OF fresh_file_ok])
  note c = cache_create_ready[of 64 pg 256, OF _ pager_inv_ready[OF pg(2)]]
  show thesis using that[OF pg(1) _ coherent_create] c pg(2,3) by (simp add: can_create_def)
qed

lemma fresh_tree:
  obtains t c where "tree_rep t c []" "coherent c"
proof -
  obtain pg where "can_create (page_cache_create 256 64 (Some pg))" "coherent (page_cache_create 256 64 (Some pg))"
    by (rule fresh_can_create)
  then show thesis using that by (metis create_eval others_kept_def)
qed

lemma demo_insert: "insert_spec 5 [1, 2, 3] [] = Some [(5, [1, 2, 3])]"
  by (simp add: insert_spec_def leaf_used_def cells_len_def cell_bytes_def PAGE_SIZE_def)

lemma demo_tree:
  obtains t c where "tree_rep t c [(5, [1, 2, 3])]" "coherent c"
proof -
  obtain t c where t: "tree_rep t c []" "coherent c" by (rule fresh_tree)
  obtain c' where "tree_rep t c' (case insert_spec 5 [1, 2, 3] [] of Some kvs' \<Rightarrow> kvs' | None \<Rightarrow> [])" "others_kept t c c'"
    by (rule insert_eval[OF t(1), of "[1, 2, 3]" 3 5]) simp_all
  then show thesis using that t(2) by (simp add: demo_insert others_kept_def)
qed

text \<open>C2: Insertion refines insertion into an association list.  On a tree with given entries and a value of up
  to 64999 bytes it returns 0 exactly when the key is there (nothing changes) or the page has room (the entry is
  added at the end), and -1 with no change otherwise.  Pages of other trees keep their contents.\<close>

theorem btree_insert_refines:
  assumes "tree_rep t c kvs" "length value = unat len" "unat len < 65000"
  shows "\<exists>c'. btree_insert t key value len c = ret (insert_spec key value kvs \<noteq> None, c') \<and>
    tree_rep t c' (case insert_spec key value kvs of Some kvs' \<Rightarrow> kvs' | None \<Rightarrow> kvs) \<and> others_kept t c c'"
  by (rule insert_eval[OF assms]) blast

theorem btree_insert_refines_witness:
  "\<exists>t c c'. tree_rep t c [] \<and> btree_insert t 5 [1, 2, 3] 3 c = ret (True, c') \<and> tree_rep t c' [(5, [1, 2, 3])]"
proof -
  obtain t c where t: "tree_rep t c []" by (rule fresh_tree)
  then show ?thesis using btree_insert_refines[of t c "[]" "[1, 2, 3]" 3 5] by (fastforce simp: demo_insert)
qed

text \<open>C6: What was inserted is found: after an insertion that returned 0, searching for any key and reading at the
  cursor gives the value that was stored first under that key, or no entry.\<close>

theorem btree_insert_lookup:
  assumes "tree_rep t c kvs" "length value = unat len" "unat len < 65000" "btree_insert t key value len c = ret (True, c1)"
  shows "\<exists>cur c2. btree_find t q c1 = ret (Some cur, c2) \<and>
    (case map_of (kvs @ [(key, value)]) q of
       None \<Rightarrow> \<not> btree_cursor_valid cur
     | Some v \<Rightarrow> btree_cursor_valid cur \<and> (\<exists>c3. btree_get PAGE_SIZE cur c2 = ret (Some (q, v), c3)))"
proof -
  obtain c' where i: "btree_insert t key value len c = ret (insert_spec key value kvs \<noteq> None, c')"
    "tree_rep t c' (case insert_spec key value kvs of Some kvs' \<Rightarrow> kvs' | None \<Rightarrow> kvs)"
    by (rule insert_eval[OF assms(1-3)]) blast
  then obtain kvs' where k: "insert_spec key value kvs = Some kvs'" "tree_rep t c1 kvs'" using assms(4) by auto
  then have m: "map_of kvs' q = map_of (kvs @ [(key, value)]) q"
    using map_of_again[of key kvs "value"] by (simp add: insert_spec_def del: map_of_append split: if_splits)
  obtain c2 where f: "btree_find t q c1 = ret (Some (cursor_at t True 0 (key_index kvs' q) (q \<notin> fst ` set kvs')), c2)"
    "tree_rep t c2 kvs'" by (rule find_eval[OF k(2)]) blast
  show ?thesis
  proof (cases "map_of kvs' q")
    case None
    then have "q \<notin> fst ` set kvs'" by (simp add: map_of_eq_None_iff)
    with None f(1) show ?thesis unfolding m[symmetric] by (simp add: btree_cursor_valid_def cursor_at_def)
  next
    case (Some v)
    then have q: "q \<in> fst ` set kvs'" by (metis map_of_eq_None_iff option.distinct(1))
    note K = key_index_first[OF q] and F = tree_repD[OF f(2)]
    have "length (snd (kvs' ! key_index kvs' q)) \<le> PAGE_SIZE"
      using cell_off_bounds(3)[OF leaf_count(4)[OF F(5)] K(1)] by simp
    with Some f(1) q K(2) show ?thesis unfolding m[symmetric]
      using get_eval[OF F(3-5), of "cursor_at t True 0 (key_index kvs' q) (q \<notin> fst ` set kvs')" PAGE_SIZE] F(1) K(1)
      by (auto simp: btree_cursor_valid_def cursor_at_def cursor_new_def)
  qed
qed

theorem btree_insert_lookup_witness:
  "\<exists>t c c1. btree_insert t 5 [1, 2, 3] 3 c = ret (True, c1) \<and>
    (\<exists>cur c2 c3. btree_find t 5 c1 = ret (Some cur, c2) \<and> btree_get PAGE_SIZE cur c2 = ret (Some (5, [1, 2, 3]), c3))"
proof -
  obtain t c where t: "tree_rep t c []" by (rule fresh_tree)
  obtain c1 where c1: "btree_insert t 5 [1, 2, 3] 3 c = ret (True, c1)"
    by (rule insert_eval[OF t, of "[1, 2, 3]" 3 5]) (simp_all add: demo_insert)
  then show ?thesis using btree_insert_lookup[of t c "[]" "[1, 2, 3]" 3 5 c1 5] t by simp blast
qed

text \<open>C17: Scanning a tree from its first entry to the end, as the catalog and the executor do, sees every entry once, in
  the order in which they were inserted, whatever the loop does with them.\<close>

theorem btree_scan_order:
  assumes "tree_rep t c kvs" "\<forall>e \<in> set kvs. length (snd e) \<le> cap"
  shows "\<exists>cur c1 c2. btree_first t c = ret (Some cur, c1) \<and>
    scan_loop btree_cursor_valid (btree_get cap) btree_cursor_next f cur acc c1 = ret (fold_stop f acc kvs, c2) \<and>
    tree_rep t c2 kvs"
proof -
  obtain cur c1 where 1: "btree_first t c = ret (Some cur, c1)" "tree_cursor_at cap c1 cur kvs" "tree_rep t c1 kvs"
    "resident c1 (bt_root_page t)" by (rule first_cursor[OF assms]) blast
  obtain c2 where 2: "scan_loop btree_cursor_valid (btree_get cap) btree_cursor_next f cur acc c1 =
      ret (fold_stop f acc kvs, c2)" "cache_step c1 c2"
    using tree.scan[OF 1(2), of f acc] by (elim exE conjE) (rule that)
  moreover from this have "tree_rep t c2 kvs"
    using tree_rep_keeps[OF 1(3) _ 1(4)] tree_repD(3)[OF 1(3)] by (simp add: cache_step_def)
  ultimately show ?thesis using 1(1) by blast
qed

theorem btree_scan_order_witness:
  "\<exists>t c cur c1 c2. tree_rep t c [(5, [1, 2, 3])] \<and> btree_first t c = ret (Some cur, c1) \<and>
    scan_loop btree_cursor_valid (btree_get 3) btree_cursor_next (\<lambda>n e. (n + 1, False)) cur (0 :: nat) c1 = ret (1, c2)"
proof -
  obtain t c where t: "tree_rep t c [(5, [1, 2, 3])]" by (rule demo_tree)
  then show ?thesis using btree_scan_order[of t c "[(5, [1, 2, 3])]" 3 "\<lambda>n e. (n + 1, False)" "0 :: nat"] by simp blast
qed

text \<open>C18: Closing a tree writes it out: a tree opened with the same root page in a new cache over the same pager has
  the same entries.\<close>

theorem btree_close_durable:
  assumes "tree_rep t c kvs" "coherent c" "0 < n"
  shows "\<exists>t' c' pg. btree_close t c = ret (t', c') \<and> pc_pager c' = Some pg \<and>
    tree_rep (btree_open (bt_root_page t)) (page_cache_create d n (Some pg)) kvs"
proof -
  note T = tree_repD[OF assms(1)]
  obtain pg0 where pg0: "pc_pager c = Some pg0" "\<And>p. resident c p \<Longrightarrow> pager_valid pg0 p"
    using T(3) by (auto simp: cache_ready_def)
  obtain k c' where f: "page_cache_flush c = ret (k, c')" "flushes c c' (dom (pc_heap c))"
    by (rule flush_good[OF T(3)])
  then obtain pg where pg: "pc_pager c' = Some pg" "cache_ready c'" "pager_valid pg = pager_valid pg0"
    using pg0(1) by (auto simp: flushes_def)
  have v: "pager_valid pg0 (bt_root_page t)" using T(4) pg0 by (auto simp: reachable_def)
  then have page: "pager_page pg (bt_root_page t) = cache_view c (bt_root_page t)"
    using flushes_pages(1)[OF T(3) assms(2) f(2) pg0(1) pg(1)] by simp
  have rdy: "pager_ready pg" using pg(1,2) by (auto simp: cache_ready_def)
  let ?c = "page_cache_create d n (Some pg)"
  note C = cache_create_ready[OF assms(3) rdy, of d]
  have "cache_view ?c (bt_root_page t) = pager_page pg (bt_root_page t)"
    using C(2,5) by (intro view_uncached) (auto simp: resident_def)
  then have "tree_rep (btree_open (bt_root_page t)) ?c kvs"
    using C v T(5) page pg(3) by (simp add: tree_rep_def btree_open_def reachable_def)
  with f(1) pg(1) T(1) show ?thesis by (simp add: btree_close_def)
qed

theorem btree_close_durable_witness:
  "\<exists>t c t' c' pg. tree_rep t c [(5, [1, 2, 3])] \<and> btree_close t c = ret (t', c') \<and> pc_pager c' = Some pg \<and>
    tree_rep (btree_open (bt_root_page t)) (page_cache_create 256 64 (Some pg)) [(5, [1, 2, 3])]"
proof -
  obtain t c where t: "tree_rep t c [(5, [1, 2, 3])]" "coherent c" by (rule demo_tree)
  then show ?thesis using btree_close_durable[OF t, of 64 256] by simp blast
qed

text \<open>C30: The size of a cell is computed in 16 bits: for a new key and a value of 65518 bytes the room test passes in
  every tree, and the copy leaves the page.\<close>

theorem btree_long_value_undefined:
  assumes "tree_rep t c kvs" "key \<notin> fst ` set kvs" "length value = 65518"
  shows "btree_insert t key value 65518 c = undef"
proof -
  define cur where "cur = cursor_at t True 0 (key_index kvs key) True"
  obtain c1 where 1: "btree_find t key c = ret (Some cur, c1)" "tree_rep t c1 kvs"
    unfolding cur_def using assms(2) by (rule_tac find_eval[OF assms(1), of key]) auto
  note T = tree_repD[OF 1(2)]
  obtain a c2 where 2: "page_pin (bt_root_page t) c1 = ret (Some a, c2)" "page_data a c2 = ret (cache_view c1 (bt_root_page t))"
    by (rule access_page[OF T(3,4)])
  have cur: "cu_is_end cur" "cu_page cur = bt_root_page t" "cu_cell cur = length kvs"
    using key_index_absent[OF assms(2)] by (simp_all add: cur_def cursor_at_def)
  have "insert_cell key value 65518 (length kvs) (cache_view c1 (bt_root_page t)) = undef"
    by (rule long_cell_undefined[OF T(5) assms(3)])
  with T(1,2) 1(1) 2 cur show ?thesis by (simp add: btree_insert_def)
qed

theorem btree_long_value_undefined_witness:
  "\<exists>t c. tree_rep t c [] \<and> btree_insert t 5 (replicate 65518 0) 65518 c = undef"
proof -
  obtain t c where t: "tree_rep t c []" by (rule fresh_tree)
  then show ?thesis using btree_long_value_undefined[OF t, of 5 "replicate 65518 0"] by auto
qed

end
