(* ===== verification/Errors.thy ===== *)
theory Errors
  imports Float64
begin

text \<open>
  Error codes, error values and the panic state: \<^verbatim>\<open>include/tinydb.h\<close> and \<^verbatim>\<open>util/error.c\<close>.  The
  functions of the database return integers, which are 0, the code of an error, or -1 from the
  storage layer.  A formatted message arrives here already formatted; what the functions do with
  it is to keep as much of it as the array holds.
\<close>

datatype ErrorCode =
    SUCCESS
  | ERR_PARSE_SYNTAX | ERR_PARSE_UNEXPECTED_TOKEN | ERR_PARSE_UNTERMINATED_STRING
  | ERR_PARSE_INVALID_NUMBER | ERR_PARSE_INVALID_IDENTIFIER
  | ERR_EXEC_TABLE_NOT_FOUND | ERR_EXEC_COLUMN_NOT_FOUND | ERR_EXEC_DUPLICATE_COLUMN
  | ERR_EXEC_TYPE_MISMATCH | ERR_EXEC_NOT_NULL_VIOLATION | ERR_EXEC_CONSTRAINT_VIOLATION
  | ERR_EXEC_FOREIGN_KEY_VIOLATION | ERR_EXEC_UNIQUE_VIOLATION
  | ERR_TX_ALREADY_ACTIVE | ERR_TX_NOT_ACTIVE | ERR_TX_LOCK_TIMEOUT | ERR_TX_DEADLOCK | ERR_TX_ROLLBACK
  | ERR_STORAGE_IO | ERR_STORAGE_CORRUPT | ERR_STORAGE_FULL | ERR_STORAGE_PERMISSION | ERR_STORAGE_NOT_FOUND
  | ERR_PROTO_INVALID_REQUEST | ERR_PROTO_CONNECTION_CLOSED | ERR_PROTO_TIMEOUT
  | ERR_INTERNAL | ERR_OUT_OF_MEMORY | ERR_ASSERTION_FAILED

text \<open>The value of a constant of the enumeration, and the table of its text.\<close>

fun code :: "ErrorCode \<Rightarrow> int" where
  "code SUCCESS = 0"
| "code ERR_PARSE_SYNTAX = 1000"
| "code ERR_PARSE_UNEXPECTED_TOKEN = 1001"
| "code ERR_PARSE_UNTERMINATED_STRING = 1002"
| "code ERR_PARSE_INVALID_NUMBER = 1003"
| "code ERR_PARSE_INVALID_IDENTIFIER = 1004"
| "code ERR_EXEC_TABLE_NOT_FOUND = 2000"
| "code ERR_EXEC_COLUMN_NOT_FOUND = 2001"
| "code ERR_EXEC_DUPLICATE_COLUMN = 2002"
| "code ERR_EXEC_TYPE_MISMATCH = 2003"
| "code ERR_EXEC_NOT_NULL_VIOLATION = 2004"
| "code ERR_EXEC_CONSTRAINT_VIOLATION = 2005"
| "code ERR_EXEC_FOREIGN_KEY_VIOLATION = 2006"
| "code ERR_EXEC_UNIQUE_VIOLATION = 2007"
| "code ERR_TX_ALREADY_ACTIVE = 3000"
| "code ERR_TX_NOT_ACTIVE = 3001"
| "code ERR_TX_LOCK_TIMEOUT = 3002"
| "code ERR_TX_DEADLOCK = 3003"
| "code ERR_TX_ROLLBACK = 3004"
| "code ERR_STORAGE_IO = 4000"
| "code ERR_STORAGE_CORRUPT = 4001"
| "code ERR_STORAGE_FULL = 4002"
| "code ERR_STORAGE_PERMISSION = 4003"
| "code ERR_STORAGE_NOT_FOUND = 4004"
| "code ERR_PROTO_INVALID_REQUEST = 5000"
| "code ERR_PROTO_CONNECTION_CLOSED = 5001"
| "code ERR_PROTO_TIMEOUT = 5002"
| "code ERR_INTERNAL = 9000"
| "code ERR_OUT_OF_MEMORY = 9001"
| "code ERR_ASSERTION_FAILED = 9002"

fun error_text_of :: "ErrorCode \<Rightarrow> string" where
  "error_text_of SUCCESS = ''Success''"
| "error_text_of ERR_PARSE_SYNTAX = ''Syntax error''"
| "error_text_of ERR_PARSE_UNEXPECTED_TOKEN = ''Unexpected token''"
| "error_text_of ERR_PARSE_UNTERMINATED_STRING = ''Unterminated string''"
| "error_text_of ERR_PARSE_INVALID_NUMBER = ''Invalid number''"
| "error_text_of ERR_PARSE_INVALID_IDENTIFIER = ''Invalid identifier''"
| "error_text_of ERR_EXEC_TABLE_NOT_FOUND = ''Table not found''"
| "error_text_of ERR_EXEC_COLUMN_NOT_FOUND = ''Column not found''"
| "error_text_of ERR_EXEC_DUPLICATE_COLUMN = ''Duplicate column name''"
| "error_text_of ERR_EXEC_TYPE_MISMATCH = ''Type mismatch''"
| "error_text_of ERR_EXEC_NOT_NULL_VIOLATION = ''NOT NULL constraint violation''"
| "error_text_of ERR_EXEC_CONSTRAINT_VIOLATION = ''Constraint violation''"
| "error_text_of ERR_EXEC_FOREIGN_KEY_VIOLATION = ''Foreign key violation''"
| "error_text_of ERR_EXEC_UNIQUE_VIOLATION = ''UNIQUE constraint violation''"
| "error_text_of ERR_TX_ALREADY_ACTIVE = ''Transaction already active''"
| "error_text_of ERR_TX_NOT_ACTIVE = ''No active transaction''"
| "error_text_of ERR_TX_LOCK_TIMEOUT = ''Lock timeout''"
| "error_text_of ERR_TX_DEADLOCK = ''Deadlock detected''"
| "error_text_of ERR_TX_ROLLBACK = ''Transaction rolled back''"
| "error_text_of ERR_STORAGE_IO = ''I/O error''"
| "error_text_of ERR_STORAGE_CORRUPT = ''Database file corrupt''"
| "error_text_of ERR_STORAGE_FULL = ''Database file full''"
| "error_text_of ERR_STORAGE_PERMISSION = ''Permission denied''"
| "error_text_of ERR_STORAGE_NOT_FOUND = ''File not found''"
| "error_text_of ERR_PROTO_INVALID_REQUEST = ''Invalid request''"
| "error_text_of ERR_PROTO_CONNECTION_CLOSED = ''Connection closed''"
| "error_text_of ERR_PROTO_TIMEOUT = ''Protocol timeout''"
| "error_text_of ERR_INTERNAL = ''Internal error''"
| "error_text_of ERR_OUT_OF_MEMORY = ''Out of memory''"
| "error_text_of ERR_ASSERTION_FAILED = ''Assertion failed''"

definition error_codes :: "ErrorCode list" where
  "error_codes =
     [SUCCESS, ERR_PARSE_SYNTAX, ERR_PARSE_UNEXPECTED_TOKEN, ERR_PARSE_UNTERMINATED_STRING,
      ERR_PARSE_INVALID_NUMBER, ERR_PARSE_INVALID_IDENTIFIER, ERR_EXEC_TABLE_NOT_FOUND,
      ERR_EXEC_COLUMN_NOT_FOUND, ERR_EXEC_DUPLICATE_COLUMN, ERR_EXEC_TYPE_MISMATCH,
      ERR_EXEC_NOT_NULL_VIOLATION, ERR_EXEC_CONSTRAINT_VIOLATION, ERR_EXEC_FOREIGN_KEY_VIOLATION,
      ERR_EXEC_UNIQUE_VIOLATION, ERR_TX_ALREADY_ACTIVE, ERR_TX_NOT_ACTIVE, ERR_TX_LOCK_TIMEOUT,
      ERR_TX_DEADLOCK, ERR_TX_ROLLBACK, ERR_STORAGE_IO, ERR_STORAGE_CORRUPT, ERR_STORAGE_FULL,
      ERR_STORAGE_PERMISSION, ERR_STORAGE_NOT_FOUND, ERR_PROTO_INVALID_REQUEST,
      ERR_PROTO_CONNECTION_CLOSED, ERR_PROTO_TIMEOUT, ERR_INTERNAL, ERR_OUT_OF_MEMORY, ERR_ASSERTION_FAILED]"

text \<open>The switch: any integer may arrive, and the default case answers the others.\<close>

definition error_code_to_string :: "int \<Rightarrow> string" where
  "error_code_to_string n =
     (case find (\<lambda>e. code e = n) error_codes of Some e \<Rightarrow> error_text_of e | None \<Rightarrow> ''Unknown error'')"

record Error =
  er_code :: int
  er_message :: string
  er_context :: string
  er_file :: "string option"
  er_line :: int

text \<open>What an array of 256 characters keeps of a text.\<close>

definition message_256 :: "string \<Rightarrow> string" where
  "message_256 s = take 255 s"

definition error_create :: "int \<Rightarrow> string option \<Rightarrow> Error" where
  "error_create n message =
     \<lparr>er_code = n, er_message = (case message of Some s \<Rightarrow> message_256 s | None \<Rightarrow> []), er_context = [],
      er_file = None, er_line = 0\<rparr>"

definition error_create_f :: "int \<Rightarrow> string option \<Rightarrow> Error" where
  "error_create_f n formatted =
     (let err = error_create n None in
      case formatted of None \<Rightarrow> err | Some s \<Rightarrow> err\<lparr>er_message := message_256 s\<rparr>)"

definition error_wrap :: "Error option \<Rightarrow> string option \<Rightarrow> Error option" where
  "error_wrap cause formatted =
     (case cause of
        None \<Rightarrow> None
      | Some cause \<Rightarrow>
          (let err = error_create (er_code cause) (Some (er_message cause)) in
           Some (case formatted of None \<Rightarrow> err | Some s \<Rightarrow> err\<lparr>er_context := message_256 s\<rparr>)))"

definition error_is :: "Error option \<Rightarrow> int \<Rightarrow> bool" where
  "error_is err n \<longleftrightarrow> (case err of None \<Rightarrow> False | Some e \<Rightarrow> er_code e = n)"

section \<open>Panics\<close>

datatype PanicType = PANIC_NONE | PANIC_IO_ERROR | PANIC_CORRUPTION | PANIC_OUT_OF_MEMORY | PANIC_ASSERTION

record PanicInfo =
  pa_type :: PanicType
  pa_message :: "string option"
  pa_file :: "string option"
  pa_line :: int

text \<open>The panic state and the line on the error stream when the process is left.\<close>

definition panic_at :: "string \<Rightarrow> int \<Rightarrow> string option \<Rightarrow> PanicInfo \<Rightarrow> PanicInfo \<times> string" where
  "panic_at filename line formatted g_panic =
     (let g_panic = g_panic\<lparr>pa_file := Some filename, pa_line := line\<rparr>;
          (message, out) =
            (case formatted of
               Some s \<Rightarrow> (message_256 s, ''PANIC: '' @ message_256 s)
             | None \<Rightarrow> (''Unknown panic'', ''PANIC''))
      in (g_panic\<lparr>pa_message := Some message, pa_type := PANIC_ASSERTION\<rparr>,
          out @ '' at '' @ filename @ '':'' @ fmt_lld (word_of_int line) @ [CHR 0x0A]))"

definition panic :: "string option \<Rightarrow> PanicInfo \<Rightarrow> PanicInfo \<times> string" where
  "panic formatted g_panic =
     (case formatted of
        Some s \<Rightarrow> (g_panic\<lparr>pa_message := Some (message_256 s), pa_type := PANIC_ASSERTION\<rparr>,
                   ''PANIC: '' @ message_256 s @ [CHR 0x0A])
      | None \<Rightarrow> (g_panic\<lparr>pa_type := PANIC_ASSERTION\<rparr>, []))"

definition panic_clear :: "PanicInfo \<Rightarrow> PanicInfo" where
  "panic_clear g_panic = \<lparr>pa_type = PANIC_NONE, pa_message = None, pa_file = None, pa_line = 0\<rparr>"

section \<open>Lemmas\<close>

lemma in_error_codes: "e \<in> set error_codes"
  by (cases e) (simp_all add: error_codes_def)

lemma distinct_codes: "distinct (map code error_codes)"
  by (simp add: error_codes_def)

lemma code_inject: "code e = code e' \<longleftrightarrow> e = e'"
  using distinct_codes in_error_codes by (auto simp: distinct_map dest: inj_onD)

text \<open>Every code has its text, and an integer outside the enumeration is an unknown error.\<close>

lemma find_unique: "x \<in> set xs \<Longrightarrow> (\<And>y. P y \<longleftrightarrow> y = x) \<Longrightarrow> find P xs = Some x"
  by (induction xs) auto

lemma error_code_to_string_total:
  "error_code_to_string (code e) = error_text_of e"
  using find_unique[OF in_error_codes, of "\<lambda>e'. code e' = code e" e]
  by (simp add: error_code_to_string_def code_inject)

lemma error_code_to_string_unknown:
  "(\<forall>e. code e \<noteq> n) \<Longrightarrow> error_code_to_string n = ''Unknown error''"
  by (simp add: error_code_to_string_def find_None_iff[THEN iffD2])

text \<open>Wrapping an error keeps its code.\<close>

lemma error_wrap_code: "error_is (error_wrap cause s) n = error_is cause n"
  by (cases cause; cases s) (simp_all add: error_is_def error_wrap_def error_create_def Let_def)

end
