(* ===== verification/Cstring.thy ===== *)
theory Cstring
  imports Lexer Errors
begin

text \<open>
  C strings in memory and the utilities of \<^verbatim>\<open>util/string.c\<close>.  A buffer is the list of its
  characters; a pointer that may be \<^verbatim>\<open>NULL\<close> is an option.  A string is what stands in a buffer
  before the first zero; reading on where there is none is undefined, as is writing behind the
  end of the buffer.  Allocation is a parameter: whether the allocator grants a request.
\<close>

section \<open>Lengths and comparisons\<close>

fun len_loop :: "string \<Rightarrow> nat \<Rightarrow> nat comp" where
  "len_loop [] len = undef"
| "len_loop (c # s) len = (if c = NUL then ret len else len_loop s (len + 1))"

definition str_len :: "string option \<Rightarrow> nat comp" where
  "str_len s = (case s of None \<Rightarrow> ret 0 | Some s \<Rightarrow> len_loop s 0)"

fun nlen_loop :: "string \<Rightarrow> nat \<Rightarrow> nat \<Rightarrow> nat comp" where
  "nlen_loop [] max_len len = (if len < max_len then undef else ret len)"
| "nlen_loop (c # s) max_len len =
     (if len < max_len \<and> c \<noteq> NUL then nlen_loop s max_len (len + 1) else ret len)"

definition str_nlen :: "string option \<Rightarrow> nat \<Rightarrow> nat comp" where
  "str_nlen s max_len = (case s of None \<Rightarrow> ret 0 | Some s \<Rightarrow> nlen_loop s max_len 0)"

text \<open>Whether \<^verbatim>\<open>strcmp\<close> gives 0.\<close>

fun same_string :: "string \<Rightarrow> string \<Rightarrow> bool comp" where
  "same_string (c # s) (d # t) = (if c \<noteq> d then ret False else if c = NUL then ret True else same_string s t)"
| "same_string s t = undef"

definition str_eq :: "string option \<Rightarrow> string option \<Rightarrow> bool comp" where
  "str_eq a b = (case (a, b) of (Some a, Some b) \<Rightarrow> same_string a b | _ \<Rightarrow> ret (a = b))"

definition str_ne :: "string option \<Rightarrow> string option \<Rightarrow> bool comp" where
  "str_ne a b = bindc (str_eq a b) (\<lambda>r. ret (\<not> r))"

definition tolower :: "char \<Rightarrow> nat" where
  "tolower c = (let n = of_char c in if 65 \<le> n \<and> n \<le> 90 then n + 32 else n)"

fun case_eq_loop :: "string \<Rightarrow> string \<Rightarrow> bool comp" where
  "case_eq_loop (c # s) (d # t) =
     (if c \<noteq> NUL \<and> d \<noteq> NUL then if tolower c \<noteq> tolower d then ret False else case_eq_loop s t
      else ret (c = d))"
| "case_eq_loop s t = undef"

definition str_case_eq :: "string option \<Rightarrow> string option \<Rightarrow> bool comp" where
  "str_case_eq a b = (case (a, b) of (Some a, Some b) \<Rightarrow> case_eq_loop a b | _ \<Rightarrow> ret (a = b))"

section \<open>Allocation\<close>

text \<open>A pointer to a block of a size, the null pointer, or the end of the process.\<close>

datatype alloc = Block u64 | Null | Panic

definition mem_alloc :: "(u64 \<Rightarrow> bool) \<Rightarrow> u64 \<Rightarrow> alloc" where
  "mem_alloc grants sz = (if sz = 0 then Null else if grants sz then Block sz else Panic)"

definition mem_calloc :: "(u64 \<Rightarrow> bool) \<Rightarrow> u64 \<Rightarrow> u64 \<Rightarrow> alloc" where
  "mem_calloc grants nmemb sz =
     (if nmemb = 0 \<or> sz = 0 then Null
      else if nmemb > (- 1) div sz then Panic
      else if grants (nmemb * sz) then Block (nmemb * sz) else Panic)"

definition mem_realloc :: "(u64 \<Rightarrow> bool) \<Rightarrow> u64 \<Rightarrow> alloc" where
  "mem_realloc grants sz = (if grants sz then Block sz else if sz > 0 then Panic else Null)"

definition mem_alloc_ovf :: "(u64 \<Rightarrow> bool) \<Rightarrow> u64 \<Rightarrow> alloc \<times> bool" where
  "mem_alloc_ovf grants sz =
     (if sz = 0 then (Null, False) else if grants sz then (Block sz, False) else (Null, True))"

definition mem_calloc_ovf :: "(u64 \<Rightarrow> bool) \<Rightarrow> u64 \<Rightarrow> u64 \<Rightarrow> alloc \<times> bool" where
  "mem_calloc_ovf grants nmemb sz =
     (if nmemb = 0 \<or> sz = 0 then (Null, False)
      else if nmemb > (- 1) div sz then (Null, True)
      else if grants (nmemb * sz) then (Block (nmemb * sz), False) else (Null, True))"

section \<open>Copies\<close>

text \<open>Reading from and writing into a buffer of characters.\<close>

definition chars_read :: "string \<Rightarrow> nat \<Rightarrow> string comp" where
  "chars_read s n = (if n \<le> length s then ret (take n s) else undef)"

definition chars_write :: "string \<Rightarrow> string \<Rightarrow> string comp" where
  "chars_write d s = (if length s \<le> length d then ret (s @ drop (length s) d) else undef)"

text \<open>\<^verbatim>\<open>str_dup\<close> and \<^verbatim>\<open>str_ndup\<close> when the memory is granted.\<close>

definition str_dup :: "string option \<Rightarrow> string option comp" where
  "str_dup s =
     (case s of None \<Rightarrow> ret None
      | Some s \<Rightarrow> bindc (str_len (Some s)) (\<lambda>len. bindc (chars_read s (len + 1)) (\<lambda>copy. ret (Some copy))))"

definition str_ndup :: "string option \<Rightarrow> nat \<Rightarrow> string option comp" where
  "str_ndup s len =
     (case s of None \<Rightarrow> ret None
      | Some s \<Rightarrow> bindc (str_nlen (Some s) len) (\<lambda>actual_len.
                  bindc (chars_read s actual_len) (\<lambda>copy. ret (Some (copy @ [NUL])))))"

definition str_ncpy :: "string \<Rightarrow> nat \<Rightarrow> string \<Rightarrow> nat \<Rightarrow> (nat \<times> string) comp" where
  "str_ncpy dest dest_size src src_len =
     (if dest_size = 0 then ret (0, dest)
      else
        let copy_len = (if src_len < dest_size - 1 then src_len else dest_size - 1) in
        bindc (chars_read src copy_len) (\<lambda>s.
        bindc (chars_write dest (s @ [NUL])) (\<lambda>dest. ret (copy_len, dest))))"

definition str_cpy :: "string \<Rightarrow> nat \<Rightarrow> string \<Rightarrow> (nat \<times> string) comp" where
  "str_cpy dest dest_size src =
     (if dest_size = 0 then ret (0, dest)
      else
        bindc (str_len (Some src)) (\<lambda>src_len.
        let copy_len = (if src_len < dest_size - 1 then src_len else dest_size - 1) in
        bindc (chars_read src copy_len) (\<lambda>s.
        bindc (chars_write dest (s @ [NUL])) (\<lambda>dest. ret (copy_len, dest)))))"

text \<open>The room left is computed as an unsigned number, so it is huge when the destination is already too long.\<close>

definition str_cat :: "string \<Rightarrow> nat \<Rightarrow> string \<Rightarrow> (nat \<times> string) comp" where
  "str_cat dest dest_size src =
     (if dest_size = 0 then ret (0, dest)
      else
        bindc (str_len (Some dest)) (\<lambda>dest_len.
        let remaining = unat (of_nat dest_size - of_nat dest_len :: u64) in
        if remaining \<le> 1 then ret (dest_len, dest)
        else
          bindc (str_cpy (drop dest_len dest) remaining src) (\<lambda>(copied, rest).
          ret (dest_len + copied, take dest_len dest @ rest))))"

section \<open>Lists\<close>

text \<open>The slots of the array; a slot never written is \<open>None\<close>.\<close>

record 'a List_items =
  li_items :: "'a option list"
  li_count :: nat
  li_capacity :: nat

definition list_create :: "nat \<Rightarrow> 'a List_items" where
  "list_create initial_capacity =
     (let n = (if initial_capacity = 0 then 16 else initial_capacity) in
      \<lparr>li_items = replicate n None, li_count = 0, li_capacity = n\<rparr>)"

definition list_append :: "'a List_items option \<Rightarrow> 'a \<Rightarrow> int \<times> 'a List_items option" where
  "list_append l item =
     (case l of None \<Rightarrow> (- 1, None)
      | Some l \<Rightarrow>
          (let l = (if li_capacity l \<le> li_count l
                    then l\<lparr>li_items := li_items l @ replicate (li_capacity l) None, li_capacity := li_capacity l * 2\<rparr>
                    else l)
           in (0, Some (l\<lparr>li_items := (li_items l)[li_count l := Some item], li_count := li_count l + 1\<rparr>))))"

definition list_get :: "'a List_items option \<Rightarrow> nat \<Rightarrow> 'a option" where
  "list_get l index =
     (case l of None \<Rightarrow> None | Some l \<Rightarrow> if li_count l \<le> index then None else li_items l ! index)"

definition list_count :: "'a List_items option \<Rightarrow> nat" where
  "list_count l = (case l of None \<Rightarrow> 0 | Some l \<Rightarrow> li_count l)"

definition list_is_empty :: "'a List_items option \<Rightarrow> bool" where
  "list_is_empty l \<longleftrightarrow> (case l of None \<Rightarrow> True | Some l \<Rightarrow> li_count l = 0)"

section \<open>Strings in buffers\<close>

text \<open>\<open>holds d s\<close>: the buffer holds the string, with its zero.\<close>

definition holds :: "string \<Rightarrow> string \<Rightarrow> bool" where
  "holds d s \<longleftrightarrow> NUL \<notin> set s \<and> (\<exists>r. d = s @ NUL # r)"

lemma holdsE:
  assumes "holds d s"
  obtains r where "d = s @ NUL # r" "NUL \<notin> set s"
  using assms by (auto simp: holds_def)

lemma len_loop_holds: "NUL \<notin> set s \<Longrightarrow> len_loop (s @ NUL # r) n = ret (n + length s)"
  by (induction s arbitrary: n) auto

lemma str_len_holds: "holds d s \<Longrightarrow> str_len (Some d) = ret (length s)"
  by (auto simp: holds_def str_len_def len_loop_holds)

lemma same_string_holds:
  assumes "holds a s" "holds b t"
  shows "same_string a b = ret (s = t)"
proof -
  have "NUL \<notin> set s \<Longrightarrow> NUL \<notin> set t \<Longrightarrow> same_string (s @ NUL # r) (t @ NUL # r') = ret (s = t)" for r r'
    by (induction s t rule: list_induct2') auto
  with assms show ?thesis by (auto elim!: holdsE)
qed

lemma case_eq_holds:
  assumes "holds a s" "holds b t"
  shows "case_eq_loop a b = ret (map tolower s = map tolower t)"
proof -
  have "NUL \<notin> set s \<Longrightarrow> NUL \<notin> set t \<Longrightarrow>
      case_eq_loop (s @ NUL # r) (t @ NUL # r') = ret (map tolower s = map tolower t)" for r r'
    by (induction s t rule: list_induct2') auto
  with assms show ?thesis by (auto elim!: holdsE)
qed

text \<open>A copy is the beginning of the source that fits, always terminated; a concatenation likewise.\<close>

lemma str_cpy_spec:
  assumes "holds src s" "0 < n" "n \<le> length dest"
  obtains dest' where "str_cpy dest n src = ret (min (length s) (n - 1), dest')"
    "holds dest' (take (n - 1) s)" "length dest' = length dest"
proof -
  let ?k = "min (length s) (n - 1)"
  obtain r where src: "src = s @ NUL # r" "NUL \<notin> set s" using assms(1) by (rule holdsE)
  let ?d = "take (n - 1) s @ [NUL]"
  have k: "(if length s < n - 1 then length s else n - 1) = ?k" by simp
  have "chars_read src ?k = ret (take (n - 1) s)"
    using src(1) by (cases "length s \<le> n - 1") (simp_all add: chars_read_def min_def)
  moreover have "chars_write dest ?d = ret (?d @ drop (length ?d) dest)" using assms(2,3) by (simp add: chars_write_def)
  moreover have "holds (?d @ drop (length ?d) dest) (take (n - 1) s)"
    using src(2) in_set_takeD by (fastforce simp: holds_def)
  ultimately show thesis using assms k
    by (intro that[of "?d @ drop (length ?d) dest"]) (simp_all add: str_cpy_def str_len_holds Let_def)
qed

lemma str_cat_spec:
  assumes "holds dest d" "holds src s" "length d < n" "n \<le> length dest" "length dest < 2 ^ 64"
  obtains dest' k where "str_cat dest n src = ret (k, dest')" "holds dest' (take (n - 1) (d @ s))"
    "length dest' = length dest" "k = length (take (n - 1) (d @ s))"
proof -
  obtain r where dest: "dest = d @ NUL # r" "NUL \<notin> set d" using assms(1) by (rule holdsE)
  have "of_nat n - of_nat (length d) = (of_nat (n - length d) :: u64)" using assms(3) by (simp add: of_nat_diff)
  then have rem: "unat (of_nat n - of_nat (length d) :: u64) = n - length d"
    using assms(3-5) by (simp only: unat_of_nat) (simp add: take_bit_nat_eq_self)
  show thesis
  proof (cases "n - length d \<le> 1")
    case True
    then have t: "take (n - 1) (d @ s) = d" using assms(3) by simp
    with True show thesis using assms(1,3) rem
      by (intro that[of "length d" dest]) (simp_all add: str_cat_def str_len_holds[OF assms(1)] Let_def)
  next
    case False
    obtain rest where rest: "str_cpy (drop (length d) dest) (n - length d) src = ret (min (length s) (n - length d - 1), rest)"
      "holds rest (take (n - length d - 1) s)" "length rest = length (drop (length d) dest)"
      by (rule str_cpy_spec[OF assms(2), of "n - length d" "drop (length d) dest"]) (use assms(3,4) in auto)
    have "holds (d @ rest) (take (n - 1) (d @ s))"
      using rest(2) dest(2) assms(3) by (auto simp: holds_def)
    with False rem rest assms dest show thesis
      by (intro that[of "length d + min (length s) (n - length d - 1)" "d @ rest"])
        (auto simp: str_cat_def str_len_holds Let_def)
  qed
qed

section \<open>Lists in arrays\<close>

definition list_ok :: "'a List_items \<Rightarrow> 'a list \<Rightarrow> bool" where
  "list_ok l xs \<longleftrightarrow> 0 < li_capacity l \<and> length (li_items l) = li_capacity l \<and> li_count l \<le> li_capacity l \<and>
     take (li_count l) (li_items l) = map Some xs"

lemma list_create_ok: "list_ok (list_create n) []"
  by (simp add: list_ok_def list_create_def)

lemma list_append_ok:
  assumes "list_ok l xs"
  shows "\<exists>l'. list_append (Some l) x = (0, Some l') \<and> list_ok l' (xs @ [x])"
  using assms by (auto simp: list_append_def list_ok_def Let_def take_Suc_conv_app_nth take_update_cancel)

lemma list_get_ok:
  assumes "list_ok l xs"
  shows "list_get (Some l) i = (if i < length xs then Some (xs ! i) else None)"
proof -
  have n: "li_count l = length xs" using assms by (auto simp: list_ok_def dest: arg_cong[of _ _ length])
  have "li_items l ! i = Some (xs ! i)" if "i < length xs"
    using assms that n nth_take[of i "length xs" "li_items l"] by (simp add: list_ok_def)
  with n show ?thesis by (simp add: list_get_def)
qed

text \<open>The test before a multiplication is exact.\<close>

lemma calloc_overflow:
  fixes nmemb sz :: u64
  assumes "sz \<noteq> 0"
  shows "nmemb > (- 1) div sz \<longleftrightarrow> 2 ^ 64 \<le> unat nmemb * unat sz"
proof -
  have "unat ((- 1 :: u64) div sz) = (2 ^ 64 - 1) div unat sz"
    by (simp add: unat_div_distrib unsigned_minus_1_eq_mask mask_eq_exp_minus_1)
  then have "nmemb > (- 1) div sz \<longleftrightarrow> (2 ^ 64 - 1) div unat sz < unat nmemb"
    by (simp add: word_less_nat_alt)
  also have "\<dots> \<longleftrightarrow> 2 ^ 64 - 1 < unat nmemb * unat sz"
    using assms by (simp add: div_less_iff_less_mult unat_gt_0)
  finally show ?thesis by (simp add: less_eq_Suc_le)
qed

section \<open>Fields of fixed size\<close>

text \<open>
  A text in a field of \<open>n\<close> bytes: the field is cleared and \<^verbatim>\<open>strncpy\<close> copies up to \<open>n - 1\<close>
  characters; it is read back the same way.
\<close>

definition char_byte :: "char \<Rightarrow> byte" where
  "char_byte c = of_nat (of_char c)"

definition byte_char :: "byte \<Rightarrow> char" where
  "byte_char b = char_of (unat b)"

definition strncpy :: "nat \<Rightarrow> string \<Rightarrow> string" where
  "strncpy n s = (let t = take n (takeWhile (\<lambda>c. c \<noteq> NUL) s) in t @ replicate (n - length t) NUL)"

definition store_field :: "nat \<Rightarrow> string \<Rightarrow> bytes" where
  "store_field n s = map char_byte (strncpy (n - 1) s @ [NUL])"

definition load_field :: "nat \<Rightarrow> bytes \<Rightarrow> string" where
  "load_field n bs = takeWhile (\<lambda>c. c \<noteq> NUL) (map byte_char (take (n - 1) bs))"

lemma byte_char_byte [simp]: "byte_char (char_byte c) = c"
proof -
  have "(of_char c :: nat) < 2 ^ 8" using nat_of_char_less_256[of c] by simp
  then show ?thesis by (simp add: byte_char_def char_byte_def unat_of_nat take_bit_nat_eq_self)
qed

lemma length_store_field [buf_simps]: "0 < n \<Longrightarrow> length (store_field n s) = n"
  by (simp add: store_field_def strncpy_def Let_def)

definition fits_field :: "nat \<Rightarrow> string \<Rightarrow> bool" where
  "fits_field n s \<longleftrightarrow> length s < n \<and> NUL \<notin> set s"

lemma takeWhile_all: "NUL \<notin> set s \<Longrightarrow> takeWhile (\<lambda>c. c \<noteq> NUL) s = s"
  by (induction s) auto

lemma field_roundtrip [enc_simps]:
  assumes "fits_field n s"
  shows "load_field n (store_field n s) = s"
proof -
  have s: "length s < n" "NUL \<notin> set s" using assms by (simp_all add: fits_field_def)
  have "strncpy (n - 1) s = s @ replicate (n - 1 - length s) NUL"
    using s by (simp add: strncpy_def takeWhile_all)
  then have "map byte_char (take (n - 1) (store_field n s)) = s @ replicate (n - 1 - length s) NUL"
    using s(1) by (simp add: store_field_def take_map comp_def)
  then show ?thesis using s(2) by (auto simp: load_field_def takeWhile_append takeWhile_replicate)
qed

text \<open>What a field keeps of any string fits into it.\<close>

lemma fits_strncpy: "0 < n \<Longrightarrow> fits_field n (take (n - 1) (takeWhile (\<lambda>c. c \<noteq> NUL) s))"
  using set_takeWhileD[of NUL "\<lambda>c. c \<noteq> NUL" s] by (auto simp: fits_field_def dest: in_set_takeD)

end
