(* ===== verification/Catalog.thy ===== *)
theory Catalog
  imports Btree_Props Cstring
begin

text \<open>
  The catalog (\<^verbatim>\<open>sql/catalog.c\<close>): entries for tables and indexes in a B-tree of their own.  An
  entry has fixed-size text fields, which hold the strings below; it is stored as 652 bytes in
  the order of its fields.  The cursor of the catalog wraps that of the tree.
\<close>

section \<open>Entries\<close>

definition CATALOG_ENTRY_SIZE :: nat where
  "CATALOG_ENTRY_SIZE = 652"

text \<open>The enumeration \<^verbatim>\<open>CatalogEntryType\<close>; a stored entry may carry any number as its type.\<close>

definition CATALOG_TYPE_TABLE :: u32 where
  "CATALOG_TYPE_TABLE = 1"

definition CATALOG_TYPE_INDEX :: u32 where
  "CATALOG_TYPE_INDEX = 2"

definition CATALOG_TABLE_NAME :: string where
  "CATALOG_TABLE_NAME = ''tinydb_master''"

record CatalogEntry =
  ce_type :: u32
  ce_name :: string
  ce_tbl_name :: string
  ce_sql :: string
  ce_root_page :: u32
  ce_is_valid :: bool

definition serialize_entry :: "CatalogEntry \<Rightarrow> bytes" where
  "serialize_entry e =
     le_bytes 4 (ce_type e) @ store_field 64 (ce_name e) @ store_field 64 (ce_tbl_name e) @
     (if ce_sql e \<noteq> [] \<and> hd (ce_sql e) \<noteq> NUL then store_field 512 (ce_sql e) else replicate 512 0) @
     le_bytes 4 (ce_root_page e) @ le_bytes 4 (if ce_is_valid e then 1 else 0 :: u32)"

definition deserialize_entry :: "bytes \<Rightarrow> CatalogEntry" where
  "deserialize_entry buf =
     \<lparr>ce_type = le_val (get_at 0 4 buf),
      ce_name = load_field 64 (get_at 4 64 buf),
      ce_tbl_name = load_field 64 (get_at 68 64 buf),
      ce_sql = load_field 512 (get_at 132 512 buf),
      ce_root_page = le_val (get_at 644 4 buf),
      ce_is_valid = (le_val (get_at 648 4 buf) \<noteq> (0 :: u32))\<rparr>"

section \<open>Opening and closing\<close>

record Catalog =
  ca_tree :: BTree
  ca_is_open :: bool

definition catalog_open :: "PageCache \<Rightarrow> (Catalog option \<times> PageCache) comp" where
  "catalog_open c =
     bindc (btree_create c) (\<lambda>(tree, c).
     case tree of
       None \<Rightarrow> ret (None, c)
     | Some tree \<Rightarrow> ret (Some \<lparr>ca_tree = tree, ca_is_open = True\<rparr>, c))"

definition catalog_close :: "Catalog \<Rightarrow> PageCache \<Rightarrow> (Catalog \<times> PageCache) comp" where
  "catalog_close catalog c =
     bindc (btree_close (ca_tree catalog) c) (\<lambda>(tree, c). ret (catalog\<lparr>ca_tree := tree\<rparr>, c))"

text \<open>The integer \<^verbatim>\<open>btree_insert\<close> returns.\<close>

definition insert_status :: "bool \<Rightarrow> int" where
  "insert_status ok = (if ok then 0 else - 1)"

definition master_entry :: CatalogEntry where
  "master_entry =
     \<lparr>ce_type = CATALOG_TYPE_TABLE, ce_name = CATALOG_TABLE_NAME, ce_tbl_name = CATALOG_TABLE_NAME,
      ce_sql = ''CREATE TABLE tinydb_master (type TEXT, name TEXT, tbl_name TEXT, sql TEXT)'',
      ce_root_page = 0, ce_is_valid = False\<rparr>"

definition catalog_init :: "Catalog \<Rightarrow> PageCache \<Rightarrow> (int \<times> PageCache) comp" where
  "catalog_init catalog c =
     bindc (btree_insert (ca_tree catalog) 0 (serialize_entry master_entry) (of_nat CATALOG_ENTRY_SIZE) c) (\<lambda>(ok, c).
     ret (insert_status ok, c))"

section \<open>Operations\<close>

definition catalog_key :: "CatalogEntry \<Rightarrow> u64" where
  "catalog_key e =
     (if ce_type e = CATALOG_TYPE_TABLE then 1 + of_nat (length (ce_name e))
      else 0x80000000 + of_nat (length (ce_name e)))"

definition catalog_insert :: "Catalog \<Rightarrow> CatalogEntry \<Rightarrow> PageCache \<Rightarrow> (int \<times> PageCache) comp" where
  "catalog_insert catalog e c =
     bindc (btree_insert (ca_tree catalog) (catalog_key e) (serialize_entry e) (of_nat CATALOG_ENTRY_SIZE) c) (\<lambda>(ok, c).
     ret (insert_status ok, c))"

definition catalog_delete :: "Catalog \<Rightarrow> u32 \<Rightarrow> string \<Rightarrow> int" where
  "catalog_delete catalog ty name = code ERR_INTERNAL"

record CatalogCursor =
  cc_btree_cursor :: "BTreeCursor option"
  cc_is_end :: bool

definition catalog_cursor_create :: "Catalog \<Rightarrow> PageCache \<Rightarrow> (CatalogCursor \<times> PageCache) comp" where
  "catalog_cursor_create catalog c =
     bindc (btree_first (ca_tree catalog) c) (\<lambda>(cur, c).
     ret (\<lparr>cc_btree_cursor = cur, cc_is_end = (cur = None)\<rparr>, c))"

definition catalog_cursor_next :: "CatalogCursor \<Rightarrow> PageCache \<Rightarrow> (CatalogCursor \<times> PageCache) comp" where
  "catalog_cursor_next cur c =
     (if cc_is_end cur then ret (cur, c)
      else
        case cc_btree_cursor cur of
          None \<Rightarrow> ret (cur, c)
        | Some bc \<Rightarrow>
            bindc (btree_cursor_next bc c) (\<lambda>(bc, c).
            ret (cur\<lparr>cc_btree_cursor := Some bc, cc_is_end := \<not> btree_cursor_valid bc\<rparr>, c)))"

text \<open>
  The entry at the cursor.  Reading an entry out of a value that does not fill the local buffer
  reads bytes that were never written.
\<close>

definition catalog_cursor_get :: "CatalogCursor \<Rightarrow> PageCache \<Rightarrow> (CatalogEntry option \<times> PageCache) comp" where
  "catalog_cursor_get cur c =
     (if cc_is_end cur then ret (None, c)
      else
        case cc_btree_cursor cur of
          None \<Rightarrow> ret (None, c)
        | Some bc \<Rightarrow>
            bindc (btree_get CATALOG_ENTRY_SIZE bc c) (\<lambda>(r, c).
            case r of
              None \<Rightarrow> ret (None, c)
            | Some (key, buf) \<Rightarrow>
                if length buf < CATALOG_ENTRY_SIZE then undef else ret (Some (deserialize_entry buf), c)))"

definition catalog_cursor_valid :: "CatalogCursor \<Rightarrow> bool" where
  "catalog_cursor_valid cur \<longleftrightarrow>
     \<not> cc_is_end cur \<and> (case cc_btree_cursor cur of None \<Rightarrow> False | Some bc \<Rightarrow> btree_cursor_valid bc)"

text \<open>The bodies of the three loops: what they collect, and whether they stop.\<close>

definition lookup_body ::
    "u32 \<Rightarrow> string \<Rightarrow> CatalogEntry option \<Rightarrow> CatalogEntry option \<Rightarrow> CatalogEntry option \<times> bool" where
  "lookup_body ty name result e =
     (case e of
        None \<Rightarrow> (result, False)
      | Some e \<Rightarrow> if ce_type e = ty \<and> ce_name e = name then (Some e, True) else (result, False))"

definition catalog_lookup_type_name ::
    "Catalog \<Rightarrow> u32 \<Rightarrow> string \<Rightarrow> PageCache \<Rightarrow> (CatalogEntry option \<times> PageCache) comp" where
  "catalog_lookup_type_name catalog ty name c =
     bindc (catalog_cursor_create catalog c) (\<lambda>(cur, c).
     scan_loop catalog_cursor_valid catalog_cursor_get catalog_cursor_next (lookup_body ty name) cur None c)"

definition collect_body ::
    "(CatalogEntry \<Rightarrow> bool) \<Rightarrow> CatalogEntry list \<Rightarrow> CatalogEntry option \<Rightarrow> CatalogEntry list \<times> bool" where
  "collect_body wanted entries e =
     (case e of None \<Rightarrow> (entries, False) | Some e \<Rightarrow> (if wanted e then entries @ [e] else entries, False))"

definition catalog_get_tables :: "Catalog \<Rightarrow> PageCache \<Rightarrow> (CatalogEntry list \<times> PageCache) comp" where
  "catalog_get_tables catalog c =
     bindc (catalog_cursor_create catalog c) (\<lambda>(cur, c).
     scan_loop catalog_cursor_valid catalog_cursor_get catalog_cursor_next
       (collect_body (\<lambda>e. ce_type e = CATALOG_TYPE_TABLE)) cur [] c)"

definition catalog_get_indexes :: "Catalog \<Rightarrow> string \<Rightarrow> PageCache \<Rightarrow> (CatalogEntry list \<times> PageCache) comp" where
  "catalog_get_indexes catalog table_name c =
     bindc (catalog_cursor_create catalog c) (\<lambda>(cur, c).
     scan_loop catalog_cursor_valid catalog_cursor_get catalog_cursor_next
       (collect_body (\<lambda>e. ce_type e = CATALOG_TYPE_INDEX \<and> ce_tbl_name e = table_name)) cur [] c)"

section \<open>The encoding of entries\<close>

definition entry_ok :: "CatalogEntry \<Rightarrow> bool" where
  "entry_ok e \<longleftrightarrow> fits_field 64 (ce_name e) \<and> fits_field 64 (ce_tbl_name e) \<and> fits_field 512 (ce_sql e)"

lemma empty_field: "store_field n [] = replicate (n - 1) 0 @ [0]"
  by (simp add: store_field_def strncpy_def char_byte_def)

lemma serialize_sql:
  assumes "fits_field 512 s"
  shows "(if s \<noteq> [] \<and> hd s \<noteq> NUL then store_field 512 s else replicate 512 0) = store_field 512 s"
proof (cases s)
  case Nil
  have "replicate 511 (0 :: byte) @ [0] = replicate (Suc 511) 0" by (simp only: replicate_Suc replicate_append_same)
  with Nil show ?thesis by (simp add: empty_field)
qed (use assms in \<open>auto simp: fits_field_def\<close>)

lemma length_serialize [simp]: "length (serialize_entry e) = CATALOG_ENTRY_SIZE"
  by (simp add: serialize_entry_def CATALOG_ENTRY_SIZE_def buf_simps)

lemma get_after: "length xs \<le> off \<Longrightarrow> get_at off n (xs @ ys) = get_at (off - length xs) n ys"
  and get_first: "length xs = n \<Longrightarrow> get_at 0 n (xs @ ys) = xs"
  by (simp_all add: get_at_def)

lemma entry_roundtrip: "entry_ok e \<Longrightarrow> deserialize_entry (serialize_entry e) = e"
  by (simp add: serialize_entry_def serialize_sql entry_ok_def deserialize_entry_def get_after get_first
    get_first[of _ _ "[]", simplified] buf_simps enc_simps)

end
