(* ===== verification/Catalog_Props.thy ===== *)
theory Catalog_Props
  imports Catalog
begin

text \<open>
  The catalog as a list of keyed entries.  The cursor of the catalog satisfies the contract of
  cursors, so its three loops compute a search and two filters of that list; insertion appends
  an entry unless its key, which is the length of the name, is taken or six entries are stored.
\<close>

section \<open>The cursor of the catalog\<close>

definition catalog_cursor_at :: "PageCache \<Rightarrow> CatalogCursor \<Rightarrow> CatalogEntry list \<Rightarrow> bool" where
  "catalog_cursor_at c cur es \<longleftrightarrow>
     (\<exists>bc kvs. cc_btree_cursor cur = Some bc \<and> tree_cursor_at CATALOG_ENTRY_SIZE c bc kvs \<and>
        (\<forall>kv \<in> set kvs. length (snd kv) = CATALOG_ENTRY_SIZE) \<and> es = map (deserialize_entry \<circ> snd) kvs \<and>
        (cc_is_end cur \<longrightarrow> kvs = []))"

interpretation entries: cursor catalog_cursor_at cache_step catalog_cursor_valid catalog_cursor_get catalog_cursor_next
proof (unfold_locales, goal_cases)
  case (1 c)
  then show ?case by (rule tree.keeps_refl)
next
  case (2 c d e)
  then show ?case by (rule tree.keeps_trans)
next
  case (3 c cur)
  then show ?case using tree.at_end by (auto simp: catalog_cursor_at_def catalog_cursor_valid_def)
next
  case (4 c cur e es)
  then obtain bc kv kvs where k: "cc_btree_cursor cur = Some bc" "tree_cursor_at CATALOG_ENTRY_SIZE c bc (kv # kvs)"
    "\<forall>kv \<in> set (kv # kvs). length (snd kv) = CATALOG_ENTRY_SIZE" "e = deserialize_entry (snd kv)"
    "es = map (deserialize_entry \<circ> snd) kvs" "\<not> cc_is_end cur"
    by (auto simp: catalog_cursor_at_def Cons_eq_map_conv)
  obtain c' where c': "btree_cursor_valid bc" "btree_get CATALOG_ENTRY_SIZE bc c = ret (Some kv, c')"
    "tree_cursor_at CATALOG_ENTRY_SIZE c' bc (kv # kvs)" "cache_step c c'"
    using tree.at_entry[OF k(2)] by blast
  have "catalog_cursor_get cur c = ret (Some e, c')"
    using k c'(2) by (simp add: catalog_cursor_get_def case_prod_unfold)
  moreover have "catalog_cursor_at c' cur (e # es)"
    unfolding catalog_cursor_at_def using k c'(3) by (intro exI[of _ bc] exI[of _ "kv # kvs"]) simp
  ultimately show ?case using k(1,6) c'(1,4) by (auto simp: catalog_cursor_valid_def)
next
  case (5 c cur e es)
  then obtain bc kv kvs where k: "cc_btree_cursor cur = Some bc" "tree_cursor_at CATALOG_ENTRY_SIZE c bc (kv # kvs)"
    "\<forall>kv \<in> set (kv # kvs). length (snd kv) = CATALOG_ENTRY_SIZE"
    "es = map (deserialize_entry \<circ> snd) kvs" "\<not> cc_is_end cur"
    by (auto simp: catalog_cursor_at_def Cons_eq_map_conv)
  obtain bc' c' where c': "btree_cursor_next bc c = ret (bc', c')" "tree_cursor_at CATALOG_ENTRY_SIZE c' bc' kvs" "cache_step c c'"
    using tree.at_next[OF k(2)] by blast
  let ?cur = "cur\<lparr>cc_btree_cursor := Some bc', cc_is_end := \<not> btree_cursor_valid bc'\<rparr>"
  have "\<not> btree_cursor_valid bc' \<longrightarrow> kvs = []"
    using c'(2) tree.at_entry by (cases kvs) auto
  then have "catalog_cursor_at c' ?cur es"
    unfolding catalog_cursor_at_def using k c'(2) by (intro exI[of _ bc'] exI[of _ kvs]) auto
  moreover have "catalog_cursor_next cur c = ret (?cur, c')"
    using k(1,5) c'(1) by (simp add: catalog_cursor_next_def)
  ultimately show ?case using c'(3) by blast
qed

section \<open>The catalog as a list\<close>

definition catalog_rep :: "Catalog \<Rightarrow> PageCache \<Rightarrow> (u64 \<times> CatalogEntry) list \<Rightarrow> bool" where
  "catalog_rep catalog c kes \<longleftrightarrow> (\<forall>ke \<in> set kes. entry_ok (snd ke)) \<and>
     tree_rep (ca_tree catalog) c (map (apsnd serialize_entry) kes)"

text \<open>Every loop over the catalog computes on the list of its entries.\<close>

lemma catalog_scan:
  assumes r: "catalog_rep catalog c kes"
  obtains cur c1 c2 where "catalog_cursor_create catalog c = ret (cur, c1)"
    "scan_loop catalog_cursor_valid catalog_cursor_get catalog_cursor_next f cur acc c1 =
       ret (fold_stop f acc (map snd kes), c2)"
    "catalog_rep catalog c2 kes" "cache_keeps c c2"
proof -
  let ?t = "ca_tree catalog" and ?kvs = "map (apsnd serialize_entry) kes"
  have t: "tree_rep ?t c ?kvs" and ok: "\<forall>ke \<in> set kes. entry_ok (snd ke)"
    using r by (simp_all add: catalog_rep_def)
  obtain bc c1 where 1: "btree_first ?t c = ret (Some bc, c1)" "tree_cursor_at CATALOG_ENTRY_SIZE c1 bc ?kvs"
    "tree_rep ?t c1 ?kvs" "resident c1 (bt_root_page ?t)" "cache_keeps c c1"
    by (rule first_cursor[OF t, of CATALOG_ENTRY_SIZE]) auto
  let ?cur = "\<lparr>cc_btree_cursor = Some bc, cc_is_end = False\<rparr>"
  have es: "map (deserialize_entry \<circ> snd) ?kvs = map snd kes" using ok by (auto simp: entry_roundtrip)
  have "catalog_cursor_at c1 ?cur (map snd kes)"
    unfolding catalog_cursor_at_def using 1(2) es by (intro exI[of _ bc] exI[of _ ?kvs]) auto
  from entries.scan[OF this, of f acc] obtain c2 where
    2: "scan_loop catalog_cursor_valid catalog_cursor_get catalog_cursor_next f ?cur acc c1 =
      ret (fold_stop f acc (map snd kes), c2)" "cache_step c1 c2" by (elim exE conjE)
  have "tree_rep ?t c2 ?kvs"
    using tree_rep_keeps[OF 1(3) _ 1(4)] 2(2) tree_repD(3)[OF 1(3)] by (simp add: cache_step_def)
  moreover have "cache_keeps c c2" using 1(5) 2(2) keeps_pages_trans by (auto simp: cache_step_def)
  ultimately show thesis using that[of ?cur c1 c2] 1(1) 2(1) ok by (simp add: catalog_cursor_create_def catalog_rep_def)
qed

lemma fold_lookup:
  "fold_stop (lookup_body ty name) None es = find (\<lambda>e. ce_type e = ty \<and> ce_name e = name) es"
  by (induction es) (simp_all add: lookup_body_def)

lemma fold_collect: "fold_stop (collect_body P) acc es = acc @ filter P es"
  by (induction es arbitrary: acc) (simp_all add: collect_body_def)

lemma lookup_eval:
  assumes "catalog_rep catalog c kes"
  obtains c' where "catalog_lookup_type_name catalog ty name c =
      ret (find (\<lambda>e. ce_type e = ty \<and> ce_name e = name) (map snd kes), c')"
    "catalog_rep catalog c' kes" "cache_keeps c c'"
proof -
  obtain cur c1 c2 where "catalog_cursor_create catalog c = ret (cur, c1)"
    "scan_loop catalog_cursor_valid catalog_cursor_get catalog_cursor_next (lookup_body ty name) cur None c1 =
       ret (fold_stop (lookup_body ty name) None (map snd kes), c2)"
    "catalog_rep catalog c2 kes" "cache_keeps c c2"
    by (rule catalog_scan[OF assms])
  then show thesis using that by (simp add: catalog_lookup_type_name_def fold_lookup)
qed

section \<open>Insertion\<close>

text \<open>A page has room for six entries.\<close>

lemma leaf_used_entries:
  "leaf_used (map (apsnd serialize_entry) kes) = 10 + 670 * length kes"
proof -
  have "cells_len (map (apsnd serialize_entry) kes) = 668 * length kes"
    by (induction kes) (simp_all add: cells_len_def cell_bytes_def CATALOG_ENTRY_SIZE_def)
  then show ?thesis by (simp add: leaf_used_def)
qed

definition catalog_add :: "CatalogEntry \<Rightarrow> (u64 \<times> CatalogEntry) list \<Rightarrow> (u64 \<times> CatalogEntry) list option" where
  "catalog_add e kes =
     (if catalog_key e \<in> fst ` set kes then Some kes
      else if length kes < 6 then Some (kes @ [(catalog_key e, e)])
      else None)"

lemma insert_spec_entries:
  "insert_spec k (serialize_entry e) (map (apsnd serialize_entry) kes) =
     (if k \<in> fst ` set kes then Some (map (apsnd serialize_entry) kes)
      else if length kes < 6 then Some (map (apsnd serialize_entry) (kes @ [(k, e)])) else None)"
proof -
  have "fst ` set (map (apsnd serialize_entry) kes) = fst ` set kes" by (force simp: image_image)
  moreover have "leaf_used (map (apsnd serialize_entry) kes @ [(k, serialize_entry e)]) = 10 + 670 * Suc (length kes)"
    using leaf_used_entries[of "kes @ [(k, e)]"] by simp
  ultimately show ?thesis by (simp add: insert_spec_def PAGE_SIZE_def)
qed

lemma insert_entry_eval:
  assumes r: "catalog_rep catalog c kes" and e: "entry_ok e"
  obtains c' where "btree_insert (ca_tree catalog) k (serialize_entry e) (of_nat CATALOG_ENTRY_SIZE) c =
      ret (k \<in> fst ` set kes \<or> length kes < 6, c')"
    "catalog_rep catalog c' (if k \<in> fst ` set kes \<or> 6 \<le> length kes then kes else kes @ [(k, e)])"
    "others_kept (ca_tree catalog) c c'" "resident c' (bt_root_page (ca_tree catalog))"
proof -
  have t: "tree_rep (ca_tree catalog) c (map (apsnd serialize_entry) kes)" using r by (simp add: catalog_rep_def)
  have len: "length (serialize_entry e) = unat (of_nat CATALOG_ENTRY_SIZE :: u32)"
    "unat (of_nat CATALOG_ENTRY_SIZE :: u32) < 65000" by (simp_all add: CATALOG_ENTRY_SIZE_def)
  show thesis
    by (rule insert_eval[OF t len, of k], rule that)
      (use r e in \<open>auto simp: insert_spec_entries catalog_rep_def split: if_splits\<close>)
qed

section \<open>Properties\<close>

lemma open_eval:
  assumes "can_create c"
  obtains catalog c' where "catalog_open c = ret (Some catalog, c')" "catalog_rep catalog c' []"
    "resident c' (bt_root_page (ca_tree catalog))" "\<not> resident c (bt_root_page (ca_tree catalog))"
    "others_kept (ca_tree catalog) c c'"
proof -
  obtain n c' where n: "btree_create c = ret (Some (btree_open n), c')" "tree_rep (btree_open n) c' []" "resident c' n"
    "\<not> resident c n" "others_kept (btree_open n) c c'" by (rule create_eval[OF assms])
  then show thesis
    by (intro that[of "\<lparr>ca_tree = btree_open n, ca_is_open = True\<rparr>" c'])
      (simp_all add: catalog_open_def catalog_rep_def btree_open_def)
qed

lemma catalog_insert_eval:
  assumes "catalog_rep catalog c kes" "entry_ok e"
  obtains c' where "catalog_insert catalog e c = ret (insert_status (catalog_add e kes \<noteq> None), c')"
    "catalog_rep catalog c' (case catalog_add e kes of Some kes' \<Rightarrow> kes' | None \<Rightarrow> kes)"
    "others_kept (ca_tree catalog) c c'" "resident c' (bt_root_page (ca_tree catalog))"
proof -
  let ?k = "catalog_key e"
  obtain c' where c': "btree_insert (ca_tree catalog) ?k (serialize_entry e) (of_nat CATALOG_ENTRY_SIZE) c =
      ret (?k \<in> fst ` set kes \<or> length kes < 6, c')"
    "catalog_rep catalog c' (if ?k \<in> fst ` set kes \<or> 6 \<le> length kes then kes else kes @ [(?k, e)])"
    "others_kept (ca_tree catalog) c c'" "resident c' (bt_root_page (ca_tree catalog))" by (rule insert_entry_eval[OF assms])
  show thesis using that[of c'] c'
    by (cases "?k \<in> fst ` set kes"; cases "length kes < 6") (simp_all add: catalog_insert_def catalog_add_def)
qed

lemma fresh_catalog:
  obtains catalog c where "catalog_rep catalog c []" "coherent c"
proof -
  obtain pg where "can_create (page_cache_create 256 64 (Some pg))" "coherent (page_cache_create 256 64 (Some pg))"
    by (rule fresh_can_create)
  then show thesis using that by (metis open_eval others_kept_def)
qed

definition demo_table :: "string \<Rightarrow> CatalogEntry" where
  "demo_table name =
     \<lparr>ce_type = CATALOG_TYPE_TABLE, ce_name = name, ce_tbl_name = name, ce_sql = [], ce_root_page = 7, ce_is_valid = True\<rparr>"

lemma demo_table_ok: "entry_ok (demo_table ''ab'')" "entry_ok (demo_table ''cd'')"
  by (simp_all add: demo_table_def entry_ok_def fits_field_def)

lemma demo_catalog:
  obtains catalog c where "catalog_rep catalog c [(3, demo_table ''ab'')]"
proof -
  obtain catalog c where r: "catalog_rep catalog c []" by (rule fresh_catalog)
  show thesis by (rule catalog_insert_eval[OF r demo_table_ok(1)], rule that)
    (simp add: catalog_add_def catalog_key_def demo_table_def)
qed

text \<open>An entry of the catalog survives its encoding: a table or an index whose texts fit into their fields
  is read back from its 652 bytes as it was.\<close>

theorem catalog_entry_roundtrip:
  assumes "entry_ok e"
  shows "deserialize_entry (serialize_entry e) = e \<and> length (serialize_entry e) = CATALOG_ENTRY_SIZE"
  using entry_roundtrip[OF assms] by simp

theorem catalog_entry_roundtrip_witness:
  "deserialize_entry (serialize_entry (demo_table ''ab'')) = demo_table ''ab''"
  using catalog_entry_roundtrip[OF demo_table_ok(1)] by simp

text \<open>C7: Insertion into the catalog refines adding to a list of keyed entries, where the key is made from the length
  of the name: it returns 0 without storing anything when the key is taken, appends the entry while fewer than six
  are stored, and fails from then on.  Pages of other trees keep their contents.\<close>

theorem catalog_insert_refines:
  assumes "catalog_rep catalog c kes" "entry_ok e"
  shows "\<exists>c'. catalog_insert catalog e c = ret (insert_status (catalog_add e kes \<noteq> None), c') \<and>
    catalog_rep catalog c' (case catalog_add e kes of Some kes' \<Rightarrow> kes' | None \<Rightarrow> kes) \<and>
    others_kept (ca_tree catalog) c c'"
  by (rule catalog_insert_eval[OF assms]) blast

theorem catalog_insert_refines_witness:
  "\<exists>catalog c c'. catalog_rep catalog c [(3, demo_table ''ab'')] \<and>
    catalog_insert catalog (demo_table ''cd'') c = ret (0, c') \<and> catalog_rep catalog c' [(3, demo_table ''ab'')]"
proof -
  obtain catalog c where r: "catalog_rep catalog c [(3, demo_table ''ab'')]" by (rule demo_catalog)
  have "catalog_add (demo_table ''cd'') [(3, demo_table ''ab'')] = Some [(3, demo_table ''ab'')]"
    by (simp add: catalog_add_def catalog_key_def demo_table_def)
  then show ?thesis using catalog_insert_refines[OF r demo_table_ok(2)] r by (auto simp: insert_status_def)
qed

text \<open>C8: A lookup after an insertion that reported success finds an entry of that type and name that was there before,
  else the entry inserted, but nothing at all when an entry of the same type had a name of the same length.\<close>

theorem catalog_insert_lookup:
  assumes "catalog_rep catalog c kes" "entry_ok e" "catalog_insert catalog e c = ret (0, c1)"
  shows "\<exists>c2. catalog_lookup_type_name catalog (ce_type e) (ce_name e) c1 =
    ret (case find (\<lambda>e'. ce_type e' = ce_type e \<and> ce_name e' = ce_name e) (map snd kes) of
           Some e' \<Rightarrow> Some e'
         | None \<Rightarrow> if catalog_key e \<in> fst ` set kes then None else Some e, c2)"
proof -
  obtain c' where i: "catalog_insert catalog e c = ret (insert_status (catalog_add e kes \<noteq> None), c')"
    "catalog_rep catalog c' (case catalog_add e kes of Some kes' \<Rightarrow> kes' | None \<Rightarrow> kes)"
    by (rule catalog_insert_eval[OF assms(1,2)])
  then obtain kes' where k: "catalog_add e kes = Some kes'" "catalog_rep catalog c1 kes'"
    using assms(3) by (auto simp: insert_status_def split: if_splits)
  obtain c2 where "catalog_lookup_type_name catalog (ce_type e) (ce_name e) c1 =
      ret (find (\<lambda>e'. ce_type e' = ce_type e \<and> ce_name e' = ce_name e) (map snd kes'), c2)"
    by (rule lookup_eval[OF k(2)])
  moreover have "find P (xs @ [e]) = (case find P xs of Some y \<Rightarrow> Some y | None \<Rightarrow> Some e)"
    if "P e" for P and xs :: "CatalogEntry list"
    using that by (induction xs) auto
  ultimately show ?thesis using k(1) by (auto simp: catalog_add_def split: if_splits option.splits)
qed

theorem catalog_insert_lookup_witness:
  "\<exists>catalog c c1 c2. catalog_rep catalog c [(3, demo_table ''ab'')] \<and>
    catalog_insert catalog (demo_table ''cd'') c = ret (0, c1) \<and>
    catalog_lookup_type_name catalog CATALOG_TYPE_TABLE ''cd'' c1 = ret (None, c2)"
proof -
  obtain catalog c where r: "catalog_rep catalog c [(3, demo_table ''ab'')]" by (rule demo_catalog)
  obtain c1 where c1: "catalog_insert catalog (demo_table ''cd'') c = ret (0, c1)"
    by (rule catalog_insert_eval[OF r demo_table_ok(2)])
      (simp add: catalog_add_def catalog_key_def demo_table_def insert_status_def)
  from catalog_insert_lookup[OF r demo_table_ok(2) this] obtain c2 where
    "catalog_lookup_type_name catalog CATALOG_TYPE_TABLE ''cd'' c1 = ret (None, c2)"
    by (auto simp: catalog_key_def demo_table_def)
  with r c1 show ?thesis by blast
qed

text \<open>Listing the tables, or the indexes of a table, gives exactly the entries of that kind, in the order of insertion.\<close>

theorem catalog_listing:
  assumes "catalog_rep catalog c kes"
  shows "(\<exists>c'. catalog_get_tables catalog c = ret (filter (\<lambda>e. ce_type e = CATALOG_TYPE_TABLE) (map snd kes), c')) \<and>
    (\<exists>c'. catalog_get_indexes catalog name c =
      ret (filter (\<lambda>e. ce_type e = CATALOG_TYPE_INDEX \<and> ce_tbl_name e = name) (map snd kes), c'))"
proof (rule conjI, goal_cases)
  case 1
  show ?case by (rule catalog_scan[OF assms, of "collect_body (\<lambda>e. ce_type e = CATALOG_TYPE_TABLE)" "[]"])
    (simp add: catalog_get_tables_def fold_collect)
next
  case 2
  show ?case
    by (rule catalog_scan[OF assms, of "collect_body (\<lambda>e. ce_type e = CATALOG_TYPE_INDEX \<and> ce_tbl_name e = name)" "[]"])
      (simp add: catalog_get_indexes_def fold_collect)
qed

theorem catalog_listing_witness:
  "\<exists>catalog c c'. catalog_rep catalog c [(3, demo_table ''ab'')] \<and>
    catalog_get_tables catalog c = ret ([demo_table ''ab''], c')"
proof -
  obtain catalog c where r: "catalog_rep catalog c [(3, demo_table ''ab'')]" by (rule demo_catalog)
  with catalog_listing[OF r, of "[]"] show ?thesis by (auto simp: demo_table_def)
qed

end
