(* ===== verification/Database.thy ===== *)
theory Database
  imports Catalog_Props
begin

text \<open>
  The database handle (\<^verbatim>\<open>sql/storage.c\<close>): a pager, the cache over it and the catalog in it.  The
  pager is owned by the cache here, since every access goes through it.  The arguments of
  \<^verbatim>\<open>tinydb_open\<close> are what the system gives for the path: the file opened for reading and writing,
  the file opened for reading, and the file created empty; \<^verbatim>\<open>DEFAULT_CACHE_SIZE\<close> belongs to the
  generated configuration and is an argument as well.
\<close>

record Storage =
  st_cache :: PageCache
  st_catalog :: Catalog
  st_path :: "string option"
  st_is_open :: bool

definition open_pager :: "string option \<Rightarrow> fdesc option \<Rightarrow> fdesc option \<Rightarrow> fdesc option \<Rightarrow> Pager option" where
  "open_pager path rdwr rdonly created =
     (case path of
        Some _ \<Rightarrow> (case pager_open rdwr rdonly of Some pg \<Rightarrow> Some pg | None \<Rightarrow> pager_create created)
      | None \<Rightarrow> pager_create created)"

definition tinydb_open ::
    "int \<Rightarrow> string option \<Rightarrow> fdesc option \<Rightarrow> fdesc option \<Rightarrow> fdesc option \<Rightarrow> (int \<times> Storage option) comp" where
  "tinydb_open default_cache_size path rdwr rdonly created =
     (case open_pager path rdwr rdonly created of
        None \<Rightarrow> ret (code ERR_STORAGE_IO, None)
      | Some pg \<Rightarrow>
          bindc (catalog_open (page_cache_create default_cache_size 256 (Some pg))) (\<lambda>(catalog, cache).
          case catalog of
            None \<Rightarrow> bindc (page_cache_destroy cache) (\<lambda>_. ret (code ERR_STORAGE_IO, None))
          | Some catalog \<Rightarrow>
              ret (code SUCCESS,
                   Some \<lparr>st_cache = cache, st_catalog = catalog, st_path = path, st_is_open = True\<rparr>)))"

text \<open>Closing leaves the file behind.\<close>

definition tinydb_close :: "Storage \<Rightarrow> fdesc option comp" where
  "tinydb_close storage =
     bindc (catalog_close (st_catalog storage) (st_cache storage)) (\<lambda>(catalog, cache).
     bindc (page_cache_destroy cache) (\<lambda>pager. ret (map_option pager_close pager)))"

definition check_open :: "Storage option \<Rightarrow> int" where
  "check_open storage =
     (case storage of
        None \<Rightarrow> code ERR_INTERNAL
      | Some s \<Rightarrow> if \<not> st_is_open s then code ERR_INTERNAL else code SUCCESS)"

definition tinydb_begin :: "Storage option \<Rightarrow> int" where
  "tinydb_begin storage = check_open storage"

definition tinydb_commit :: "Storage option \<Rightarrow> int" where
  "tinydb_commit storage = check_open storage"

definition tinydb_rollback :: "Storage option \<Rightarrow> int" where
  "tinydb_rollback storage = check_open storage"

text \<open>The operations on rows and schemas that are left open in the code: they return and do nothing.\<close>

definition tinydb_insert :: "Storage option \<Rightarrow> string \<Rightarrow> int" where
  "tinydb_insert storage table = code SUCCESS"

definition tinydb_update :: "Storage option \<Rightarrow> string \<Rightarrow> int" where
  "tinydb_update storage table = code SUCCESS"

definition tinydb_delete :: "Storage option \<Rightarrow> string \<Rightarrow> int" where
  "tinydb_delete storage table = code SUCCESS"

definition tinydb_select :: "Storage option \<Rightarrow> string \<Rightarrow> int" where
  "tinydb_select storage table = code SUCCESS"

definition tinydb_create_table :: "Storage option \<Rightarrow> string \<Rightarrow> int" where
  "tinydb_create_table storage sql = code SUCCESS"

definition tinydb_drop_table :: "Storage option \<Rightarrow> string \<Rightarrow> int" where
  "tinydb_drop_table storage table = code SUCCESS"

definition tinydb_create_index :: "Storage option \<Rightarrow> string \<Rightarrow> int" where
  "tinydb_create_index storage sql = code SUCCESS"

definition tinydb_drop_index :: "Storage option \<Rightarrow> string \<Rightarrow> string \<Rightarrow> int" where
  "tinydb_drop_index storage table index_name = code SUCCESS"

record Connection =
  cn_storage :: Storage
  cn_is_connected :: bool

definition tinydb_connect :: "Storage option \<Rightarrow> Connection option" where
  "tinydb_connect storage =
     (case storage of None \<Rightarrow> None | Some s \<Rightarrow> Some \<lparr>cn_storage = s, cn_is_connected = True\<rparr>)"

definition tinydb_set_isolation :: "Connection option \<Rightarrow> bool \<Rightarrow> int" where
  "tinydb_set_isolation conn serializable = code SUCCESS"

definition tinydb_error :: "Storage option \<Rightarrow> Error option" where
  "tinydb_error storage = None"

definition storage_get_catalog :: "Storage option \<Rightarrow> Catalog option" where
  "storage_get_catalog storage = map_option st_catalog storage"

definition storage_get_cache :: "Storage option \<Rightarrow> PageCache option" where
  "storage_get_cache storage = map_option st_cache storage"

definition storage_get_pager :: "Storage option \<Rightarrow> Pager option" where
  "storage_get_pager storage = (case storage of None \<Rightarrow> None | Some s \<Rightarrow> pc_pager (st_cache s))"

section \<open>Opening\<close>

lemma can_create_new:
  assumes "pager_inv pg []" "p_page_count pg + 1 \<noteq> 0"
  shows "can_create (page_cache_create d 256 (Some pg))"
  using cache_create_ready[of 256 pg d, OF _ pager_inv_ready[OF assms(1)]] assms by (simp add: can_create_def)

lemma open_storage:
  assumes "open_pager path rdwr rdonly created = Some pg" "pager_inv pg []" "p_page_count pg + 1 \<noteq> 0"
  obtains s where "tinydb_open d path rdwr rdonly created = ret (0, Some s)" "st_is_open s"
    "catalog_rep (st_catalog s) (st_cache s) []" "resident (st_cache s) (bt_root_page (ca_tree (st_catalog s)))"
    "coherent (st_cache s)" "p_page_count pg + 2 \<noteq> 0 \<Longrightarrow> can_create (st_cache s)"
proof -
  let ?c = "page_cache_create d 256 (Some pg)"
  have can: "can_create ?c" by (rule can_create_new[OF assms(2,3)])
  obtain catalog c where c: "catalog_open ?c = ret (Some catalog, c)" "catalog_rep catalog c []"
    "resident c (bt_root_page (ca_tree catalog))" "others_kept (ca_tree catalog) ?c c"
    by (rule open_eval[OF can])
  have "coherent c" using c(4) coherent_create by (auto simp: others_kept_def)
  moreover have "can_create c" if "p_page_count pg + 2 \<noteq> 0"
  proof (rule create_again[OF can])
    show "btree_create ?c = ret (Some (ca_tree catalog), c)"
      using c(1) by (auto simp: catalog_open_def bindc_eq_ret split: option.splits)
    show "cache_ready c" using c(2) by (simp add: catalog_rep_def tree_rep_def)
  qed (use that in \<open>simp_all add: page_cache_create_def Let_def PAGER_MAX_PAGES_def\<close>)
  ultimately show thesis using c assms(1)
    by (intro that[of "\<lparr>st_cache = c, st_catalog = catalog, st_path = path, st_is_open = True\<rparr>"])
      (simp_all add: tinydb_open_def)
qed

lemma fresh_pager:
  obtains pg where "open_pager None None None (Some fresh_file) = Some pg" "pager_inv pg []" "p_page_count pg = 1"
  by (rule pager_create_inv[OF fresh_file_ok]) (simp add: open_pager_def)

end
