(* ===== verification/Executor.thy ===== *)
theory Executor
  imports Database Expression
begin

text \<open>
  The statement executor (\<^verbatim>\<open>sql/executor.c\<close>).  A statement changes the executor and, through it,
  the database handle; the static row counter of \<^verbatim>\<open>executor_exec_insert\<close> is a field of the executor
  here.  Buffers on the stack have their sizes, and writing behind them is undefined.  The helpers
  for the clauses of a query work on result sets.
\<close>

section \<open>Result sets\<close>

record ResultSet =
  rs_rows :: "Value list list"
  rs_row_count :: int
  rs_column_count :: nat
  rs_capacity :: int

definition result_set_create :: "int \<Rightarrow> ResultSet" where
  "result_set_create initial_capacity =
     \<lparr>rs_rows = [], rs_row_count = 0, rs_column_count = 0,
      rs_capacity = (if initial_capacity > 0 then initial_capacity else 16)\<rparr>"

definition result_set_add_row :: "Value list \<Rightarrow> ResultSet \<Rightarrow> (int \<times> ResultSet) comp" where
  "result_set_add_row row rs =
     (let rs = (if rs_capacity rs \<le> rs_row_count rs then rs\<lparr>rs_capacity := rs_capacity rs * 2\<rparr> else rs);
          n = nat (rs_row_count rs) in
      if rs_row_count rs < 0 \<or> length (rs_rows rs) < n then undef
      else ret (0, rs\<lparr>rs_rows := take n (rs_rows rs) @ [row] @ drop (n + 1) (rs_rows rs),
                      rs_row_count := rs_row_count rs + 1\<rparr>))"

section \<open>The executor and transactions\<close>

datatype TxnState = TXN_NONE | TXN_ACTIVE | TXN_COMMITTED | TXN_ROLLED_BACK

record Executor =
  ex_storage :: "Storage option"
  ex_in_transaction :: bool
  ex_txn_state :: TxnState
  ex_rows_read :: u64
  ex_rows_written :: u64
  ex_scans_performed :: u64
  ex_rowid_counter :: u64

definition executor_create :: "u64 \<Rightarrow> Storage option \<Rightarrow> Executor" where
  "executor_create rowid_counter storage =
     \<lparr>ex_storage = storage, ex_in_transaction = False, ex_txn_state = TXN_NONE, ex_rows_read = 0,
      ex_rows_written = 0, ex_scans_performed = 0, ex_rowid_counter = rowid_counter\<rparr>"

definition executor_exec_begin :: "Executor \<Rightarrow> int \<times> Executor" where
  "executor_exec_begin exec =
     (if ex_in_transaction exec then (code ERR_TX_ALREADY_ACTIVE, exec)
      else
        let result = tinydb_begin (ex_storage exec) in
        (result, if result = code SUCCESS
                 then exec\<lparr>ex_in_transaction := True, ex_txn_state := TXN_ACTIVE\<rparr> else exec))"

definition executor_exec_commit :: "Executor \<Rightarrow> int \<times> Executor" where
  "executor_exec_commit exec =
     (if \<not> ex_in_transaction exec then (code ERR_TX_NOT_ACTIVE, exec)
      else
        let result = tinydb_commit (ex_storage exec) in
        (result, if result = code SUCCESS
                 then exec\<lparr>ex_in_transaction := False, ex_txn_state := TXN_COMMITTED\<rparr> else exec))"

definition executor_exec_rollback :: "Executor \<Rightarrow> int \<times> Executor" where
  "executor_exec_rollback exec =
     (if \<not> ex_in_transaction exec then (code ERR_TX_NOT_ACTIVE, exec)
      else
        let result = tinydb_rollback (ex_storage exec) in
        (result, if result = code SUCCESS
                 then exec\<lparr>ex_in_transaction := False, ex_txn_state := TXN_ROLLED_BACK\<rparr> else exec))"

definition executor_exec_transaction :: "Executor \<Rightarrow> TransactionType \<Rightarrow> int \<times> Executor" where
  "executor_exec_transaction exec ty =
     (case ty of
        TX_BEGIN \<Rightarrow> executor_exec_begin exec
      | TX_COMMIT \<Rightarrow> executor_exec_commit exec
      | TX_ROLLBACK \<Rightarrow> executor_exec_rollback exec)"

section \<open>Tables\<close>

definition c_text :: "string \<Rightarrow> string" where
  "c_text s = takeWhile (\<lambda>c. c \<noteq> NUL) s"

text \<open>
  \<^verbatim>\<open>snprintf\<close> at an offset of the array of 512 characters: the offset grows by the length of the
  text even where the text is cut off, and behind the end the room left wraps around.
\<close>

definition sql_append :: "string \<Rightarrow> string \<times> nat \<Rightarrow> (string \<times> nat) comp" where
  "sql_append s st =
     (case st of (sql, offset) \<Rightarrow>
        if offset < 512 then ret (take 511 (sql @ s), offset + length s)
        else if offset = 512 then ret (sql, offset + length s)
        else undef)"

definition column_type_sql :: "ColumnType \<Rightarrow> string" where
  "column_type_sql ty =
     (case ty of COL_TYPE_INTEGER \<Rightarrow> ''INT'' | COL_TYPE_FLOAT \<Rightarrow> ''FLOAT'' | COL_TYPE_TEXT \<Rightarrow> ''TEXT''
      | COL_TYPE_BLOB \<Rightarrow> ''BLOB'')"

definition column_sql :: "AstNode ColumnDef \<Rightarrow> bool \<Rightarrow> string \<times> nat \<Rightarrow> (string \<times> nat) comp" where
  "column_sql col first st =
     bindc (if first then ret st else sql_append '', '' st) (\<lambda>st.
     bindc (sql_append (c_text (cd_name col) @ '' '') st) (\<lambda>st.
     bindc (sql_append (column_type_sql (cd_type col)) st) (\<lambda>st.
     bindc (if cd_not_null col then sql_append '' NOT NULL'' st else ret st) (\<lambda>st.
     if cd_primary_key col then sql_append '' PRIMARY KEY'' st else ret st))))"

fun columns_sql :: "AstNode ColumnDef list \<Rightarrow> bool \<Rightarrow> string \<times> nat \<Rightarrow> (string \<times> nat) comp" where
  "columns_sql [] first st = ret st"
| "columns_sql (col # cols) first st =
     (if snd st < 512 - 50 then bindc (column_sql col first st) (columns_sql cols False) else ret st)"

definition create_table_sql :: "string \<Rightarrow> AstNode ColumnDef list \<Rightarrow> string comp" where
  "create_table_sql table_name columns =
     (let start = ''CREATE TABLE '' @ c_text table_name @ '' ('' in
      bindc (columns_sql columns True (take 511 start, length start)) (\<lambda>st.
      bindc (if snd st < 512 - 2 then sql_append '')'' st else ret st) (\<lambda>st. ret (fst st))))"

text \<open>The handle, when it and its parts are there; and the executor with a changed cache.\<close>

definition storage_parts :: "Executor \<Rightarrow> Storage option" where
  "storage_parts exec =
     (case ex_storage exec of
        None \<Rightarrow> None
      | Some s \<Rightarrow> if storage_get_pager (Some s) = None then None else Some s)"

definition with_cache :: "Executor \<Rightarrow> Storage \<Rightarrow> PageCache \<Rightarrow> Executor" where
  "with_cache exec s c = exec\<lparr>ex_storage := Some (s\<lparr>st_cache := c\<rparr>)\<rparr>"

definition table_entry :: "string \<Rightarrow> string \<Rightarrow> u32 \<Rightarrow> CatalogEntry" where
  "table_entry table_name sql root_page =
     \<lparr>ce_type = CATALOG_TYPE_TABLE, ce_name = take 63 (c_text table_name),
      ce_tbl_name = take 63 (c_text table_name), ce_sql = take 511 (c_text sql), ce_root_page = root_page,
      ce_is_valid = True\<rparr>"

text \<open>The tree is closed before the entry is stored, and once more afterwards.\<close>

definition executor_exec_create_table :: "Executor \<Rightarrow> string \<Rightarrow> AstNode ColumnDef list \<Rightarrow> (int \<times> Executor) comp" where
  "executor_exec_create_table exec table_name columns =
     (case storage_parts exec of
        None \<Rightarrow> ret (code ERR_INTERNAL, exec)
      | Some s \<Rightarrow>
          bindc (create_table_sql table_name columns) (\<lambda>sql.
          bindc (btree_create (st_cache s)) (\<lambda>(table_tree, c).
          case table_tree of
            None \<Rightarrow> ret (code ERR_STORAGE_IO, with_cache exec s c)
          | Some table_tree \<Rightarrow>
              let root_page = bt_root_page table_tree in
              bindc (btree_close table_tree c) (\<lambda>(table_tree, c).
              bindc (catalog_insert (st_catalog s) (table_entry table_name sql root_page) c) (\<lambda>(r, c).
              bindc (btree_close table_tree c) (\<lambda>(_, c).
              ret (r, with_cache exec s c)))))))"

definition executor_exec_drop_table :: "Executor \<Rightarrow> string \<Rightarrow> int" where
  "executor_exec_drop_table exec table_name = code SUCCESS"

definition executor_exec_create_index :: "Executor \<Rightarrow> string \<Rightarrow> int" where
  "executor_exec_create_index exec index_name = code SUCCESS"

definition executor_exec_drop_index :: "Executor \<Rightarrow> string \<Rightarrow> int" where
  "executor_exec_drop_index exec index_name = code SUCCESS"

section \<open>Rows\<close>

definition VALUE_BUF_SIZE :: nat where
  "VALUE_BUF_SIZE = 1024"

definition put_bytes :: "bytes \<Rightarrow> bytes \<Rightarrow> bytes comp" where
  "put_bytes bs buf = (if length buf + length bs \<le> VALUE_BUF_SIZE then ret (buf @ bs) else undef)"

definition value_bytes :: "AstNode Expression \<Rightarrow> bytes" where
  "value_bytes e =
     (case e of
        EXPR_LITERAL_INT i \<Rightarrow> le_bytes 8 i
      | EXPR_LITERAL_FLOAT f \<Rightarrow> le_bytes 8 f
      | EXPR_LITERAL_STRING s \<Rightarrow> map char_byte (c_text s) @ [0]
      | _ \<Rightarrow> [0])"

fun put_values :: "AstNode Expression list \<Rightarrow> bytes \<Rightarrow> bytes comp" where
  "put_values [] buf = ret buf"
| "put_values (e # es) buf = bindc (put_bytes (value_bytes e) buf) (put_values es)"

fun put_rows :: "AstNode Expression list list \<Rightarrow> bytes \<Rightarrow> bytes comp" where
  "put_rows [] buf = ret buf"
| "put_rows (vl # vls) buf = bindc (put_values (take 16 vl) buf) (put_rows vls)"

definition executor_exec_insert :: "Executor \<Rightarrow> string \<Rightarrow> AstNode Expression list list \<Rightarrow> (int \<times> Executor) comp" where
  "executor_exec_insert exec table_name values =
     (case storage_parts exec of
        None \<Rightarrow> ret (code ERR_INTERNAL, exec)
      | Some s \<Rightarrow>
          bindc (catalog_lookup_type_name (st_catalog s) CATALOG_TYPE_TABLE (c_text table_name) (st_cache s)) (\<lambda>(e, c).
          case e of
            None \<Rightarrow> ret (code ERR_EXEC_TABLE_NOT_FOUND, with_cache exec s c)
          | Some e \<Rightarrow>
              if ce_root_page e = 0 then ret (code ERR_STORAGE_IO, with_cache exec s c)
              else
                let table_tree = btree_open (ce_root_page e); rowid = ex_rowid_counter exec + 1;
                    exec = exec\<lparr>ex_rowid_counter := rowid\<rparr> in
                bindc (put_rows values []) (\<lambda>value_buf.
                bindc (btree_insert table_tree rowid value_buf (of_nat (length value_buf)) c) (\<lambda>(ok, c).
                bindc (btree_close table_tree c) (\<lambda>(_, c).
                ret (insert_status ok, with_cache exec s c))))))"

definition executor_exec_update :: "Executor \<Rightarrow> string \<Rightarrow> int" where
  "executor_exec_update exec table_name = code SUCCESS"

definition executor_exec_delete :: "Executor \<Rightarrow> string \<Rightarrow> int" where
  "executor_exec_delete exec table_name = code SUCCESS"

section \<open>Queries\<close>

definition ROW_BUF_SIZE :: nat where
  "ROW_BUF_SIZE = 2048"

definition count_row :: "nat \<Rightarrow> (u64 \<times> bytes) option \<Rightarrow> nat \<times> bool" where
  "count_row row_count r =
     ((case r of Some (key, v) \<Rightarrow> if 0 < length v then row_count + 1 else row_count | None \<Rightarrow> row_count), False)"

definition executor_exec_select :: "Executor \<Rightarrow> string \<Rightarrow> (int \<times> Executor) comp" where
  "executor_exec_select exec table_name =
     (case storage_parts exec of
        None \<Rightarrow> ret (code ERR_INTERNAL, exec)
      | Some s \<Rightarrow>
          bindc (catalog_lookup_type_name (st_catalog s) CATALOG_TYPE_TABLE (c_text table_name) (st_cache s)) (\<lambda>(e, c).
          case e of
            None \<Rightarrow> ret (code ERR_EXEC_TABLE_NOT_FOUND, with_cache exec s c)
          | Some e \<Rightarrow>
              if ce_root_page e = 0 then ret (code SUCCESS, with_cache exec s c)
              else
                let table_tree = btree_open (ce_root_page e) in
                bindc (btree_first table_tree c) (\<lambda>(cur, c).
                bindc (case cur of
                         None \<Rightarrow> ret (0, c)
                       | Some cur \<Rightarrow>
                           scan_loop btree_cursor_valid (btree_get ROW_BUF_SIZE) btree_cursor_next count_row cur 0 c)
                  (\<lambda>(row_count, c).
                bindc (btree_close table_tree c) (\<lambda>(_, c).
                ret (code SUCCESS, with_cache exec s c))))))"

definition executor_select :: "Executor \<Rightarrow> ResultSet" where
  "executor_select exec = result_set_create 16"

definition executor_exec :: "Executor \<Rightarrow> AstNode option \<Rightarrow> (int \<times> Executor) comp" where
  "executor_exec exec stmt =
     (case stmt of
        None \<Rightarrow> ret (code ERR_INTERNAL, exec)
      | Some (AST_CREATE_TABLE name _ columns) \<Rightarrow> executor_exec_create_table exec name columns
      | Some (AST_DROP_TABLE name _) \<Rightarrow> ret (executor_exec_drop_table exec name, exec)
      | Some (AST_CREATE_INDEX name _ _ _) \<Rightarrow> ret (executor_exec_create_index exec name, exec)
      | Some (AST_DROP_INDEX name) \<Rightarrow> ret (executor_exec_drop_index exec name, exec)
      | Some (AST_INSERT name _ values) \<Rightarrow> executor_exec_insert exec name values
      | Some (AST_UPDATE name _ _) \<Rightarrow> ret (executor_exec_update exec name, exec)
      | Some (AST_DELETE name _) \<Rightarrow> ret (executor_exec_delete exec name, exec)
      | Some (AST_SELECT _ _ name _ _ _ _) \<Rightarrow> executor_exec_select exec name
      | Some (AST_TRANSACTION ty) \<Rightarrow> ret (executor_exec_transaction exec ty))"

section \<open>Clauses\<close>

text \<open>The columns of a query: names that are not filled in are \<open>None\<close>, and all values are null.\<close>

definition select_init_query ::
    "ColumnList list \<Rightarrow> string option list \<times> ColumnType option list \<times> nat \<times> Value list" where
  "select_init_query columns =
     (let column_count = (if columns \<noteq> [] then length columns else 16) in
      (if columns \<noteq> [] then map (\<lambda>c. Some (cl_name c)) columns else replicate column_count None,
       if columns \<noteq> [] then replicate column_count (Some COL_TYPE_TEXT) else replicate column_count None,
       column_count, replicate column_count VALUE_NULL))"

definition select_apply_where :: "(string option \<times> Value) list \<Rightarrow> AstNode Expression option \<Rightarrow> bool comp" where
  "select_apply_where row where_clause =
     (case where_clause of
        None \<Rightarrow> ret True
      | Some e \<Rightarrow> bindc (expr_eval e (Some row)) (\<lambda>result. ret (value_is_truthy result)))"

text \<open>Whether two rows agree in the columns from one on; \<open>is_duplicate\<close> looks for a row among those kept.\<close>

fun same_columns :: "nat \<Rightarrow> nat \<Rightarrow> Value list \<Rightarrow> Value list \<Rightarrow> bool comp" where
  "same_columns 0 col_idx r s = ret True"
| "same_columns (Suc n) col_idx r s =
     (if col_idx < length r \<and> col_idx < length s then
        if value_compare (r ! col_idx) (s ! col_idx) \<noteq> 0 then ret False else same_columns n (col_idx + 1) r s
      else undef)"

fun is_duplicate :: "nat \<Rightarrow> Value list \<Rightarrow> Value list list \<Rightarrow> bool comp" where
  "is_duplicate n row [] = ret False"
| "is_duplicate n row (s # kept) = bindc (same_columns n 0 row s) (\<lambda>same. if same then ret True else is_duplicate n row kept)"

fun distinct_loop :: "nat \<Rightarrow> Value list list \<Rightarrow> Value list list \<Rightarrow> Value list list comp" where
  "distinct_loop n [] kept = ret kept"
| "distinct_loop n (row # rows) kept =
     bindc (is_duplicate n row kept) (\<lambda>dup. distinct_loop n rows (if dup then kept else kept @ [row]))"

definition select_apply_distinct :: "ResultSet \<Rightarrow> ResultSet comp" where
  "select_apply_distinct rs =
     (if rs_row_count rs = 0 then ret rs
      else if int (length (rs_rows rs)) < rs_row_count rs then undef
      else
        bindc (distinct_loop (rs_column_count rs) (take (nat (rs_row_count rs)) (rs_rows rs)) []) (\<lambda>kept.
        ret (rs\<lparr>rs_rows := kept @ drop (length kept) (rs_rows rs), rs_row_count := int (length kept)\<rparr>)))"

definition select_apply_order_by :: "ResultSet \<Rightarrow> OrderByItem list \<Rightarrow> ResultSet" where
  "select_apply_order_by rs order_by = rs"

text \<open>The conversion of 64 bits to an \<^verbatim>\<open>int\<close>, and the number a clause gives.\<close>

definition to_int :: "u64 \<Rightarrow> int" where
  "to_int i = sint (ucast i :: u32)"

definition clause_value :: "AstNode Expression option \<Rightarrow> int \<Rightarrow> int comp" where
  "clause_value clause dflt =
     (case clause of
        None \<Rightarrow> ret dflt
      | Some e \<Rightarrow> bindc (expr_eval e None) (\<lambda>v. ret (case v of VALUE_INTEGER i \<Rightarrow> to_int i | _ \<Rightarrow> dflt)))"

definition fits_int :: "int \<Rightarrow> bool" where
  "fits_int i \<longleftrightarrow> - (2 ^ 31) \<le> i \<and> i < 2 ^ 31"

definition select_apply_limit :: "ResultSet \<Rightarrow> AstNode Expression option \<Rightarrow> AstNode Expression option \<Rightarrow> ResultSet comp" where
  "select_apply_limit rs limit_clause offset_clause =
     (let n = rs_row_count rs in
      if n = 0 then ret rs
      else
        bindc (clause_value offset_clause 0) (\<lambda>offset_val.
        bindc (clause_value limit_clause n) (\<lambda>limit_val.
        if n \<le> offset_val then ret (rs\<lparr>rs_row_count := 0\<rparr>)
        else if \<not> fits_int (offset_val + limit_val) then undef
        else
          let limit_val = (if n < offset_val + limit_val then n - offset_val else limit_val);
              rs = (if 0 < offset_val
                    then rs\<lparr>rs_rows := get_at (nat offset_val) (nat (n - offset_val)) (rs_rows rs) @
                                       drop (nat (n - offset_val)) (rs_rows rs),
                            rs_row_count := n - offset_val\<rparr>
                    else rs) in
          ret (if limit_val < rs_row_count rs then rs\<lparr>rs_row_count := limit_val\<rparr> else rs))))"

text \<open>The values and names of the selected columns; the name of a column that is not found is not set.\<close>

definition select_project_columns ::
    "(string option \<times> Value) list \<Rightarrow> ColumnList list \<Rightarrow> Value list \<times> string option list" where
  "select_project_columns row columns =
     (if columns = [] then (map snd row, map fst row)
      else
        (map (\<lambda>col. case find_column (cl_name col) row of Some i \<Rightarrow> snd (row ! i) | None \<Rightarrow> VALUE_NULL) columns,
         map (\<lambda>col. case find_column (cl_name col) row of Some i \<Rightarrow> fst (row ! i) | None \<Rightarrow> None) columns))"

end
