(* ===== verification/Executor_Props.thy ===== *)
theory Executor_Props
  imports Executor "HOL-Library.Sublist"
begin

text \<open>
  What statements do to a database: transactions, rows and tables, and the clauses of queries.
  \<open>table_rep x kes name kvs\<close> describes an executor on an open database whose catalog has the
  entries \<open>kes\<close> and in which the table with a name has the rows \<open>kvs\<close>.
\<close>

section \<open>Flushing keeps the pages\<close>

lemma flush_keeps:
  assumes r: "cache_ready c"
  obtains n c' where "page_cache_flush c = ret (n, c')" "cache_ready c'" "cache_keeps c c'"
proof -
  obtain n c' where f: "page_cache_flush c = ret (n, c')" "flushes c c' (dom (pc_heap c))" by (rule flush_good[OF r])
  let ?S = "dom (pc_heap c)"
  have S: "vis c a = Some v \<Longrightarrow> a \<in> ?S" for a v using vis_dom[of c a] by simp
  have v: "vis c' a = map_option (\<lambda>(d, p, x). (d, p, False)) (vis c a)" for a
    using f(2) S by (cases "vis c a") (auto simp: flushes_def)
  have w: "cache_wf c" "cache_wf c'" using r f(2) cache_ready_wf by (auto simp: flushes_def)
  obtain pg pg' where pg: "pc_pager c = Some pg" "pc_pager c' = Some pg'"
    "\<And>a d p. a \<in> ?S \<Longrightarrow> vis c a = Some (d, p, True) \<Longrightarrow> pager_page pg' p = d"
    "\<And>p. pager_valid pg p \<Longrightarrow> (\<forall>a \<in> ?S. \<forall>d. vis c a \<noteq> Some (d, p, True)) \<Longrightarrow> pager_page pg' p = pager_page pg p"
    using f(2) by (auto simp: flushes_def)
  have "resident c' p \<and> cache_view c' p = cache_view c p" if res: "resident c p" for p
  proof -
    obtain a d x where a: "vis c a = Some (d, p, x)" using res by (auto simp: resident_def cached_vis)
    then have "vis c' a = Some (d, p, False)" using v by simp
    with a show ?thesis using view_vis[OF w(1) a] view_vis[OF w(2)] by (auto simp: resident_def cached_vis)
  qed
  moreover have "insync c' p" if syn: "insync c p" for p
    unfolding insync_def
  proof (intro allI impI)
    fix a d pg0 assume a: "vis c' a = Some (d, p, False)" "pc_pager c' = Some pg0"
    then obtain x where x: "vis c a = Some (d, p, x)" using v by auto
    show "pager_page pg0 p = d"
    proof (cases x)
      case True
      then show ?thesis using pg(2,3) a(2) x S by auto
    next
      case False
      have "pager_valid pg p" using r pg(1) x by (auto simp: cache_ready_def resident_def cached_vis)
      moreover have "\<forall>b \<in> ?S. \<forall>e. vis c b \<noteq> Some (e, p, True)" using vis_unique[OF w(1) x] x False by fastforce
      ultimately have "pager_page pg' p = pager_page pg p" using pg(4) by blast
      moreover have "pager_page pg p = d" using syn x False pg(1) by (auto simp: insync_def)
      ultimately show ?thesis using a(2) pg(2) by simp
    qed
  qed
  ultimately have "cache_keeps c c'" by (simp add: keeps_pages_def)
  with f show thesis using that by (auto simp: flushes_def)
qed

lemma close_keeps:
  assumes "cache_ready c" "bt_alive t"
  obtains c' where "btree_close t c = ret (t\<lparr>bt_alive := False\<rparr>, c')" "cache_ready c'" "cache_keeps c c'"
  by (rule flush_keeps[OF assms(1)], rule that) (simp_all add: btree_close_def assms(2))

section \<open>Tables in a database\<close>

lemma btree_open_simps [simp]: "bt_alive (btree_open p)" "bt_root_page (btree_open p) = p"
  by (simp_all add: btree_open_def)

definition find_table :: "(u64 \<times> CatalogEntry) list \<Rightarrow> string \<Rightarrow> CatalogEntry option" where
  "find_table kes name = find (\<lambda>e. ce_type e = CATALOG_TYPE_TABLE \<and> ce_name e = name) (map snd kes)"

definition catalog_page :: "Storage \<Rightarrow> u32" where
  "catalog_page s = bt_root_page (ca_tree (st_catalog s))"

definition db_rep :: "Storage \<Rightarrow> (u64 \<times> CatalogEntry) list \<Rightarrow> bool" where
  "db_rep s kes \<longleftrightarrow> st_is_open s \<and> catalog_rep (st_catalog s) (st_cache s) kes \<and> resident (st_cache s) (catalog_page s)"

definition rows_rep :: "Storage \<Rightarrow> u32 \<Rightarrow> entry list \<Rightarrow> bool" where
  "rows_rep s p kvs \<longleftrightarrow> p \<noteq> 0 \<and> p \<noteq> catalog_page s \<and> tree_rep (btree_open p) (st_cache s) kvs \<and> resident (st_cache s) p"

lemma db_repD:
  assumes "db_rep s kes"
  shows "catalog_rep (st_catalog s) (st_cache s) kes" "resident (st_cache s) (catalog_page s)" "cache_ready (st_cache s)"
    "ex_storage x = Some s \<Longrightarrow> storage_parts x = Some s" "check_open (Some s) = 0"
  using assms by (auto simp: db_rep_def catalog_rep_def tree_rep_def storage_parts_def storage_get_pager_def
    check_open_def cache_ready_def)

lemma catalog_rep_keeps:
  assumes "catalog_rep catalog c kes" "cache_ready c'" "resident c (bt_root_page (ca_tree catalog))"
    "cache_view c' (bt_root_page (ca_tree catalog)) = cache_view c (bt_root_page (ca_tree catalog))"
    "resident c' (bt_root_page (ca_tree catalog))"
  shows "catalog_rep catalog c' kes"
  using assms by (auto simp: catalog_rep_def tree_rep_def reachable_def)

lemma db_rep_keeps:
  assumes "db_rep s kes" "cache_ready c'" "cache_keeps (st_cache s) c'"
  shows "db_rep (s\<lparr>st_cache := c'\<rparr>) kes"
  using assms catalog_rep_keeps[of "st_catalog s" "st_cache s" kes c']
  by (auto simp: db_rep_def catalog_page_def keeps_pages_def)

lemma rows_rep_keeps:
  assumes "rows_rep s p kvs" "cache_ready c'" "cache_keeps (st_cache s) c'"
  shows "rows_rep (s\<lparr>st_cache := c'\<rparr>) p kvs"
  using assms tree_rep_keeps[of "btree_open p" "st_cache s" kvs c']
  by (auto simp: rows_rep_def catalog_page_def keeps_pages_def btree_open_def)

lemma db_rep_others:
  assumes "db_rep s kes" "cache_ready c'" "others_kept t (st_cache s) c'" "bt_root_page t \<noteq> catalog_page s"
  shows "db_rep (s\<lparr>st_cache := c'\<rparr>) kes"
  using assms catalog_rep_keeps[of "st_catalog s" "st_cache s" kes c']
  by (auto simp: db_rep_def catalog_page_def others_kept_def)

lemma put_rows_length:
  "put_values es buf = ret buf' \<Longrightarrow> length buf \<le> 1024 \<Longrightarrow> length buf' \<le> 1024"
  "put_rows vls buf = ret buf' \<Longrightarrow> length buf \<le> 1024 \<Longrightarrow> length buf' \<le> 1024"
proof -
  show *: "put_values es buf = ret buf' \<Longrightarrow> length buf \<le> 1024 \<Longrightarrow> length buf' \<le> 1024" for es buf buf'
    by (induction es arbitrary: buf)
      (auto simp: bindc_eq_ret put_bytes_def VALUE_BUF_SIZE_def split: if_splits)
  show "put_rows vls buf = ret buf' \<Longrightarrow> length buf \<le> 1024 \<Longrightarrow> length buf' \<le> 1024"
    by (induction vls arbitrary: buf) (auto simp: bindc_eq_ret dest: *)
qed

lemma lookup_table:
  assumes db: "db_rep s kes" and x: "ex_storage x = Some s"
  obtains c where "catalog_lookup_type_name (st_catalog s) CATALOG_TYPE_TABLE name (st_cache s) = ret (find_table kes name, c)"
    "db_rep (s\<lparr>st_cache := c\<rparr>) kes" "cache_ready c" "cache_keeps (st_cache s) c" "storage_parts x = Some s"
proof -
  obtain c where c: "catalog_lookup_type_name (st_catalog s) CATALOG_TYPE_TABLE name (st_cache s) =
      ret (find (\<lambda>e. ce_type e = CATALOG_TYPE_TABLE \<and> ce_name e = name) (map snd kes), c)"
    "catalog_rep (st_catalog s) c kes" "cache_keeps (st_cache s) c" by (rule lookup_eval[OF db_repD(1)[OF db]])
  have "cache_ready c" using c(2) by (simp add: catalog_rep_def tree_rep_def)
  with c db_rep_keeps[OF db] db_repD(4)[OF db x] show thesis by (intro that[of c]) (simp_all add: find_table_def)
qed

text \<open>An insertion stores the row under the next number, unless that number is taken or the page is full.\<close>

lemma exec_insert_eval:
  assumes x: "ex_storage x = Some s" and db: "db_rep s kes" and e: "find_table kes (c_text name) = Some e"
    and rows: "rows_rep s (ce_root_page e) kvs" and buf: "put_rows values [] = ret buf"
  obtains s' where "executor_exec_insert x name values =
      ret (insert_status (insert_spec (ex_rowid_counter x + 1) buf kvs \<noteq> None),
           x\<lparr>ex_storage := Some s', ex_rowid_counter := ex_rowid_counter x + 1\<rparr>)"
    "db_rep s' kes"
    "rows_rep s' (ce_root_page e) (case insert_spec (ex_rowid_counter x + 1) buf kvs of Some kvs' \<Rightarrow> kvs' | None \<Rightarrow> kvs)"
proof -
  let ?p = "ce_root_page e" and ?t = "btree_open (ce_root_page e)" and ?k = "ex_rowid_counter x + 1"
  define kvs' where "kvs' = (case insert_spec ?k buf kvs of Some kvs' \<Rightarrow> kvs' | None \<Rightarrow> kvs)"
  obtain c1 where 1: "catalog_lookup_type_name (st_catalog s) CATALOG_TYPE_TABLE (c_text name) (st_cache s) = ret (Some e, c1)"
    "db_rep (s\<lparr>st_cache := c1\<rparr>) kes" "cache_ready c1" "cache_keeps (st_cache s) c1" "storage_parts x = Some s"
    by (rule lookup_table[OF db x, of "c_text name"]) (use e in simp)
  have r1: "rows_rep (s\<lparr>st_cache := c1\<rparr>) ?p kvs" by (rule rows_rep_keeps[OF rows 1(3,4)])
  then have t: "tree_rep ?t c1 kvs" and p: "?p \<noteq> 0" "?p \<noteq> catalog_page s" by (simp_all add: rows_rep_def catalog_page_def)
  have "length buf \<le> 1024" using put_rows_length(2)[OF buf] by simp
  then have len: "length buf = unat (of_nat (length buf) :: u32)" "unat (of_nat (length buf) :: u32) < 65000"
    by (simp_all add: unat_of_nat take_bit_nat_eq_self)
  obtain c2 where 2: "btree_insert ?t ?k buf (of_nat (length buf)) c1 = ret (insert_spec ?k buf kvs \<noteq> None, c2)"
    "tree_rep ?t c2 kvs'" "resident c2 ?p" "others_kept ?t c1 c2"
    unfolding kvs'_def by (rule insert_eval[OF t len, of ?k]) simp
  have rdy: "cache_ready c2" by (rule tree_repD(3)[OF 2(2)])
  have db2: "db_rep (s\<lparr>st_cache := c2\<rparr>) kes"
    using db_rep_others[OF 1(2) rdy, of ?t] 2(4) p(2) by (simp add: btree_open_def catalog_page_def)
  have r2: "rows_rep (s\<lparr>st_cache := c2\<rparr>) ?p kvs'" using 2(2,3) p by (simp add: rows_rep_def catalog_page_def)
  obtain c3 where 3: "btree_close ?t c2 = ret (?t\<lparr>bt_alive := False\<rparr>, c3)" "cache_ready c3" "cache_keeps c2 c3"
    by (rule close_keeps[OF rdy btree_open_simps(1)])
  have "executor_exec_insert x name values = ret (insert_status (insert_spec ?k buf kvs \<noteq> None),
      x\<lparr>ex_storage := Some (s\<lparr>st_cache := c3\<rparr>), ex_rowid_counter := ?k\<rparr>)"
    using 1(1,5) 2(1) 3(1) p(1) buf by (simp add: executor_exec_insert_def with_cache_def Let_def)
  then show thesis
    using that[of "s\<lparr>st_cache := c3\<rparr>"] db_rep_keeps[OF db2, of c3] rows_rep_keeps[OF r2, of c3] 3(2,3)
    by (simp add: kvs'_def)
qed

lemma exec_select_eval:
  assumes x: "ex_storage x = Some s" and db: "db_rep s kes" and e: "find_table kes (c_text name) = Some e"
    and rows: "rows_rep s (ce_root_page e) kvs" "\<forall>kv \<in> set kvs. length (snd kv) \<le> ROW_BUF_SIZE"
  obtains s' where "executor_exec_select x name = ret (0, x\<lparr>ex_storage := Some s'\<rparr>)" "db_rep s' kes"
    "rows_rep s' (ce_root_page e) kvs"
proof -
  let ?p = "ce_root_page e" and ?t = "btree_open (ce_root_page e)"
  obtain c1 where 1: "catalog_lookup_type_name (st_catalog s) CATALOG_TYPE_TABLE (c_text name) (st_cache s) = ret (Some e, c1)"
    "db_rep (s\<lparr>st_cache := c1\<rparr>) kes" "cache_ready c1" "cache_keeps (st_cache s) c1" "storage_parts x = Some s"
    by (rule lookup_table[OF db x, of "c_text name"]) (use e in simp)
  have r1: "rows_rep (s\<lparr>st_cache := c1\<rparr>) ?p kvs" by (rule rows_rep_keeps[OF rows(1) 1(3,4)])
  then have t: "tree_rep ?t c1 kvs" and p: "?p \<noteq> 0" by (simp_all add: rows_rep_def)
  obtain cur c2 where 2: "btree_first ?t c1 = ret (Some cur, c2)" "tree_cursor_at ROW_BUF_SIZE c2 cur kvs"
    "tree_rep ?t c2 kvs" "resident c2 (bt_root_page ?t)" "cache_keeps c1 c2"
    by (rule first_cursor[OF t rows(2)])
  from tree.scan[OF 2(2), of count_row 0] obtain c3 where
    3: "scan_loop btree_cursor_valid (btree_get ROW_BUF_SIZE) btree_cursor_next count_row cur 0 c2 =
      ret (fold_stop count_row 0 kvs, c3)" "cache_step c2 c3" by (elim exE conjE)
  have c3: "cache_ready c3" "cache_keeps c1 c3"
    using 2(3,5) 3(2) keeps_pages_trans by (auto simp: cache_step_def tree_rep_def)
  obtain c4 where 4: "btree_close ?t c3 = ret (?t\<lparr>bt_alive := False\<rparr>, c4)" "cache_ready c4" "cache_keeps c3 c4"
    by (rule close_keeps[OF c3(1) btree_open_simps(1)])
  have "executor_exec_select x name = ret (0, x\<lparr>ex_storage := Some (s\<lparr>st_cache := c4\<rparr>)\<rparr>)"
    using 1(1,5) 2(1) 3(1) 4(1) p by (simp add: executor_exec_select_def with_cache_def)
  moreover have "cache_keeps c1 c4" by (rule keeps_pages_trans[OF c3(2) 4(3)])
  ultimately show thesis
    using that[of "s\<lparr>st_cache := c4\<rparr>"] db_rep_keeps[OF 1(2), of c4] rows_rep_keeps[OF r1, of c4] 4(2) by simp
qed

lemma exec_missing_table:
  assumes x: "ex_storage x = Some s" and db: "db_rep s kes" and e: "find_table kes (c_text name) = None"
  obtains s' where "executor_exec_insert x name values = ret (code ERR_EXEC_TABLE_NOT_FOUND, x\<lparr>ex_storage := Some s'\<rparr>)"
    "executor_exec_select x name = ret (code ERR_EXEC_TABLE_NOT_FOUND, x\<lparr>ex_storage := Some s'\<rparr>)" "db_rep s' kes"
proof -
  obtain c where c: "catalog_lookup_type_name (st_catalog s) CATALOG_TYPE_TABLE (c_text name) (st_cache s) = ret (None, c)"
    "db_rep (s\<lparr>st_cache := c\<rparr>) kes" "storage_parts x = Some s"
    by (rule lookup_table[OF db x, of "c_text name"]) (use e in simp)
  then show thesis
    by (intro that[of "s\<lparr>st_cache := c\<rparr>"]) (simp_all add: executor_exec_insert_def executor_exec_select_def with_cache_def)
qed

section \<open>Creating tables\<close>

lemma sql_append_halts: "halts (sql_append t st)"
  by (simp add: sql_append_def split: prod.split)

lemma create_table_sql_halts: "halts (create_table_sql name cols)"
proof -
  have c: "halts (column_sql col first st)" for col first st
    unfolding column_sql_def by (intro halts_bind) (simp_all add: sql_append_halts)
  have "halts (columns_sql cols first st)" for first st
    by (induction cols arbitrary: first st) (simp_all add: halts_bind c)
  then show ?thesis unfolding create_table_sql_def Let_def
    by (intro halts_bind) (simp_all add: sql_append_halts)
qed

lemma halts_cases: "halts m \<Longrightarrow> m = undef \<or> (\<exists>y. m = ret y)"
  by (cases m) (auto simp: halts_def undef_def ret_def intro: outcome.exhaust)

lemma table_entry_ok: "entry_ok (table_entry name sql p)"
  using fits_strncpy[of 64 name] fits_strncpy[of 512 sql] by (simp add: entry_ok_def table_entry_def c_text_def)

lemma exec_create_undefined:
  assumes x: "ex_storage x = Some s" and db: "db_rep s kes" and can: "can_create (st_cache s)"
  shows "executor_exec_create_table x name cols = undef"
proof (cases "create_table_sql name cols = undef")
  case True
  then show ?thesis using db_repD(4)[OF db x] by (simp add: executor_exec_create_table_def)
next
  case False
  then obtain sql where sql: "create_table_sql name cols = ret sql" using halts_cases[OF create_table_sql_halts] by blast
  obtain n c1 where 1: "btree_create (st_cache s) = ret (Some (btree_open n), c1)" "tree_rep (btree_open n) c1 []"
    "resident c1 n" "\<not> resident (st_cache s) n" "others_kept (btree_open n) (st_cache s) c1" by (rule create_eval[OF can])
  have rdy: "cache_ready c1" by (rule tree_repD(3)[OF 1(2)])
  have "n \<noteq> catalog_page s" using 1(4) db_repD(2)[OF db] by auto
  then have db1: "db_rep (s\<lparr>st_cache := c1\<rparr>) kes" using db_rep_others[OF db rdy 1(5)] by simp
  obtain c2 where 2: "btree_close (btree_open n) c1 = ret (btree_open n\<lparr>bt_alive := False\<rparr>, c2)" "cache_ready c2"
    "cache_keeps c1 c2" by (rule close_keeps[OF rdy btree_open_simps(1)])
  have "catalog_rep (st_catalog s) c2 kes"
    using db_rep_keeps[OF db1, of c2] 2(2,3) by (simp add: db_rep_def)
  then obtain r c3 where "catalog_insert (st_catalog s) (table_entry name sql n) c2 = ret (r, c3)"
    by (rule catalog_insert_eval[OF _ table_entry_ok])
  with sql 1(1) 2(1) db_repD(4)[OF db x] show ?thesis
    by (simp add: executor_exec_create_table_def btree_close_def[of "btree_open n\<lparr>bt_alive := False\<rparr>"])
qed

section \<open>Transactions\<close>

text \<open>What a sequence of transaction statements returns, and the state it leads to.\<close>

fun run_transactions :: "Executor \<Rightarrow> TransactionType list \<Rightarrow> int list \<times> Executor" where
  "run_transactions x [] = ([], x)"
| "run_transactions x (ty # tys) =
     (case executor_exec_transaction x ty of (r, x) \<Rightarrow>
      case run_transactions x tys of (rs, x) \<Rightarrow> (r # rs, x))"

fun transactions_spec :: "TxnState \<Rightarrow> TransactionType list \<Rightarrow> int list \<times> TxnState" where
  "transactions_spec st [] = ([], st)"
| "transactions_spec st (ty # tys) =
     (let (r, st) = (case ty of
            TX_BEGIN \<Rightarrow> if st = TXN_ACTIVE then (code ERR_TX_ALREADY_ACTIVE, st) else (0, TXN_ACTIVE)
          | TX_COMMIT \<Rightarrow> if st = TXN_ACTIVE then (0, TXN_COMMITTED) else (code ERR_TX_NOT_ACTIVE, st)
          | TX_ROLLBACK \<Rightarrow> if st = TXN_ACTIVE then (0, TXN_ROLLED_BACK) else (code ERR_TX_NOT_ACTIVE, st));
          (rs, st) = transactions_spec st tys
      in (r # rs, st))"

definition txn_ok :: "Executor \<Rightarrow> bool" where
  "txn_ok x \<longleftrightarrow> check_open (ex_storage x) = 0 \<and> (ex_in_transaction x \<longleftrightarrow> ex_txn_state x = TXN_ACTIVE)"

definition set_txn :: "Executor \<Rightarrow> TxnState \<Rightarrow> Executor" where
  "set_txn x st = x\<lparr>ex_in_transaction := (st = TXN_ACTIVE), ex_txn_state := st\<rparr>"

lemma set_txn_self: "txn_ok x \<Longrightarrow> set_txn x (ex_txn_state x) = x"
  by (cases x) (simp add: txn_ok_def set_txn_def)

lemma set_txn_simps [simp]:
  "txn_ok x \<Longrightarrow> txn_ok (set_txn x st)" "ex_txn_state (set_txn x st) = st" "set_txn (set_txn x st) st' = set_txn x st'"
  by (simp_all add: txn_ok_def set_txn_def)

lemma transaction_step:
  assumes "txn_ok x"
  shows "executor_exec_transaction x ty =
    (fst (transactions_spec (ex_txn_state x) [ty]) ! 0, set_txn x (snd (transactions_spec (ex_txn_state x) [ty])))"
  using assms set_txn_self[OF assms]
  by (auto simp: executor_exec_transaction_def executor_exec_begin_def executor_exec_commit_def executor_exec_rollback_def
    tinydb_begin_def tinydb_commit_def tinydb_rollback_def txn_ok_def set_txn_def Let_def split: TransactionType.split)

section \<open>A database with a table\<close>

lemma fresh_db:
  obtains s where "db_rep s []" "can_create (st_cache s)"
proof -
  obtain pg where pg: "open_pager None None None (Some fresh_file) = Some pg" "pager_inv pg []" "p_page_count pg = 1"
    by (rule fresh_pager)
  show thesis by (rule open_storage[OF pg(1,2), of 256], simp add: pg(3), rule that) (simp_all add: db_rep_def catalog_page_def pg(3))
qed

lemma demo_db:
  obtains s e where "db_rep s [(3, e)]" "find_table [(3, e)] (c_text ''ab'') = Some e" "rows_rep s (ce_root_page e) []"
proof -
  obtain s where s: "db_rep s []" "can_create (st_cache s)" by (rule fresh_db)
  obtain n c1 where 1: "btree_create (st_cache s) = ret (Some (btree_open n), c1)" "tree_rep (btree_open n) c1 []"
    "resident c1 n" "\<not> resident (st_cache s) n" "others_kept (btree_open n) (st_cache s) c1" by (rule create_eval[OF s(2)])
  let ?e = "table_entry ''ab'' [] n"
  have n: "n \<noteq> catalog_page s" using 1(4) db_repD(2)[OF s(1)] by auto
  obtain pg where "pc_pager (st_cache s) = Some pg" using s(2) by (auto simp: can_create_def)
  then have n0: "n \<noteq> 0" using 1(3) by (auto intro: create_disk[OF s(2) 1(1)])
  have db1: "db_rep (s\<lparr>st_cache := c1\<rparr>) []"
    using db_rep_others[OF s(1) tree_repD(3)[OF 1(2)] 1(5)] n by simp
  have "catalog_add ?e [] = Some [(3, ?e)]" by (simp add: catalog_add_def catalog_key_def table_entry_def c_text_def)
  then obtain c2 where 2: "catalog_rep (st_catalog s) c2 [(3, ?e)]" "others_kept (ca_tree (st_catalog s)) c1 c2"
    "resident c2 (catalog_page s)"
    using catalog_insert_eval[OF db_repD(1)[OF db1] table_entry_ok[of "''ab''" "[]" n]]
    by (auto simp: catalog_page_def)
  let ?s = "s\<lparr>st_cache := c2\<rparr>"
  have e: "ce_root_page ?e = n" "ce_type ?e = CATALOG_TYPE_TABLE" "ce_name ?e = c_text ''ab''"
    by (simp_all add: table_entry_def c_text_def)
  have "db_rep ?s [(3, ?e)]" using 2(1,3) s(1) by (simp add: db_rep_def catalog_page_def)
  moreover have "cache_ready c2" using 2(1) by (simp add: catalog_rep_def tree_rep_def)
  then have "rows_rep ?s n []"
    using 2(2) 1(2,3) n n0 by (auto simp: rows_rep_def catalog_page_def others_kept_def tree_rep_def reachable_def)
  ultimately show thesis using that[of ?s ?e] e by (simp add: find_table_def)
qed

section \<open>Clauses of queries\<close>

definition visible :: "ResultSet \<Rightarrow> Value list list" where
  "visible rs = take (nat (rs_row_count rs)) (rs_rows rs)"

definition rs_ok :: "ResultSet \<Rightarrow> bool" where
  "rs_ok rs \<longleftrightarrow> 0 \<le> rs_row_count rs \<and> nat (rs_row_count rs) \<le> length (rs_rows rs)"

definition rows_same :: "Value list \<Rightarrow> Value list \<Rightarrow> bool" where
  "rows_same r s \<longleftrightarrow> (\<forall>j < length r. value_compare (r ! j) (s ! j) = 0)"

lemma value_compare_self: "value_compare v v = 0"
  by (cases v) (simp_all add: value_compare_def value_is_null_def bytes_compare_lex flt_def)

lemma same_columns_eq:
  assumes "i + k = length r" "length s = length r"
  shows "same_columns k i r s = ret (\<forall>j. i \<le> j \<and> j < length r \<longrightarrow> value_compare (r ! j) (s ! j) = 0)"
  using assms
proof (induction k arbitrary: i)
  case (Suc k)
  have "(\<forall>j. i \<le> j \<and> j < length r \<longrightarrow> value_compare (r ! j) (s ! j) = 0) \<longleftrightarrow>
      value_compare (r ! i) (s ! i) = 0 \<and> (\<forall>j. Suc i \<le> j \<and> j < length r \<longrightarrow> value_compare (r ! j) (s ! j) = 0)"
    using Suc.prems by (metis Suc_leI add_Suc_right le_eq_less_or_eq less_add_Suc1 order_refl Suc_leD)
  with Suc show ?case by simp
qed simp

lemma is_duplicate_eq:
  assumes "length row = n" "\<forall>s \<in> set kept. length s = n"
  shows "is_duplicate n row kept = ret (\<exists>s \<in> set kept. rows_same row s)"
  using assms by (induction kept) (auto simp: same_columns_eq[of 0] rows_same_def)

fun first_rows :: "Value list list \<Rightarrow> Value list list \<Rightarrow> Value list list" where
  "first_rows [] kept = kept"
| "first_rows (row # rows) kept = first_rows rows (if \<exists>s \<in> set kept. rows_same row s then kept else kept @ [row])"

lemma distinct_loop_eq:
  assumes "\<forall>s \<in> set rows. length s = n" "\<forall>s \<in> set kept. length s = n"
  shows "distinct_loop n rows kept = ret (first_rows rows kept)"
  using assms by (induction rows arbitrary: kept) (simp_all add: is_duplicate_eq)

lemma first_rows_snoc:
  "first_rows (rows @ [row]) kept =
     (let k = first_rows rows kept in if \<exists>s \<in> set k. rows_same row s then k else k @ [row])"
  by (induction rows arbitrary: kept) (simp_all add: Let_def)

lemma nths_snoc_fresh: "I \<subseteq> {..<length xs} \<Longrightarrow> nths (xs @ [x]) I = nths xs I"
  by (auto simp: nths_append subset_iff)

lemma nths_snoc_insert:
  assumes "I \<subseteq> {..<length xs}"
  shows "nths (xs @ [x]) (insert (length xs) I) = nths xs I @ [x]"
proof -
  have "nths xs (insert (length xs) I) = nths xs I"
    unfolding nths_def by (rule arg_cong[where f = "map fst"], rule filter_cong) (auto simp: set_zip)
  then show ?thesis by (simp add: nths_append)
qed

text \<open>Which rows are kept, by their positions.\<close>

lemma first_rows_positions:
  "\<exists>I \<subseteq> {..<length rows}. first_rows rows [] = nths rows I \<and>
     (\<forall>i < length rows. i \<in> I \<longleftrightarrow> \<not> (\<exists>j \<in> I. j < i \<and> rows_same (rows ! i) (rows ! j)))"
proof (induction rows rule: rev_induct)
  case (snoc row rows)
  then obtain I where I: "I \<subseteq> {..<length rows}" "first_rows rows [] = nths rows I"
    "\<And>i. i < length rows \<Longrightarrow> i \<in> I \<longleftrightarrow> \<not> (\<exists>j \<in> I. j < i \<and> rows_same (rows ! i) (rows ! j))" by blast
  let ?d = "\<exists>j \<in> I. rows_same row (rows ! j)"
  have d: "(\<exists>s \<in> set (nths rows I). rows_same row s) \<longleftrightarrow> ?d" using I(1) by (auto simp: set_nths)
  let ?I = "if ?d then I else insert (length rows) I"
  have "first_rows (rows @ [row]) [] = nths (rows @ [row]) ?I"
    using I(1,2) d by (simp add: first_rows_snoc Let_def nths_snoc_fresh nths_snoc_insert)
  moreover have "i \<in> ?I \<longleftrightarrow> \<not> (\<exists>j \<in> ?I. j < i \<and> rows_same ((rows @ [row]) ! i) ((rows @ [row]) ! j))"
    if "i < length (rows @ [row])" for i
  proof (cases "i = length rows")
    case True
    then show ?thesis using I(1) by (auto simp: nth_append subset_iff)
  next
    case False
    then have "i < length rows" using that by simp
    then show ?thesis using I(3)[of i] I(1) by (auto simp: nth_append subset_iff)
  qed
  ultimately show ?case using I(1) by (intro exI[of _ ?I]) auto
qed simp

lemma first_rows_props:
  assumes "sorted_wrt (\<lambda>r s. \<not> rows_same s r) kept"
  shows "sorted_wrt (\<lambda>r s. \<not> rows_same s r) (first_rows rows kept)" "set kept \<subseteq> set (first_rows rows kept)"
    "\<exists>xs. first_rows rows kept = kept @ xs \<and> subseq xs rows"
    "\<forall>row \<in> set rows. \<exists>s \<in> set (first_rows rows kept). rows_same row s"
proof -
  have "sorted_wrt (\<lambda>r s. \<not> rows_same s r) (first_rows rows kept) \<and>
      (\<exists>xs. first_rows rows kept = kept @ xs \<and> subseq xs rows) \<and>
      (\<forall>row \<in> set rows. \<exists>s \<in> set (first_rows rows kept). rows_same row s)"
    using assms
  proof (induction rows arbitrary: kept)
    case (Cons row rows)
    let ?k = "if \<exists>s \<in> set kept. rows_same row s then kept else kept @ [row]"
    have "sorted_wrt (\<lambda>r s. \<not> rows_same s r) ?k" using Cons.prems by (auto simp: sorted_wrt_append)
    from Cons.IH[OF this] obtain xs where IH: "sorted_wrt (\<lambda>r s. \<not> rows_same s r) (first_rows rows ?k)"
      "first_rows rows ?k = ?k @ xs" "subseq xs rows"
      "\<forall>row \<in> set rows. \<exists>s \<in> set (first_rows rows ?k). rows_same row s" by blast
    have "\<exists>s \<in> set ?k. rows_same row s" by (auto simp: rows_same_def value_compare_self)
    with IH show ?case by (auto split: if_splits)
  qed simp
  then show "sorted_wrt (\<lambda>r s. \<not> rows_same s r) (first_rows rows kept)" "set kept \<subseteq> set (first_rows rows kept)"
    "\<exists>xs. first_rows rows kept = kept @ xs \<and> subseq xs rows"
    "\<forall>row \<in> set rows. \<exists>s \<in> set (first_rows rows kept). rows_same row s" by auto
qed

lemma to_int_small: "unat i < 2 ^ 31 \<Longrightarrow> to_int i = int (unat i)"
proof -
  assume *: "unat i < 2 ^ 31"
  have "int (unat i) < int (2 ^ 31)" using * by (simp only: of_nat_less_iff)
  then have "uint i < 2 ^ 31" by simp
  moreover have "- (2 ^ 31) \<le> uint i" by (rule order_trans[of _ 0]) simp_all
  ultimately show ?thesis
    by (simp add: to_int_def sint_uint unsigned_ucast_eq take_bit_int_eq_self signed_take_bit_int_eq_self)
qed

lemma clause_literal: "unat i < 2 ^ 31 \<Longrightarrow> clause_value (Some (EXPR_LITERAL_INT i)) d = ret (int (unat i))"
  by (simp add: clause_value_def to_int_small)

lemma limit_eval:
  assumes n: "rs_row_count rs = int n" "n \<le> length (rs_rows rs)"
    and "clause_value lim (int n) = ret (int m)" "clause_value off 0 = ret (int k)"
  shows "select_apply_limit rs lim off =
    (if n = 0 then ret rs else if n \<le> k then ret (rs\<lparr>rs_row_count := 0\<rparr>)
     else if 2 ^ 31 \<le> k + m then undef
     else ret (rs\<lparr>rs_rows := (if 0 < k then get_at k (n - k) (rs_rows rs) @ drop (n - k) (rs_rows rs) else rs_rows rs),
                  rs_row_count := int (min m (n - k))\<rparr>))"
proof -
  have fits: "fits_int (int k + int m) \<longleftrightarrow> \<not> 2 ^ 31 \<le> k + m" by (auto simp: fits_int_def)
  have d: "nat (int n - int k) = n - k" by simp
  show ?thesis
  proof (cases "n = 0 \<or> n \<le> k \<or> 2 ^ 31 \<le> k + m")
    case True
    then show ?thesis using assms fits by (auto simp: select_apply_limit_def)
  next
    case False
    then have "(if int n < int k + int m then int n - int k else int m) = int (min m (n - k))" by auto
    with False assms fits show ?thesis
      by (cases rs) (auto simp: select_apply_limit_def Let_def d of_nat_diff)
  qed
qed

lemma limit_rows:
  assumes rs: "rs_ok rs" and l: "unat l < 2 ^ 31" and off: "unat off < 2 ^ 31"
  shows "unat off < length (visible rs) \<and> 2 ^ 31 \<le> unat off + unat l \<Longrightarrow>
      select_apply_limit rs (Some (EXPR_LITERAL_INT l)) (Some (EXPR_LITERAL_INT off)) = undef"
    "\<not> (unat off < length (visible rs) \<and> 2 ^ 31 \<le> unat off + unat l) \<Longrightarrow>
      \<exists>rs'. select_apply_limit rs (Some (EXPR_LITERAL_INT l)) (Some (EXPR_LITERAL_INT off)) = ret rs' \<and> rs_ok rs' \<and>
        visible rs' = take (unat l) (drop (unat off) (visible rs))"
proof -
  define n k m where "n = nat (rs_row_count rs)" and "k = unat off" and "m = unat l"
  have n: "rs_row_count rs = int n" "n \<le> length (rs_rows rs)" "length (visible rs) = n" "visible rs = take n (rs_rows rs)"
    using rs by (auto simp: rs_ok_def n_def visible_def)
  note r = limit_eval[OF n(1,2) clause_literal[OF l] clause_literal[OF off], folded k_def m_def]
  show "select_apply_limit rs (Some (EXPR_LITERAL_INT l)) (Some (EXPR_LITERAL_INT off)) = undef"
    if "unat off < length (visible rs) \<and> 2 ^ 31 \<le> unat off + unat l"
    using that r n(3) by (simp flip: k_def m_def)
  show "\<exists>rs'. select_apply_limit rs (Some (EXPR_LITERAL_INT l)) (Some (EXPR_LITERAL_INT off)) = ret rs' \<and> rs_ok rs' \<and>
        visible rs' = take (unat l) (drop (unat off) (visible rs))"
    if "\<not> (unat off < length (visible rs) \<and> 2 ^ 31 \<le> unat off + unat l)"
  proof (cases "n \<le> k")
    case True
    then show ?thesis using r n rs by (cases "n = 0") (auto simp: visible_def rs_ok_def simp flip: k_def m_def)
  next
    case False
    with that have "\<not> 2 ^ 31 \<le> k + m" using n(3) by (simp add: k_def m_def)
    with False r n(2,4) show ?thesis
      by (auto simp: visible_def rs_ok_def get_at_def take_drop min_def simp flip: k_def m_def)
  qed
qed

section \<open>Properties\<close>

text \<open>C9: An INSERT into a table stores the bytes of its values under the next row number, if that number is not taken
  and the page has room.  It returns 0 without storing anything when the number is taken, and it returns -1
  when the page is full.  The catalog stays as it was.\<close>

theorem insert_statement:
  assumes "ex_storage x = Some s" "db_rep s kes" "find_table kes (c_text name) = Some e"
    "rows_rep s (ce_root_page e) kvs" "put_rows values [] = ret buf"
  shows "\<exists>s'. executor_exec x (Some (AST_INSERT name cols values)) =
      ret (insert_status (insert_spec (ex_rowid_counter x + 1) buf kvs \<noteq> None),
           x\<lparr>ex_storage := Some s', ex_rowid_counter := ex_rowid_counter x + 1\<rparr>) \<and>
    db_rep s' kes \<and>
    rows_rep s' (ce_root_page e) (case insert_spec (ex_rowid_counter x + 1) buf kvs of Some kvs' \<Rightarrow> kvs' | None \<Rightarrow> kvs)"
  unfolding executor_exec_def by (rule exec_insert_eval[OF assms]) auto

text \<open>A statement that stores one number in the table \<open>ab\<close>.\<close>

definition demo_values :: "AstNode Expression list list" where
  "demo_values = [[EXPR_LITERAL_INT 7]]"

lemma demo_row: "put_rows demo_values [] = ret (le_bytes 8 (7 :: u64))"
  by (simp add: demo_values_def put_bytes_def value_bytes_def VALUE_BUF_SIZE_def)

lemma demo_row_fits: "insert_spec 1 (le_bytes 8 (7 :: u64)) [] = Some [(1, le_bytes 8 (7 :: u64))]"
  by (simp add: insert_spec_def leaf_used_def cells_len_def cell_bytes_def PAGE_SIZE_def)

lemma executor_create_simps:
  "ex_storage (executor_create n st) = st" "ex_rowid_counter (executor_create n st) = n"
  "\<not> ex_in_transaction (executor_create n st)" "ex_txn_state (executor_create n st) = TXN_NONE"
  by (simp_all add: executor_create_def)

theorem insert_statement_witness:
  "\<exists>s p x' s'. rows_rep s p [] \<and>
    executor_exec (executor_create 0 (Some s)) (Some (AST_INSERT ''ab'' [] demo_values)) = ret (0, x') \<and>
    ex_storage x' = Some s' \<and> rows_rep s' p [(1, le_bytes 8 (7 :: u64))]"
proof -
  obtain s e where s: "db_rep s [(3, e)]" "find_table [(3, e)] (c_text ''ab'') = Some e" "rows_rep s (ce_root_page e) []"
    by (rule demo_db)
  then obtain s' where s': "executor_exec (executor_create 0 (Some s)) (Some (AST_INSERT ''ab'' [] demo_values)) =
      ret (0, (executor_create 0 (Some s))\<lparr>ex_storage := Some s', ex_rowid_counter := 1\<rparr>)"
      "rows_rep s' (ce_root_page e) [(1, le_bytes 8 (7 :: u64))]"
    using insert_statement[OF executor_create_simps(1) s demo_row, of 0 "[]"]
    by (auto simp: executor_create_simps demo_row_fits insert_status_def)
  show ?thesis
    by (rule exI[of _ s], rule exI[of _ "ce_root_page e"], rule exI, rule exI[of _ s'], intro conjI, rule s(3), rule s'(1))
      (simp_all add: s'(2))
qed

fun run_statements :: "Executor \<Rightarrow> AstNode list \<Rightarrow> (int list \<times> Executor) comp" where
  "run_statements x [] = ret ([], x)"
| "run_statements x (stmt # stmts) =
     bindc (executor_exec x (Some stmt)) (\<lambda>(r, x). bindc (run_statements x stmts) (\<lambda>(rs, x). ret (r # rs, x)))"

text \<open>C10: A transaction that is rolled back keeps its rows: after BEGIN, an INSERT that succeeds and ROLLBACK, all
  three answered with 0, the row is in the table.\<close>

theorem rollback_keeps_row:
  assumes "ex_storage x = Some s" "db_rep s kes" "find_table kes (c_text name) = Some e"
    "rows_rep s (ce_root_page e) kvs" "put_rows values [] = ret buf" "\<not> ex_in_transaction x"
    "insert_spec (ex_rowid_counter x + 1) buf kvs = Some kvs'"
  shows "\<exists>x' s'. run_statements x [AST_TRANSACTION TX_BEGIN, AST_INSERT name cols values, AST_TRANSACTION TX_ROLLBACK] =
      ret ([0, 0, 0], x') \<and> ex_storage x' = Some s' \<and> rows_rep s' (ce_root_page e) kvs' \<and>
      ex_txn_state x' = TXN_ROLLED_BACK"
proof -
  let ?x = "x\<lparr>ex_in_transaction := True, ex_txn_state := TXN_ACTIVE\<rparr>"
  have b: "executor_exec x (Some (AST_TRANSACTION TX_BEGIN)) = ret (0, ?x)"
    using assms(1,6) db_repD(5)[OF assms(2)]
    by (simp add: executor_exec_def executor_exec_transaction_def executor_exec_begin_def tinydb_begin_def)
  obtain s' where s': "executor_exec_insert ?x name values =
      ret (0, ?x\<lparr>ex_storage := Some s', ex_rowid_counter := ex_rowid_counter x + 1\<rparr>)" "db_rep s' kes"
    "rows_rep s' (ce_root_page e) kvs'"
    by (rule exec_insert_eval[of ?x, OF _ assms(2-5)]) (use assms(1,7) in \<open>simp_all add: insert_status_def\<close>)
  from b s' db_repD(5)[OF s'(2)] show ?thesis
    by (simp add: executor_exec_def executor_exec_transaction_def executor_exec_rollback_def tinydb_rollback_def)
qed

theorem rollback_keeps_row_witness:
  "\<exists>s p x' s'. rows_rep s p [] \<and>
    run_statements (executor_create 0 (Some s))
      [AST_TRANSACTION TX_BEGIN, AST_INSERT ''ab'' [] demo_values, AST_TRANSACTION TX_ROLLBACK] = ret ([0, 0, 0], x') \<and>
    ex_storage x' = Some s' \<and> rows_rep s' p [(1, le_bytes 8 (7 :: u64))]"
proof -
  obtain s e where s: "db_rep s [(3, e)]" "find_table [(3, e)] (c_text ''ab'') = Some e" "rows_rep s (ce_root_page e) []"
    by (rule demo_db)
  then show ?thesis
    using rollback_keeps_row[OF executor_create_simps(1) s demo_row, of 0 "[(1, le_bytes 8 (7 :: u64))]" "[]"]
    by (simp add: executor_create_simps demo_row_fits del: run_statements.simps) blast
qed

text \<open>C11: Creating a table is undefined: whenever the tree for a new table can be created, CREATE TABLE closes it twice, and
  the second time uses memory that was freed.\<close>

theorem create_table_undefined:
  assumes "ex_storage x = Some s" "db_rep s kes" "can_create (st_cache s)"
  shows "executor_exec x (Some (AST_CREATE_TABLE name if_not_exists cols)) = undef"
  using exec_create_undefined[OF assms] by (simp add: executor_exec_def)

theorem create_table_undefined_witness:
  "\<exists>s. db_rep s [] \<and> executor_exec (executor_create 0 (Some s)) (Some (AST_CREATE_TABLE ''t'' False [])) = undef"
proof -
  obtain s where s: "db_rep s []" "can_create (st_cache s)" by (rule fresh_db)
  with create_table_undefined[OF _ s, of "executor_create 0 (Some s)"] show ?thesis by (auto simp: executor_create_def)
qed

text \<open>C32: Every sequence of BEGIN, COMMIT and ROLLBACK on an open database returns what the machine with one active
  transaction returns, and changes nothing but the state of the transaction.\<close>

theorem transaction_sequence:
  assumes "txn_ok x"
  shows "run_transactions x tys =
    (fst (transactions_spec (ex_txn_state x) tys), set_txn x (snd (transactions_spec (ex_txn_state x) tys)))"
  using assms
proof (induction tys arbitrary: x)
  case Nil
  then show ?case by (simp add: set_txn_self)
next
  case (Cons ty tys)
  show ?case
    using Cons.IH[of "set_txn x (snd (transactions_spec (ex_txn_state x) [ty]))"] Cons.prems
    by (simp add: transaction_step[OF Cons.prems] Let_def split: prod.splits)
qed

theorem transaction_sequence_witness:
  "\<exists>s. db_rep s [] \<and> fst (run_transactions (executor_create 0 (Some s)) [TX_BEGIN, TX_BEGIN, TX_COMMIT, TX_ROLLBACK]) =
    [0, code ERR_TX_ALREADY_ACTIVE, 0, code ERR_TX_NOT_ACTIVE]"
proof -
  obtain s where s: "db_rep s []" by (rule fresh_db)
  then have "txn_ok (executor_create 0 (Some s))"
    using db_repD(5)[OF s] by (simp add: txn_ok_def executor_create_simps)
  from transaction_sequence[OF this, of "[TX_BEGIN, TX_BEGIN, TX_COMMIT, TX_ROLLBACK]"] s show ?thesis
    by (intro exI[of _ s]) (simp add: executor_create_simps del: run_transactions.simps)
qed

text \<open>C12: DISTINCT keeps a row exactly if it is equal to no earlier row that is kept, and leaves the rows it keeps in their
  order.  In particular no row that stays is equal to one before it, and every row is equal to one that stays.\<close>

theorem distinct_rows:
  assumes "rs_ok rs" "\<forall>row \<in> set (visible rs). length row = rs_column_count rs"
  shows "\<exists>rs'. select_apply_distinct rs = ret rs' \<and>
    (\<exists>I \<subseteq> {..<length (visible rs)}. visible rs' = nths (visible rs) I \<and>
       (\<forall>i < length (visible rs). i \<in> I \<longleftrightarrow>
          \<not> (\<exists>j \<in> I. j < i \<and> rows_same (visible rs ! i) (visible rs ! j)))) \<and>
    subseq (visible rs') (visible rs) \<and> sorted_wrt (\<lambda>r s. \<not> rows_same s r) (visible rs') \<and>
    (\<forall>row \<in> set (visible rs). \<exists>s \<in> set (visible rs'). rows_same row s)"
proof (cases "rs_row_count rs = 0")
  case True
  then show ?thesis by (simp add: select_apply_distinct_def visible_def)
next
  case False
  let ?k = "first_rows (visible rs) []"
  have "distinct_loop (rs_column_count rs) (visible rs) [] = ret ?k" by (rule distinct_loop_eq[OF assms(2)]) simp
  then have "select_apply_distinct rs =
      ret (rs\<lparr>rs_rows := ?k @ drop (length ?k) (rs_rows rs), rs_row_count := int (length ?k)\<rparr>)"
    using False assms(1) by (auto simp: select_apply_distinct_def rs_ok_def visible_def)
  with first_rows_props[of "[]" "visible rs"] first_rows_positions[of "visible rs"] show ?thesis by (simp add: visible_def)
qed

definition demo_result :: ResultSet where
  "demo_result = \<lparr>rs_rows = [[VALUE_INTEGER 1], [VALUE_INTEGER 2], [VALUE_INTEGER 1]], rs_row_count = 3, rs_column_count = 1,
     rs_capacity = 16\<rparr>"

theorem distinct_rows_witness:
  "\<exists>rs'. select_apply_distinct demo_result = ret rs' \<and> visible rs' = [[VALUE_INTEGER 1], [VALUE_INTEGER 2]]"
proof -
  have v: "visible demo_result = [[VALUE_INTEGER 1], [VALUE_INTEGER 2], [VALUE_INTEGER 1]]" by (simp add: demo_result_def visible_def)
  have "rs_ok demo_result" "\<forall>row \<in> set (visible demo_result). length row = rs_column_count demo_result"
    by (simp_all add: demo_result_def rs_ok_def visible_def)
  from distinct_rows[OF this] obtain rs' I where rs': "select_apply_distinct demo_result = ret rs'"
    "visible rs' = nths (visible demo_result) I"
    and I: "\<And>i. i < 3 \<Longrightarrow> i \<in> I \<longleftrightarrow>
      \<not> (\<exists>j \<in> I. j < i \<and> rows_same (visible demo_result ! i) (visible demo_result ! j))"
    unfolding v by auto
  have 0: "0 \<in> I" using I[of 0] by simp
  have 1: "1 \<in> I" using I[of 1] by (auto simp: v rows_same_def less_Suc_eq value_compare_def value_is_null_def word_sless_alt)
  have 2: "2 \<notin> I" using I[of 2] 0 by (auto simp: v rows_same_def value_compare_self)
  show ?thesis using rs' 0 1 2 by (auto simp: v nths_Cons numeral_2_eq_2)
qed

text \<open>C33: LIMIT and OFFSET with numbers below 2^31 select the rows from the offset on, at most as many as the limit; but when
  there are rows behind the offset and the sum of the two numbers does not fit into an int, the query is undefined.\<close>

theorem limit_offset:
  assumes "rs_ok rs" "unat l < 2 ^ 31" "unat off < 2 ^ 31"
  shows "(if unat off < length (visible rs) \<and> 2 ^ 31 \<le> unat off + unat l
     then select_apply_limit rs (Some (EXPR_LITERAL_INT l)) (Some (EXPR_LITERAL_INT off)) = undef
     else (\<exists>rs'. select_apply_limit rs (Some (EXPR_LITERAL_INT l)) (Some (EXPR_LITERAL_INT off)) = ret rs' \<and> rs_ok rs' \<and>
        visible rs' = take (unat l) (drop (unat off) (visible rs))))"
  using limit_rows[OF assms] by simp

theorem limit_offset_witness:
  "(\<exists>rs'. select_apply_limit demo_result (Some (EXPR_LITERAL_INT 1)) (Some (EXPR_LITERAL_INT 1)) = ret rs' \<and>
      visible rs' = [[VALUE_INTEGER 2]]) \<and>
    select_apply_limit demo_result (Some (EXPR_LITERAL_INT 2147483647)) (Some (EXPR_LITERAL_INT 1)) = undef"
  using limit_offset[of demo_result 1 1] limit_offset[of demo_result 2147483647 1]
  by (auto simp: demo_result_def rs_ok_def visible_def)

end
