(* ===== verification/Session.thy ===== *)
theory Session
  imports Database
begin

text \<open>
  From one session to the next: closing a database (\<^verbatim>\<open>tinydb_close\<close>: the catalog, the cache, the pager) and
  opening the file it leaves.  \<open>disk_ok\<close> is what the operations keep of the file while a database is open.
\<close>

section \<open>The file under a cache\<close>

definition disk_ok :: "u32 \<Rightarrow> PageCache \<Rightarrow> bool" where
  "disk_ok n c \<longleftrightarrow> (\<exists>pg. pc_pager c = Some pg \<and> pager_inv pg [] \<and> header_synced pg \<and> p_page_count pg = n) \<and>
     (\<forall>p. resident c p \<longrightarrow> 0 < p \<and> p < n)"

definition sized :: "PageCache \<Rightarrow> bool" where
  "sized c \<longleftrightarrow> (\<forall>a g. pc_heap c a = Some g \<longrightarrow> length (pg_data g) = PAGE_SIZE)"

lemma ready_sized: "cache_ready c \<Longrightarrow> sized c"
  unfolding cache_ready_def cache_wf_def table_ok_def sized_def by blast

lemma disk_okD:
  assumes "disk_ok n c"
  obtains pg where "pc_pager c = Some pg" "pager_inv pg []" "header_synced pg" "p_page_count pg = n"
  using assms by (auto simp: disk_ok_def)

lemma disk_ok_cong: "disk_ok n c \<Longrightarrow> pc_pager c' = pc_pager c \<Longrightarrow> resident c' = resident c \<Longrightarrow> disk_ok n c'"
  by (simp add: disk_ok_def)

lemma disk_upd:
  assumes "disk_ok n c" "page_upd a f c = ret c'" "\<And>g. pg_id (f g) = pg_id g"
  shows "disk_ok n c'"
  by (rule disk_ok_cong[OF assms(1)])
    (use page_upd_resident[OF assms(2,3)] page_upd_outer[OF assms(2)] in \<open>simp_all add: outer_def\<close>)

lemma disk_upd_if:
  assumes "disk_ok n c" "upd_if q f c = ret c'" "\<And>g. pg_id (f g) = pg_id g"
  shows "disk_ok n c'"
  using assms(2) disk_upd[OF assms(1) _ assms(3), of _ c'] assms(1) by (auto simp: upd_if_def split: option.splits)

lemma disk_mark:
  "disk_ok n c \<Longrightarrow> page_unpin q c = ret c' \<Longrightarrow> disk_ok n c'"
  "disk_ok n c \<Longrightarrow> page_mark_dirty q c = ret c' \<Longrightarrow> disk_ok n c'"
  "disk_ok n c \<Longrightarrow> set_page_data a d c = ret c' \<Longrightarrow> disk_ok n c'"
  unfolding page_unpin_def page_mark_dirty_def set_page_data_def
  by (erule disk_upd_if disk_upd, assumption, simp)+

lemma disk_like: "disk_ok n c \<Longrightarrow> like c c' \<Longrightarrow> disk_ok n c'"
  using like_cached[of c c'] by (intro disk_ok_cong[of n c c']) (simp_all add: resident_def fun_eq_iff like_def)

section \<open>Reading and writing pages\<close>

lemma header_synced_bytes:
  assumes "header_synced pg" "get_at 0 HEADER_SIZE (fbytes f) = get_at 0 HEADER_SIZE (fbytes (p_fd pg))"
  shows "header_synced (pg\<lparr>p_fd := f, p_file_size := k\<rparr>)" "header_synced (pg\<lparr>p_fd := f\<rparr>)"
  using assms by (simp_all add: header_synced_def disk_header_def)

lemma disk_read:
  assumes "pager_inv pg []" "header_synced pg" "0 < p" "p < p_page_count pg" "pager_read_page p pg = (r, pg')"
  shows "pager_inv pg' []" "header_synced pg'" "p_page_count pg' = p_page_count pg"
proof -
  have "p \<in> live_pages pg []" using assms(3,4) by (simp add: live_pages_def)
  then obtain f where f: "pg' = pg\<lparr>p_fd := f\<rparr>" "pager_inv (pg\<lparr>p_fd := f\<rparr>) []" "fbytes f = fbytes (p_fd pg)"
    using pager_read_live[OF assms(1)] assms(5) by (metis prod.inject)
  then show "pager_inv pg' []" "header_synced pg'" "p_page_count pg' = p_page_count pg"
    using header_synced_bytes(2)[OF assms(2)] by simp_all
qed

lemma disk_write:
  assumes "pager_inv pg []" "header_synced pg" "0 < p" "p < p_page_count pg" "length b = PAGE_SIZE"
    "pager_write_page p b pg = (r, pg')"
  shows "pager_inv pg' []" "header_synced pg'" "p_page_count pg' = p_page_count pg"
proof -
  have "p \<in> live_pages pg []" using assms(3,4) by (simp add: live_pages_def)
  then show "pager_inv pg' []" "p_page_count pg' = p_page_count pg"
    using pager_write_live[OF assms(1) _ assms(5)] assms(6) by (metis prod.inject)+
  obtain f k where f: "pager_write_page p b pg = (True, pg\<lparr>p_fd := f, p_file_size := k\<rparr>)"
    "fbytes f = put_at (get_page_offset p) b (fbytes (p_fd pg))"
    by (rule pager_write_page_ok[OF pager_inv_ready[OF assms(1)] assms(5)])
  have o: "HEADER_SIZE \<le> get_page_offset p" "HEADER_SIZE \<le> length (fbytes (p_fd pg))"
    using assms(1,3) by (auto simp: get_page_offset_def PAGE_SIZE_def HEADER_SIZE_def word_less_nat_alt pager_inv_def)
  have "get_at 0 HEADER_SIZE (fbytes f) = get_at 0 HEADER_SIZE (fbytes (p_fd pg))"
    unfolding f(2) using o by (intro get_at_put_at_disjoint) simp_all
  then show "header_synced pg'" using header_synced_bytes(1)[OF assms(2)] f(1) assms(6) by simp
qed

lemma disk_get:
  assumes "disk_ok n c" "cache_ready c" "reachable c p" "0 < p" "p < n" "page_pin p c = ret (q, c')"
  shows "disk_ok n c'"
proof (cases "resident c p")
  case True
  then obtain a where "cached c a p" by (auto simp: resident_def)
  then obtain c2 where "page_cache_get p c = ret (Some a, c2)" "like c c2"
    by (rule get_hit[OF cache_ready_wf[OF assms(2)]])
  then show ?thesis using assms(1,6) disk_like by (auto simp: page_pin_def)
next
  case False
  obtain pg where pg: "pc_pager c = Some pg" "pager_inv pg []" "header_synced pg" "p_page_count pg = n"
    by (rule disk_okD[OF assms(1)])
  have miss: "\<not> cached c a p" for a using False by (simp add: resident_def)
  have room: "pc_count c < pc_max_pages c" "pager_valid pg p" using assms(3) False pg(1) by (auto simp: reachable_def)
  obtain a c2 pg' where g: "page_cache_get p c = ret (Some a, c2)" "cache_wf c2"
    "vis c2 = (vis c)(a \<mapsto> (pager_page pg p, p, False))" "pc_pager c2 = Some pg'" "snd (pager_read_page p pg) = pg'"
    by (rule get_miss[OF cache_ready_wf[OF assms(2)] miss room(1) pg(1) pager_inv_ready[OF pg(2)] room(2)]) blast
  have c2: "c2 = c'" using g(1) assms(6) by (simp add: page_pin_def)
  have "pager_inv pg' []" "header_synced pg'" "p_page_count pg' = n"
    using disk_read[OF pg(2,3) assms(4)] assms(5) pg(4) g(5) by (metis prod.collapse)+
  moreover have "q = p \<or> resident c q" if "resident c' q" for q
    using that g(3) unfolding c2 by (auto simp: resident_def cached_vis split: if_splits)
  ultimately show ?thesis using g(4) assms(1,4,5) by (auto simp: disk_ok_def c2)
qed

lemma disk_write_back:
  assumes "disk_ok n c" "sized c" "pc_heap c a = Some g" "write_back g c = (w, c')"
  shows "disk_ok n c'" "sized c'"
proof -
  obtain pg where pg: "pc_pager c = Some pg" "pager_inv pg []" "header_synced pg" "p_page_count pg = n"
    by (rule disk_okD[OF assms(1)])
  have "resident c (pg_id g)" using assms(3) by (auto simp: resident_def cached_def)
  then have g: "0 < pg_id g" "pg_id g < p_page_count pg" "length (pg_data g) = PAGE_SIZE"
    using assms(1-3) pg(4) by (auto simp: disk_ok_def sized_def)
  have "disk_ok n c' \<and> sized c'"
  proof (cases "pg_is_dirty g")
    case True
    obtain r pg' where w: "pager_write_page (pg_id g) (pg_data g) pg = (r, pg')" by fastforce
    then have "c' = c\<lparr>pc_pager := Some pg'\<rparr>" using True assms(4) pg(1) by (simp add: write_back_def)
    then show ?thesis using assms(1,2) disk_write[OF pg(2,3) g w] pg(4)
      by (simp add: disk_ok_def sized_def resident_def cached_def)
  next
    case False
    then show ?thesis using assms(1,2,4) pg(1) by (simp add: write_back_def)
  qed
  then show "disk_ok n c'" "sized c'" by blast+
qed

section \<open>Flushing and freeing\<close>

lemma disk_flush_chain:
  assumes "flush_chain q k c = ret (m, c')" "disk_ok n c" "sized c"
  shows "disk_ok n c' \<and> sized c'"
proof -
  have "disk_ok n c \<and> sized c \<longrightarrow> (\<forall>m' d. Done (m, c') = Done (m', d) \<longrightarrow> disk_ok n d \<and> sized d)"
  proof (rule flush_chain.raw_induct[where P = "\<lambda>q k c y. disk_ok n c \<and> sized c \<longrightarrow> (\<forall>m d. y = Done (m, d) \<longrightarrow> disk_ok n d \<and> sized d)", OF _ assms(1)[unfolded ret_def]])
    fix f :: "addr option \<Rightarrow> int \<Rightarrow> PageCache \<Rightarrow> (int \<times> PageCache) comp" and q k c and y :: "(int \<times> PageCache) outcome"
    assume IH: "\<And>q k c y. f q k c = Some y \<Longrightarrow> disk_ok n c \<and> sized c \<longrightarrow> (\<forall>m d. y = Done (m, d) \<longrightarrow> disk_ok n d \<and> sized d)"
      and e: "(case q of None \<Rightarrow> ret (k, c) | Some a \<Rightarrow> bindc (page_at a c) (\<lambda>p. case write_back p c of (written, c) \<Rightarrow>
        if written = Some True then bindc (page_upd a (\<lambda>p. p\<lparr>pg_is_dirty := False\<rparr>) c) (\<lambda>c. f (pg_hash_next p) (k + 1) c)
        else f (pg_hash_next p) k c)) = Some y"
    show "disk_ok n c \<and> sized c \<longrightarrow> (\<forall>m d. y = Done (m, d) \<longrightarrow> disk_ok n d \<and> sized d)"
    proof (intro impI allI)
      fix m d assume c: "disk_ok n c \<and> sized c" and y: "y = Done (m, d)"
      show "disk_ok n d \<and> sized d"
      proof (cases q)
        case None
        then show ?thesis using e y c by (simp add: ret_def)
      next
        case (Some a)
        then obtain g w c1 where g: "pc_heap c a = Some g" "write_back g c = (w, c1)"
          "(if w = Some True then bindc (page_upd a (\<lambda>p. p\<lparr>pg_is_dirty := False\<rparr>) c1) (\<lambda>c. f (pg_hash_next g) (k + 1) c)
            else f (pg_hash_next g) k c1) = ret (m, d)"
          using e y by (cases "pc_heap c a"; cases "write_back (the (pc_heap c a)) c") (auto simp: page_at_def ret_def undef_def)
        have c1: "disk_ok n c1" "sized c1" using disk_write_back[OF _ _ g(1,2)] c by blast+
        show ?thesis
        proof (cases "w = Some True")
          case True
          then obtain c2 where c2: "page_upd a (\<lambda>p. p\<lparr>pg_is_dirty := False\<rparr>) c1 = ret c2" "f (pg_hash_next g) (k + 1) c2 = ret (m, d)"
            using g(3) by (auto simp: bindc_eq_ret)
          have "disk_ok n c2" by (rule disk_upd[OF c1(1) c2(1)]) simp
          moreover have "sized c2" using c1(2) c2(1) by (auto simp: sized_def page_upd_def split: option.splits if_splits)
          ultimately show ?thesis using IH[of _ _ c2] c2(2) by (auto simp: ret_def)
        next
          case False
          then show ?thesis using IH[of _ _ c1] g(3) c1 by (auto simp: ret_def)
        qed
      qed
    qed
  qed
  then show ?thesis using assms(2,3) by blast
qed

lemma disk_flush:
  assumes "page_cache_flush c = ret (m, c')" "disk_ok n c" "sized c"
  shows "disk_ok n c' \<and> sized c'"
proof -
  have "flush_buckets is k c = ret (m, c') \<Longrightarrow> disk_ok n c \<Longrightarrow> sized c \<Longrightarrow> disk_ok n c' \<and> sized c'" for "is" k
    by (induction "is" arbitrary: k c) (auto simp: bindc_eq_ret dest: disk_flush_chain)
  then show ?thesis using assms by (simp add: page_cache_flush_def)
qed

lemma free_pages_eval:
  assumes "chain (pc_heap c) prev q as" "distinct as"
  shows "free_pages q c = ret (c\<lparr>pc_heap := pc_heap c |` (- set as)\<rparr>)"
  using assms
proof (induction as arbitrary: prev q c)
  case Nil
  then show ?case by (simp add: free_pages.simps[of None])
next
  case (Cons a as)
  then obtain g where g: "q = Some a" "pc_heap c a = Some g" "chain (pc_heap c) (Some a) (pg_hash_next g) as" by auto
  let ?c = "c\<lparr>pc_heap := (pc_heap c)(a := None)\<rparr>"
  have "chain (pc_heap ?c) (Some a) (pg_hash_next g) as"
    by (rule chain_cong[OF _ g(3)]) (use Cons.prems(2) in auto)
  then have "free_pages (pg_hash_next g) ?c = ret (?c\<lparr>pc_heap := pc_heap ?c |` (- set as)\<rparr>)"
    by (rule Cons.IH) (use Cons.prems(2) in simp)
  moreover have "pc_heap ?c |` (- set as) = pc_heap c |` (- set (a # as))"
    by (auto simp: restrict_map_def fun_eq_iff)
  ultimately show ?case using g(1,2)
    by (subst free_pages.simps) (simp add: page_at_def page_free_def)
qed

lemma bucket_member:
  "table_ok c B \<Longrightarrow> i < pc_table_size c \<Longrightarrow> a \<in> set (B ! i) \<Longrightarrow>
   \<exists>g. pc_heap c a = Some g \<and> hash_page_id (pg_id g) (pc_table_size c) = i"
  by (simp add: table_ok_def)

lemma free_buckets_eval:
  assumes t: "table_ok c B" and "pc_heap d = pc_heap c |` (- X)" "pc_pages d = pc_pages c"
    "set is \<subseteq> {..<pc_table_size c}" "distinct is" "\<And>i. i \<in> set is \<Longrightarrow> set (B ! i) \<inter> X = {}"
  shows "\<exists>d'. free_buckets is d = ret d' \<and> pc_pager d' = pc_pager d"
  using assms(2-)
proof (induction "is" arbitrary: d X)
  case (Cons i "is")
  have i: "i < pc_table_size c" "chain (pc_heap c) None (pc_pages c ! i) (B ! i)" "distinct (B ! i)" "i < length (pc_pages c)"
    using Cons.prems(3) t unfolding table_ok_def by auto
  have "chain (pc_heap d) None (pc_pages c ! i) (B ! i)"
    by (rule chain_cong[OF _ i(2)]) (use Cons.prems(1) Cons.prems(5)[of i] in \<open>auto simp: restrict_map_def\<close>)
  note f = free_pages_eval[OF this i(3)]
  let ?d = "d\<lparr>pc_heap := pc_heap d |` (- set (B ! i))\<rparr>"
  have "set (B ! j) \<inter> (X \<union> set (B ! i)) = {}" if "j \<in> set is" for j
  proof -
    have "j \<noteq> i" "j < pc_table_size c" using that Cons.prems(3,4) by auto
    then have "set (B ! j) \<inter> set (B ! i) = {}" using bucket_member[OF t i(1)] bucket_member[OF t, of j] by fastforce
    then show ?thesis using Cons.prems(5)[of j] that by auto
  qed
  moreover have "pc_heap ?d = pc_heap c |` (- (X \<union> set (B ! i)))" using Cons.prems(1) by (simp add: restrict_restrict Compl_Un)
  ultimately obtain d' where "free_buckets is ?d = ret d'" "pc_pager d' = pc_pager ?d"
    using Cons.IH[of ?d "X \<union> set (B ! i)"] Cons.prems(2-4) by auto
  then show ?case using f i(4) Cons.prems(2) by (simp add: bucket_def)
qed simp

lemma destroy_eval:
  assumes "cache_ready c" "disk_ok n c"
  obtains pg where "page_cache_destroy c = ret (Some pg)" "pager_inv pg []" "header_synced pg" "p_page_count pg = n"
proof -
  obtain m c1 where c1: "page_cache_flush c = ret (m, c1)" "flushes c c1 (dom (pc_heap c))" by (rule flush_good[OF assms(1)])
  then obtain B where B: "table_ok c1 B" by (auto simp: flushes_def cache_ready_def cache_wf_def)
  obtain d where "free_buckets [0..<pc_table_size c1] c1 = ret d" "pc_pager d = pc_pager c1"
    using free_buckets_eval[OF B, of c1 "{}" "[0..<pc_table_size c1]"] by (auto simp: restrict_map_def atLeast0LessThan)
  moreover have "disk_ok n c1" by (rule disk_flush[OF c1(1) assms(2) ready_sized[OF assms(1)], THEN conjunct1])
  ultimately show thesis using that c1(1) by (auto simp: page_cache_destroy_def disk_ok_def)
qed

section \<open>Closing and opening again\<close>

lemma reopen_pager:
  assumes "pager_inv pg []" "header_synced pg"
  obtains pg' where "pager_open (Some (pager_close pg)) None = Some pg'" "pager_inv pg' []" "p_page_count pg' = p_page_count pg"
proof -
  have c: "calm (p_fd pg)" "fwritable (p_fd pg)" "HEADER_SIZE \<le> length (fbytes (p_fd pg))" using assms(1) by (simp_all add: pager_inv_def)
  have cl: "calm (pager_close pg)" "fwritable (pager_close pg)" "fbytes (pager_close pg) = fbytes (p_fd pg)"
    using c(1,2) by (auto simp: pager_close_def sys_defs calm_def split: list.splits)
  have n: "nofail (pager_close pg)" using cl(1) by simp
  obtain f where f: "pager_open (Some (pager_close pg)) None = Some (pg\<lparr>p_fd := f,
      p_file_size := length (fbytes (pager_close pg)), p_is_open := True\<rparr>)" "fbytes f = fbytes (pager_close pg)" "same_env (pager_close pg) f"
    by (rule pager_open_synced[OF n cl(3) assms(2)]) (use c(3) cl(3) in simp)
  have "calm f" "fwritable f" using same_env_calm[OF f(3)] same_env_writable[OF f(3)] cl by simp_all
  then show thesis using that[OF f(1)] assms(1) f(2) cl(3) by (simp add: pager_inv_def pager_free_list_def)
qed

lemma close_storage:
  assumes "catalog_rep (st_catalog s) (st_cache s) kes" "disk_ok n (st_cache s)"
  obtains pg where "tinydb_close s = ret (Some (pager_close pg))" "pager_inv pg []" "header_synced pg" "p_page_count pg = n"
proof -
  have r: "cache_ready (st_cache s)" "bt_alive (ca_tree (st_catalog s))"
    using assms(1) by (simp_all add: catalog_rep_def tree_rep_def)
  obtain m c where c: "page_cache_flush (st_cache s) = ret (m, c)" "flushes (st_cache s) c (dom (pc_heap (st_cache s)))"
    by (rule flush_good[OF r(1)])
  have "cache_ready c" "disk_ok n c" using c disk_flush[OF c(1) assms(2) ready_sized[OF r(1)]] by (simp_all add: flushes_def)
  then obtain pg where "page_cache_destroy c = ret (Some pg)" "pager_inv pg []" "header_synced pg" "p_page_count pg = n"
    by (rule destroy_eval)
  with c(1) r(2) show thesis
    by (intro that[of pg]) (simp_all add: tinydb_close_def catalog_close_def btree_close_def)
qed

section \<open>A session\<close>

lemma disk_create:
  assumes can: "can_create c" and ok: "disk_ok n c" and t: "btree_create c = ret (Some t, c')"
  shows "disk_ok (n + 1) c'"
proof -
  obtain pg where pg: "pc_pager c = Some pg" "pager_inv pg []" "header_synced pg" "p_page_count pg = n"
    by (rule disk_okD[OF ok])
  have c: "cache_ready c" "\<not> resident c 0" "pc_count c < pc_max_pages c" "p_page_count pg + 1 \<noteq> 0"
    using can pg(1) by (auto simp: can_create_def)
  obtain pg1 where a: "pager_allocate_page pg = (Some n, pg1)" "cache_ready (c\<lparr>pc_pager := Some pg1\<rparr>)"
    "reachable (c\<lparr>pc_pager := Some pg1\<rparr>) n" "pager_inv pg1 []"
    by (rule allocate_root[OF c(1-3) pg(1,2) c(4)]) (simp add: pg(4))
  have s1: "header_synced pg1" "p_page_count pg1 = n + 1"
    using a(1) pg(3,4) pager_allocate_grow[OF pg(2) c(4)] by (metis prod.inject)+
  have n: "0 < n" "n < n + 1" using pg(2,4) c(4) unat_Suc_word[OF c(4)] by (simp_all add: pager_inv_def word_less_nat_alt)
  have "q < n + 1" if "q < n" for q using that n(2) by simp
  then have d1: "disk_ok (n + 1) (c\<lparr>pc_pager := Some pg1\<rparr>)"
    using ok a(4) s1 by (auto simp: disk_ok_def resident_def cached_def)
  obtain b d c2 c3 c4 where u: "page_pin n (c\<lparr>pc_pager := Some pg1\<rparr>) = ret (Some b, c2)" "set_page_data b d c2 = ret c3"
    "page_mark_dirty (Some b) c3 = ret c4" "page_unpin (Some b) c4 = ret c'"
    using t pg(1) a(1) by (auto simp: btree_create_def bindc_eq_ret split: option.splits)
  show ?thesis
    using disk_get[OF d1 a(2,3) n u(1)] disk_mark(3)[OF _ u(2)] disk_mark(2)[OF _ u(3)] disk_mark(1)[OF _ u(4)] by blast
qed

lemma disk_open:
  assumes "open_pager path rdwr rdonly created = Some pg" "pager_inv pg []" "header_synced pg" "p_page_count pg + 1 \<noteq> 0"
    "tinydb_open d path rdwr rdonly created = ret (0, Some s)"
  shows "disk_ok (p_page_count pg + 1) (st_cache s)"
proof -
  let ?c = "page_cache_create d 256 (Some pg)"
  obtain catalog where "catalog_open ?c = ret (Some catalog, st_cache s)"
    using assms(1,5) by (auto simp: tinydb_open_def bindc_eq_ret split: option.splits)
  then have "btree_create ?c = ret (Some (ca_tree catalog), st_cache s)"
    by (auto simp: catalog_open_def bindc_eq_ret split: option.splits)
  moreover have "disk_ok (p_page_count pg) ?c"
    using assms(2,3) cache_create_ready(2)[of 256 pg d, OF _ pager_inv_ready[OF assms(2)]]
    by (simp add: disk_ok_def page_cache_create_def Let_def)
  ultimately show ?thesis using disk_create[OF can_create_new[OF assms(2,4)]] by blast
qed

lemma disk_pin:
  assumes "disk_ok n c" "cache_ready c" "resident c p" "page_pin p c = ret (q, c')"
  shows "disk_ok n c'"
  using disk_get[OF assms(1,2) _ _ _ assms(4)] assms(1,3) by (auto simp: reachable_def disk_ok_def)

lemma disk_find:
  assumes t: "tree_rep t c kvs" and ok: "disk_ok n c" "resident c (bt_root_page t)" and f: "btree_find t key c = ret (x, c')"
  shows "disk_ok n c'"
proof -
  note T = tree_repD[OF t]
  obtain a c1 c2 where a: "page_pin (bt_root_page t) c = ret (Some a, c1)" "page_data a c1 = ret (cache_view c (bt_root_page t))"
    "page_unpin (Some a) c1 = ret c2" by (rule access_page[OF T(3,4)])
  have "descend (find_leaf key) (find_child key) (Suc 15) (bt_root_page t) 0 (cursor_new t True) c = ret (x, c')"
    using f T(1,2) by (simp add: btree_find_def BTREE_MAX_DEPTH_Suc del: descend.simps)
  then have "c' = c2" using a leaf_get_header[OF T(5)] find_leaf_eval[OF T(5), of key t] by (simp only: descend.simps) simp
  then show ?thesis using disk_pin[OF ok(1) T(3) ok(2) a(1)] disk_mark(1)[OF _ a(3)] by blast
qed

lemma disk_insert:
  assumes t: "tree_rep t c kvs" and ok: "disk_ok n c" "resident c (bt_root_page t)"
    and i: "btree_insert t key value len c = ret (x, c')"
  shows "disk_ok n c'"
proof -
  note T = tree_repD[OF t]
  obtain c1 where 1: "btree_find t key c = ret (Some (cursor_at t True 0 (key_index kvs key) (key \<notin> fst ` set kvs)), c1)"
    "cache_ready c1" "resident c1 (bt_root_page t)"
    by (rule find_eval[OF t]) (auto simp: tree_rep_def)
  have d1: "disk_ok n c1" by (rule disk_find[OF t ok 1(1)])
  have cur: "cu_page (cursor_at t True 0 k b) = bt_root_page t" "cu_is_end (cursor_at t True 0 k b) = b" for k b
    by (simp_all add: cursor_at_def)
  have e: "(if key \<in> fst ` set kvs then bindc (page_pin (bt_root_page t) c1) (\<lambda>(page, c). bindc (page_unpin page c) (\<lambda>c. ret (True, c)))
    else bindc (page_pin (bt_root_page t) c1) (\<lambda>(page, c). case page of None \<Rightarrow> ret (False, c) | Some a \<Rightarrow>
      bindc (page_data a c) (\<lambda>d. bindc (insert_cell key value len (cu_cell (cursor_at t True 0 (key_index kvs key) (key \<notin> fst ` set kvs))) d) (\<lambda>r.
      case r of None \<Rightarrow> bindc (page_unpin page c) (\<lambda>c. ret (False, c)) | Some d \<Rightarrow>
        bindc (set_page_data a d c) (\<lambda>c. bindc (page_mark_dirty page c) (\<lambda>c. bindc (page_unpin page c) (\<lambda>c. ret (True, c)))))))) = ret (x, c')"
    using i 1(1) T(1,2) by (simp only: btree_insert_def bindc_simps cur prod.case option.case not_not if_True simp_thms if_False)
  obtain q c2 where q: "page_pin (bt_root_page t) c1 = ret (q, c2)" using e by (auto simp: bindc_eq_ret split: if_splits)
  have d2: "disk_ok n c2" by (rule disk_pin[OF d1 1(2,3) q])
  consider "c' = c2" | "page_unpin q c2 = ret c'" | a d c3 c4 where "set_page_data a d c2 = ret c3" "page_mark_dirty q c3 = ret c4" "page_unpin q c4 = ret c'"
    using e unfolding q by (auto simp: bindc_eq_ret split: if_splits option.splits)
  then show ?thesis using d2 disk_mark by cases blast+
qed

text \<open>C31: Closing a database and opening it again forgets its tables.  Take an open database whose catalog holds the
  entries \<open>kes\<close>, with the pages of the cache in a file without free pages and whose header is up to date, and with room
  for one more page.  Closing it succeeds; opening the file that this leaves succeeds as well, and yields an empty catalog:
  a lookup that found an entry before finds nothing now.\<close>

theorem close_forgets_tables:
  assumes "catalog_rep (st_catalog s) (st_cache s) kes" "disk_ok n (st_cache s)" "n + 1 \<noteq> 0"
  shows "\<exists>fd s'. tinydb_close s = ret (Some fd) \<and> tinydb_open d (Some path) (Some fd) rdonly created = ret (0, Some s') \<and>
    catalog_rep (st_catalog s') (st_cache s') [] \<and>
    (\<forall>ty name. \<exists>c c'.
       catalog_lookup_type_name (st_catalog s) ty name (st_cache s) =
         ret (find (\<lambda>e. ce_type e = ty \<and> ce_name e = name) (map snd kes), c) \<and>
       catalog_lookup_type_name (st_catalog s') ty name (st_cache s') = ret (None, c'))"
proof -
  obtain pg where pg: "tinydb_close s = ret (Some (pager_close pg))" "pager_inv pg []" "header_synced pg" "p_page_count pg = n"
    by (rule close_storage[OF assms(1,2)])
  obtain pg' where pg': "pager_open (Some (pager_close pg)) None = Some pg'" "pager_inv pg' []" "p_page_count pg' = p_page_count pg"
    by (rule reopen_pager[OF pg(2,3)])
  have o: "open_pager (Some path) (Some (pager_close pg)) rdonly created = Some pg'"
    using pg'(1) by (simp add: open_pager_def pager_open_def)
  have room: "p_page_count pg' + 1 \<noteq> 0" using assms(3) pg(4) pg'(3) by simp
  obtain s' where s': "tinydb_open d (Some path) (Some (pager_close pg)) rdonly created = ret (0, Some s')"
    "catalog_rep (st_catalog s') (st_cache s') []" by (rule open_storage[OF o pg'(2) room])
  have "\<exists>c. catalog_lookup_type_name (st_catalog s) ty name (st_cache s) =
      ret (find (\<lambda>e. ce_type e = ty \<and> ce_name e = name) (map snd kes), c)" for ty name
    by (rule lookup_eval[OF assms(1), of ty name]) blast
  moreover have "\<exists>c'. catalog_lookup_type_name (st_catalog s') ty name (st_cache s') = ret (None, c')" for ty name
    by (rule lookup_eval[OF s'(2), of ty name]) simp
  ultimately show ?thesis using pg(1) s' by blast
qed

text \<open>A session on a new file that stores a table, and the next one, which does not find it.\<close>

theorem close_forgets_tables_witness:
  "\<exists>s c1 c2 fd s' c3. tinydb_open 256 None None None (Some fresh_file) = ret (0, Some s) \<and>
    catalog_insert (st_catalog s) (demo_table ''ab'') (st_cache s) = ret (0, c1) \<and>
    catalog_lookup_type_name (st_catalog s) CATALOG_TYPE_TABLE ''ab'' c1 = ret (Some (demo_table ''ab''), c2) \<and>
    tinydb_close (s\<lparr>st_cache := c1\<rparr>) = ret (Some fd) \<and>
    tinydb_open 256 (Some ''t.db'') (Some fd) None None = ret (0, Some s') \<and>
    catalog_lookup_type_name (st_catalog s') CATALOG_TYPE_TABLE ''ab'' (st_cache s') = ret (None, c3)"
proof -
  obtain pg where pg: "pager_create (Some fresh_file) = Some pg" "pager_inv pg []" "p_page_count pg = 1"
    by (rule pager_create_inv[OF fresh_file_ok])
  have o: "open_pager None None None (Some fresh_file) = Some pg" using pg(1) by (simp add: open_pager_def)
  have room: "p_page_count pg + 1 \<noteq> 0" by (simp add: pg(3))
  obtain s where s: "tinydb_open 256 None None None (Some fresh_file) = ret (0, Some s)"
    "catalog_rep (st_catalog s) (st_cache s) []" "resident (st_cache s) (bt_root_page (ca_tree (st_catalog s)))"
    by (rule open_storage[OF o pg(2) room, of 256])
  have d: "disk_ok 2 (st_cache s)"
    using disk_open[OF o pg(2) pager_create_sim(3)[OF fresh_file_ok pg(1)] room s(1)] by (simp add: pg(3))
  have add: "catalog_add (demo_table ''ab'') [] = Some [(3, demo_table ''ab'')]"
    by (simp add: catalog_add_def catalog_key_def demo_table_def)
  obtain c1 where c1: "catalog_insert (st_catalog s) (demo_table ''ab'') (st_cache s) = ret (0, c1)"
    "catalog_rep (st_catalog s) c1 [(3, demo_table ''ab'')]"
    by (rule catalog_insert_eval[OF s(2) demo_table_ok(1)]) (simp add: add insert_status_def)
  have "disk_ok 2 c1"
    using c1(1) s(2,3) d disk_insert by (fastforce simp: catalog_insert_def bindc_eq_ret catalog_rep_def)
  then obtain fd s' where s': "tinydb_close (s\<lparr>st_cache := c1\<rparr>) = ret (Some fd)"
    "tinydb_open 256 (Some ''t.db'') (Some fd) None None = ret (0, Some s')"
    "\<forall>ty name. \<exists>c c'. catalog_lookup_type_name (st_catalog s) ty name c1 =
         ret (find (\<lambda>e. ce_type e = ty \<and> ce_name e = name) [demo_table ''ab''], c) \<and>
       catalog_lookup_type_name (st_catalog s') ty name (st_cache s') = ret (None, c')"
    using close_forgets_tables[of "s\<lparr>st_cache := c1\<rparr>" "[(3, demo_table ''ab'')]" 2 256 "''t.db''" None None] c1(2) by auto
  have "\<exists>c2 c3. catalog_lookup_type_name (st_catalog s) CATALOG_TYPE_TABLE ''ab'' c1 = ret (Some (demo_table ''ab''), c2) \<and>
      catalog_lookup_type_name (st_catalog s') CATALOG_TYPE_TABLE ''ab'' (st_cache s') = ret (None, c3)"
    using s'(3)[rule_format, of CATALOG_TYPE_TABLE "''ab''"] by (simp add: demo_table_def)
  then show ?thesis using s(1) c1(1) s'(1,2) by blast
qed

end
