(* ===== verification/Schema.thy ===== *)
theory Schema
  imports Catalog Ast
begin

text \<open>
  Table schemas (\<^verbatim>\<open>sql/schema.c\<close>).  A schema is written as a header of 84 bytes and 336 bytes for
  every column, into a buffer whose size the function does not know; here it is an argument.
  Reading checks the magic number, the version and the number of columns, but not the length.
  The flags of a column, numbers in the source, are truth values here.  \<^verbatim>\<open>schema_equal\<close> compares the numbers; that is
  the same for flags that are 0 or 1, as reading a schema makes them.
\<close>

section \<open>Columns and schemas\<close>

text \<open>The type of a column that was read back may be any number.\<close>

definition column_type_code :: "ColumnType \<Rightarrow> u32" where
  "column_type_code ty =
     (case ty of COL_TYPE_INTEGER \<Rightarrow> 0 | COL_TYPE_FLOAT \<Rightarrow> 1 | COL_TYPE_TEXT \<Rightarrow> 2 | COL_TYPE_BLOB \<Rightarrow> 3)"

definition column_size :: "u32 \<Rightarrow> u32" where
  "column_size ty =
     (if ty = column_type_code COL_TYPE_INTEGER \<or> ty = column_type_code COL_TYPE_FLOAT then 8
      else if ty = column_type_code COL_TYPE_TEXT \<or> ty = column_type_code COL_TYPE_BLOB then of_nat PAGE_SIZE
      else 0)"

definition column_type_name :: "u32 \<Rightarrow> string" where
  "column_type_name ty =
     (if ty = column_type_code COL_TYPE_INTEGER then ''INTEGER''
      else if ty = column_type_code COL_TYPE_FLOAT then ''FLOAT''
      else if ty = column_type_code COL_TYPE_TEXT then ''TEXT''
      else if ty = column_type_code COL_TYPE_BLOB then ''BLOB''
      else ''UNKNOWN'')"

record Column =
  co_name :: string
  co_type :: u32
  co_not_null :: bool
  co_primary_key :: bool
  co_auto_increment :: bool
  co_default_value :: string

record Schema =
  sch_table_name :: string
  sch_columns :: "Column list"
  sch_col_count :: int
  sch_root_page :: u32
  sch_auto_increment :: u64
  sch_is_open :: bool

definition schema_create :: "string \<Rightarrow> Column list \<Rightarrow> int \<Rightarrow> Schema option comp" where
  "schema_create table_name columns col_count =
     (if col_count \<le> 0 then ret None
      else if int (length columns) < col_count then undef
      else ret (Some \<lparr>sch_table_name = take 63 (takeWhile (\<lambda>c. c \<noteq> NUL) table_name),
                      sch_columns = take (nat col_count) columns, sch_col_count = col_count, sch_root_page = 0,
                      sch_auto_increment = 1, sch_is_open = True\<rparr>))"

definition schema_clone :: "Schema option \<Rightarrow> Schema option comp" where
  "schema_clone original =
     (case original of
        None \<Rightarrow> ret None
      | Some s \<Rightarrow> schema_create (sch_table_name s) (sch_columns s) (sch_col_count s))"

section \<open>Writing\<close>

definition SCHEMA_MAGIC :: u32 where
  "SCHEMA_MAGIC = 0x5343484D"

definition SCHEMA_VERSION :: u32 where
  "SCHEMA_VERSION = 1"

definition SCHEMA_MAX_SIZE :: nat where
  "SCHEMA_MAX_SIZE = 8192"

definition flag_bytes :: "bool \<Rightarrow> bytes" where
  "flag_bytes b = le_bytes 4 (if b then 1 else 0 :: u32)"

definition column_bytes :: "Column \<Rightarrow> bytes" where
  "column_bytes c =
     store_field 64 (co_name c) @ le_bytes 4 (co_type c) @ flag_bytes (co_not_null c) @ flag_bytes (co_primary_key c) @
     flag_bytes (co_auto_increment c) @
     (if co_default_value c \<noteq> [] \<and> hd (co_default_value c) \<noteq> NUL then store_field 256 (co_default_value c)
      else replicate 256 0)"

definition schema_header :: "Schema \<Rightarrow> bytes" where
  "schema_header s =
     le_bytes 4 SCHEMA_MAGIC @ le_bytes 4 SCHEMA_VERSION @ store_field 64 (sch_table_name s) @
     le_bytes 4 (word_of_int (sch_col_count s) :: u32) @ le_bytes 4 (ucast (drop_bit 32 (sch_auto_increment s)) :: u32) @
     le_bytes 4 (ucast (sch_auto_increment s) :: u32)"

definition schema_serialize :: "nat \<Rightarrow> Schema \<Rightarrow> (int \<times> bytes) comp" where
  "schema_serialize capacity s =
     (if int (length (sch_columns s)) < sch_col_count s then undef
      else
        let data = schema_header s @ concat (map column_bytes (take (nat (sch_col_count s)) (sch_columns s))) in
        if length data \<le> capacity then ret (code SUCCESS, data) else undef)"

section \<open>Reading\<close>

definition read_le :: "bytes \<Rightarrow> nat \<Rightarrow> u32 comp" where
  "read_le data offset = bindc (mem_read data offset 4) (\<lambda>bs. ret (le_val bs))"

text \<open>\<^verbatim>\<open>strncpy\<close> out of the buffer: it stops at a zero, or needs all of its bytes.\<close>

definition read_field :: "nat \<Rightarrow> bytes \<Rightarrow> nat \<Rightarrow> string comp" where
  "read_field n data offset =
     (let bs = get_at offset (n - 1) data in
      if length bs = n - 1 \<or> 0 \<in> set bs then ret (load_field n bs) else undef)"

definition read_column :: "bytes \<Rightarrow> nat \<Rightarrow> Column comp" where
  "read_column data offset =
     bindc (read_field 64 data offset) (\<lambda>name.
     bindc (read_le data (offset + 64)) (\<lambda>ty.
     bindc (read_le data (offset + 68)) (\<lambda>not_null.
     bindc (read_le data (offset + 72)) (\<lambda>primary_key.
     bindc (read_le data (offset + 76)) (\<lambda>auto_increment.
     bindc (read_field 256 data (offset + 80)) (\<lambda>default_value.
     ret \<lparr>co_name = name, co_type = ty, co_not_null = (not_null \<noteq> 0), co_primary_key = (primary_key \<noteq> 0),
          co_auto_increment = (auto_increment \<noteq> 0), co_default_value = default_value\<rparr>))))))"

fun read_columns :: "nat \<Rightarrow> bytes \<Rightarrow> nat \<Rightarrow> Column list comp" where
  "read_columns 0 data offset = ret []"
| "read_columns (Suc n) data offset =
     bindc (read_column data offset) (\<lambda>c. bindc (read_columns n data (offset + 336)) (\<lambda>cs. ret (c # cs)))"

definition schema_deserialize :: "bytes \<Rightarrow> u32 \<Rightarrow> Schema option comp" where
  "schema_deserialize data sz =
     (if sz < 148 then ret None
      else
        bindc (read_le data 0) (\<lambda>magic.
        if magic \<noteq> SCHEMA_MAGIC then ret None
        else
          bindc (read_le data 4) (\<lambda>version.
          if version \<noteq> SCHEMA_VERSION then ret None
          else
            bindc (read_field 64 data 8) (\<lambda>table_name.
            bindc (read_le data 72) (\<lambda>col_count.
            if col_count > of_nat MAX_COLUMNS then ret None
            else
              bindc (read_le data 76) (\<lambda>high.
              bindc (read_le data 80) (\<lambda>low.
              bindc (read_columns (unat col_count) data 84) (\<lambda>columns.
              bindc (schema_create table_name columns (int (unat col_count))) (\<lambda>s.
              ret (map_option (\<lambda>s. s\<lparr>sch_auto_increment := push_bit 32 (ucast high) OR ucast low\<rparr>) s))))))))))"

section \<open>Operations\<close>

fun column_index_from :: "string \<Rightarrow> Column list \<Rightarrow> int \<Rightarrow> int" where
  "column_index_from name [] i = - 1"
| "column_index_from name (c # cs) i = (if co_name c = name then i else column_index_from name cs (i + 1))"

definition schema_column_index :: "Schema option \<Rightarrow> string option \<Rightarrow> int" where
  "schema_column_index schema name =
     (case (schema, name) of
        (Some s, Some name) \<Rightarrow> column_index_from name (take (nat (sch_col_count s)) (sch_columns s)) 0
      | _ \<Rightarrow> - 1)"

definition schema_column :: "Schema option \<Rightarrow> string option \<Rightarrow> Column option" where
  "schema_column schema name =
     (case schema of
        None \<Rightarrow> None
      | Some s \<Rightarrow>
          (let idx = schema_column_index schema name in if 0 \<le> idx then Some (sch_columns s ! nat idx) else None))"

definition schema_validate_row :: "Schema option \<Rightarrow> bytes \<Rightarrow> int" where
  "schema_validate_row schema row_data = code SUCCESS"

definition schema_row_size :: "Schema option \<Rightarrow> u32" where
  "schema_row_size schema =
     (case schema of
        None \<Rightarrow> 0
      | Some s \<Rightarrow> sum_list (map (column_size \<circ> co_type) (take (nat (sch_col_count s)) (sch_columns s))))"

definition columns_equal :: "Column \<Rightarrow> Column \<Rightarrow> bool" where
  "columns_equal ca cb \<longleftrightarrow> co_name ca = co_name cb \<and> co_type ca = co_type cb \<and> co_not_null ca = co_not_null cb \<and>
     co_primary_key ca = co_primary_key cb"

definition schema_equal :: "Schema option \<Rightarrow> Schema option \<Rightarrow> bool" where
  "schema_equal a b =
     (case (a, b) of
        (Some a, Some b) \<Rightarrow>
          sch_table_name a = sch_table_name b \<and> sch_col_count a = sch_col_count b \<and>
          list_all2 columns_equal (take (nat (sch_col_count a)) (sch_columns a))
            (take (nat (sch_col_count b)) (sch_columns b))
      | _ \<Rightarrow> False)"

definition column_line :: "nat \<Rightarrow> Column \<Rightarrow> string" where
  "column_line i c =
     ''  '' @ dec_digits i @ '': '' @ co_name c @ '' '' @ column_type_name (co_type c) @
     (if co_not_null c then '' NOT NULL'' else []) @ (if co_primary_key c then '' PRIMARY KEY'' else []) @
     (if co_auto_increment c then '' AUTOINCREMENT'' else []) @ [CHR 0x0A]"

definition schema_print :: "Schema option \<Rightarrow> string" where
  "schema_print schema =
     (case schema of
        None \<Rightarrow> []
      | Some s \<Rightarrow>
          ''Schema: '' @ sch_table_name s @ '' (columns: '' @ fmt_lld (word_of_int (sch_col_count s)) @ '', auto_inc: '' @
          dec_digits (unat (sch_auto_increment s)) @ '')'' @ [CHR 0x0A] @
          concat (map (\<lambda>i. column_line i (sch_columns s ! i)) [0..<nat (sch_col_count s)]))"

section \<open>Writing and reading back\<close>

definition column_ok :: "Column \<Rightarrow> bool" where
  "column_ok c \<longleftrightarrow> fits_field 64 (co_name c) \<and> fits_field 256 (co_default_value c)"

definition schema_ok :: "Schema \<Rightarrow> bool" where
  "schema_ok s \<longleftrightarrow> fits_field 64 (sch_table_name s) \<and> sch_col_count s = int (length (sch_columns s)) \<and>
     sch_columns s \<noteq> [] \<and> list_all column_ok (sch_columns s)"

lemma optional_field:
  assumes "fits_field n s" "0 < n"
  shows "(if s \<noteq> [] \<and> hd s \<noteq> NUL then store_field n s else replicate n 0) = store_field n s"
proof (cases s)
  case Nil
  have "replicate (n - 1) (0 :: byte) @ [0] = replicate (Suc (n - 1)) 0" by (simp only: replicate_Suc replicate_append_same)
  with Nil assms(2) show ?thesis by (simp add: empty_field)
qed (use assms in \<open>auto simp: fits_field_def\<close>)

lemma length_column_bytes [simp]: "length (column_bytes c) = 336"
  by (simp add: column_bytes_def flag_bytes_def buf_simps)

lemma length_schema_header [simp]: "length (schema_header s) = 84"
  by (simp add: schema_header_def buf_simps)

lemma length_columns: "length (concat (map column_bytes cs)) = 336 * length cs"
  by (induction cs) simp_all

lemma read_le_at: "get_at off 4 d = le_bytes 4 w \<Longrightarrow> read_le d off = ret w"
proof -
  assume *: "get_at off 4 d = le_bytes 4 w"
  have "min 4 (length d - off) = 4" using arg_cong[OF *, of length] by (simp add: length_get_at)
  then have "off + 4 \<le> length d" by (simp add: min_def split: if_splits)
  with * show ?thesis by (simp add: read_le_def mem_read_def enc_simps)
qed

lemma load_field_take: "load_field n (take (n - Suc 0) bs) = load_field n bs"
  by (simp add: load_field_def)

lemma read_field_at:
  assumes "get_at off n d = store_field n s" "fits_field n s"
  shows "read_field n d off = ret s"
proof -
  have n: "0 < n" using assms(2) by (simp add: fits_field_def)
  have "get_at off (n - 1) d = take (n - 1) (store_field n s)"
    using assms(1) by (simp add: get_at_def flip: assms(1))
  moreover have "length (take (n - 1) (store_field n s)) = n - 1" using n by (simp add: length_store_field)
  ultimately show ?thesis using assms(2) by (simp add: read_field_def load_field_take field_roundtrip)
qed

lemma column_parts:
  assumes "column_ok c"
  shows "get_at 0 64 (column_bytes c) = store_field 64 (co_name c)" "get_at 64 4 (column_bytes c) = le_bytes 4 (co_type c)"
    "get_at 68 4 (column_bytes c) = flag_bytes (co_not_null c)" "get_at 72 4 (column_bytes c) = flag_bytes (co_primary_key c)"
    "get_at 76 4 (column_bytes c) = flag_bytes (co_auto_increment c)"
    "get_at 80 256 (column_bytes c) = store_field 256 (co_default_value c)"
  using assms
  by (simp_all add: column_bytes_def optional_field column_ok_def get_after get_first get_first[of _ _ "[]", simplified]
    flag_bytes_def buf_simps)

lemma read_column_at:
  assumes "get_at off 336 d = column_bytes c" "column_ok c"
  shows "read_column d off = ret c"
proof -
  have part: "get_at (off + i) m d = get_at i m (column_bytes c)" if "i + m \<le> 336" for i m
    using get_at_get_at[OF that, of off d] assms(1) by simp
  note P = column_parts[OF assms(2)]
  have "read_field 64 d off = ret (co_name c)" "read_field 256 d (off + 80) = ret (co_default_value c)"
    using part[of 0 64] part[of 80 256] P assms(2) by (auto intro: read_field_at simp: column_ok_def)
  moreover have "read_le d (off + 64) = ret (co_type c)" using part[of 64 4] P by (auto intro: read_le_at)
  moreover have "read_le d (off + 68) = ret (if co_not_null c then 1 else 0)"
    "read_le d (off + 72) = ret (if co_primary_key c then 1 else 0)"
    "read_le d (off + 76) = ret (if co_auto_increment c then 1 else 0)"
    using part[of 68 4] part[of 72 4] part[of 76 4] P by (auto intro!: read_le_at simp: flag_bytes_def)
  ultimately show ?thesis by (simp add: read_column_def)
qed

lemma read_columns_at:
  assumes "list_all column_ok cs"
  shows "read_columns (length cs) (pre @ concat (map column_bytes cs)) (length pre) = ret cs"
  using assms
proof (induction cs arbitrary: pre)
  case (Cons c cs)
  have "read_column (pre @ column_bytes c @ concat (map column_bytes cs)) (length pre) = ret c"
    using Cons.prems by (intro read_column_at) (simp_all add: get_at_def)
  moreover have "read_columns (length cs) ((pre @ column_bytes c) @ concat (map column_bytes cs)) (length (pre @ column_bytes c)) = ret cs"
    using Cons.prems by (intro Cons.IH) simp
  ultimately show ?case by simp
qed simp

lemma header_parts:
  fixes s :: Schema
  shows "get_at 0 4 (schema_header s @ r) = le_bytes 4 SCHEMA_MAGIC" "get_at 4 4 (schema_header s @ r) = le_bytes 4 SCHEMA_VERSION"
    "get_at 8 64 (schema_header s @ r) = store_field 64 (sch_table_name s)"
    "get_at 72 4 (schema_header s @ r) = le_bytes 4 (word_of_int (sch_col_count s) :: u32)"
    "get_at 76 4 (schema_header s @ r) = le_bytes 4 (ucast (drop_bit 32 (sch_auto_increment s)) :: u32)"
    "get_at 80 4 (schema_header s @ r) = le_bytes 4 (ucast (sch_auto_increment s) :: u32)"
  by (simp_all add: schema_header_def get_after get_first buf_simps)

lemma halves: "push_bit 32 (ucast (ucast (drop_bit 32 w) :: u32)) OR ucast (ucast w :: u32) = (w :: u64)"
  by (rule bit_word_eqI) (auto simp: bit_simps)

lemma schema_read_back:
  assumes ok: "schema_ok s" and n: "length (sch_columns s) \<le> MAX_COLUMNS"
  shows "schema_deserialize (schema_header s @ concat (map column_bytes (sch_columns s)))
      (of_nat (84 + 336 * length (sch_columns s))) = ret (Some (s\<lparr>sch_root_page := 0, sch_is_open := True\<rparr>))"
proof -
  let ?cs = "sch_columns s" and ?n = "word_of_int (sch_col_count s) :: u32"
  let ?d = "schema_header s @ concat (map column_bytes ?cs)"
  have count: "sch_col_count s = int (length ?cs)" "0 < length ?cs" "length ?cs \<le> 64"
    using ok n by (auto simp: schema_ok_def MAX_COLUMNS_def)
  have u: "unat ?n = length ?cs"
    using count by (simp add: unat_of_nat take_bit_nat_eq_self)
  have sz: "\<not> (of_nat (84 + 336 * length ?cs) :: u32) < 148"
    using count(2,3) by (simp only: word_less_nat_alt unat_of_nat) (cases ?cs, simp_all add: take_bit_nat_eq_self)
  have max: "\<not> ?n > of_nat MAX_COLUMNS" using u count by (simp add: word_less_nat_alt MAX_COLUMNS_def)
  have f: "fits_field 64 (sch_table_name s)" and all: "list_all column_ok ?cs" using ok by (simp_all add: schema_ok_def)
  have name: "read_field 64 ?d 8 = ret (sch_table_name s)" by (rule read_field_at[OF header_parts(3) f])
  have t: "take 63 (takeWhile (\<lambda>c. c \<noteq> NUL) (sch_table_name s)) = sch_table_name s"
    using f by (simp add: fits_field_def takeWhile_all)
  have "read_columns (length ?cs) ?d 84 = ret ?cs" using read_columns_at[OF all, of "schema_header s"] by simp
  then show ?thesis
    using sz max u name t count
    by (simp add: schema_deserialize_def read_le_at[OF header_parts(1)] read_le_at[OF header_parts(2)]
      read_le_at[OF header_parts(4)] read_le_at[OF header_parts(5)] read_le_at[OF header_parts(6)] halves schema_create_def)
qed

text \<open>C34: A schema survives writing and reading back in a buffer of the advertised size, if it has at most 24 columns, except that
  its root page becomes 0 and that it is marked as open; writing a schema with 25 to 64 columns, which is allowed, runs over that buffer.\<close>

theorem schema_roundtrip:
  assumes "schema_ok s" "length (sch_columns s) \<le> MAX_COLUMNS"
  shows "if length (sch_columns s) \<le> 24
    then (\<exists>data. schema_serialize SCHEMA_MAX_SIZE s = ret (0, data) \<and>
      schema_deserialize data (of_nat (length data)) = ret (Some (s\<lparr>sch_root_page := 0, sch_is_open := True\<rparr>)))
    else schema_serialize SCHEMA_MAX_SIZE s = undef"
  using schema_read_back[OF assms] assms(1)
  by (auto simp: schema_serialize_def SCHEMA_MAX_SIZE_def schema_ok_def length_columns Let_def)

definition demo_schema :: "nat \<Rightarrow> Schema" where
  "demo_schema n = \<lparr>sch_table_name = ''t'',
     sch_columns = replicate n \<lparr>co_name = ''a'', co_type = 0, co_not_null = True, co_primary_key = False,
       co_auto_increment = False, co_default_value = []\<rparr>,
     sch_col_count = int n, sch_root_page = 9, sch_auto_increment = 5, sch_is_open = True\<rparr>"

theorem schema_roundtrip_witness:
  "(\<exists>data. schema_serialize SCHEMA_MAX_SIZE (demo_schema 2) = ret (0, data) \<and>
      schema_deserialize data (of_nat (length data)) = ret (Some ((demo_schema 2)\<lparr>sch_root_page := 0\<rparr>))) \<and>
    schema_serialize SCHEMA_MAX_SIZE (demo_schema 25) = undef"
proof -
  have ok: "schema_ok (demo_schema n)" if "0 < n" for n
    using that by (auto simp: schema_ok_def demo_schema_def column_ok_def fits_field_def list_all_iff)
  have len: "length (sch_columns (demo_schema n)) = n" for n by (simp add: demo_schema_def)
  have rp: "(demo_schema n)\<lparr>sch_root_page := 0, sch_is_open := True\<rparr> = (demo_schema n)\<lparr>sch_root_page := 0\<rparr>" for n
    by (simp add: demo_schema_def)
  show ?thesis
    using schema_roundtrip[OF ok, of 2] schema_roundtrip[OF ok, of 25] by (simp add: len rp MAX_COLUMNS_def)
qed

text \<open>A clone is equal to its original by the comparison of schemas, although its counter starts again at 1.\<close>

lemma clone_equal:
  assumes "schema_ok s"
  shows "\<exists>s'. schema_clone (Some s) = ret (Some s') \<and> schema_equal (Some s) (Some s') \<and> sch_auto_increment s' = 1"
  using assms by (auto simp: schema_ok_def schema_clone_def schema_create_def schema_equal_def fits_field_def takeWhile_all
    columns_equal_def intro: list_all2_refl)

text \<open>The index of a column is that of the first column with the name.\<close>

lemma column_index_spec:
  "column_index_from name cs i =
     (if name \<in> co_name ` set cs then i + int (length (takeWhile (\<lambda>c. co_name c \<noteq> name) cs)) else - 1)"
  by (induction cs arbitrary: i) auto

end
