(* ===== verification/Wal.thy ===== *)
theory Wal
  imports Posix_File Errors
begin

text \<open>
  The write-ahead log (\<^verbatim>\<open>storage/wal.c\<close>): a file with a header, entries that mark transactions
  and checkpoints, and page frames.  The two loops that read and write all bytes are those of
  \<open>Posix_File\<close>.  The packed header takes 40 bytes and an entry header 16, while the constant
  \<^verbatim>\<open>WAL_HEADER_SIZE\<close> is 32.  The magic number is that of \<^verbatim>\<open>include/types.h\<close>, which is included
  first.  What an uninitialised array holds is an argument.
\<close>

section \<open>Headers\<close>

definition WAL_MAGIC :: u32 where
  "WAL_MAGIC = 0x377F0682"

definition WAL_FORMAT_VERSION :: u32 where
  "WAL_FORMAT_VERSION = 1"

definition WAL_HEADER_SIZE :: nat where
  "WAL_HEADER_SIZE = 32"

definition WAL_FRAME_HEADER_SIZE :: nat where
  "WAL_FRAME_HEADER_SIZE = 32"

definition WAL_AUTOCHECKPOINT_THRESHOLD :: nat where
  "WAL_AUTOCHECKPOINT_THRESHOLD = 64 * 1024 * 1024"

datatype WALEntryType =
  WAL_ENTRY_BEGIN | WAL_ENTRY_COMMIT | WAL_ENTRY_ROLLBACK | WAL_ENTRY_PAGE_MODIFY | WAL_ENTRY_CHECKPOINT

fun entry_type_code :: "WALEntryType \<Rightarrow> u8" where
  "entry_type_code WAL_ENTRY_BEGIN = 1"
| "entry_type_code WAL_ENTRY_COMMIT = 2"
| "entry_type_code WAL_ENTRY_ROLLBACK = 3"
| "entry_type_code WAL_ENTRY_PAGE_MODIFY = 4"
| "entry_type_code WAL_ENTRY_CHECKPOINT = 5"

record WALHeader =
  wh_magic :: u32
  wh_version :: u32
  wh_start_offset :: u64
  wh_end_offset :: u64
  wh_frame_count :: u32
  wh_checksum_1 :: u32
  wh_checksum_2 :: u32
  wh_reserved :: u32

record WALEntryHeader =
  we_type :: u8
  we_flags :: u8
  we_size :: u16
  we_checksum :: u32
  we_tx_id :: u64

definition wal_header_bytes :: "WALHeader \<Rightarrow> bytes" where
  "wal_header_bytes h =
     le_bytes 4 (wh_magic h) @ le_bytes 4 (wh_version h) @ le_bytes 8 (wh_start_offset h) @
     le_bytes 8 (wh_end_offset h) @ le_bytes 4 (wh_frame_count h) @ le_bytes 4 (wh_checksum_1 h) @
     le_bytes 4 (wh_checksum_2 h) @ le_bytes 4 (wh_reserved h)"

definition wal_header_of :: "bytes \<Rightarrow> WALHeader" where
  "wal_header_of bs =
     \<lparr>wh_magic = le_val (get_at 0 4 bs), wh_version = le_val (get_at 4 4 bs), wh_start_offset = le_val (get_at 8 8 bs),
      wh_end_offset = le_val (get_at 16 8 bs), wh_frame_count = le_val (get_at 24 4 bs),
      wh_checksum_1 = le_val (get_at 28 4 bs), wh_checksum_2 = le_val (get_at 32 4 bs),
      wh_reserved = le_val (get_at 36 4 bs)\<rparr>"

definition entry_header_bytes :: "WALEntryHeader \<Rightarrow> bytes" where
  "entry_header_bytes e =
     [we_type e, we_flags e] @ le_bytes 2 (we_size e) @ le_bytes 4 (we_checksum e) @ le_bytes 8 (we_tx_id e)"

definition entry_header_of :: "bytes \<Rightarrow> WALEntryHeader" where
  "entry_header_of bs =
     \<lparr>we_type = le_val (get_at 0 1 bs), we_flags = le_val (get_at 1 1 bs), we_size = le_val (get_at 2 2 bs),
      we_checksum = le_val (get_at 4 4 bs), we_tx_id = le_val (get_at 8 8 bs)\<rparr>"

definition wal_checksum :: "bytes \<Rightarrow> u32" where
  "wal_checksum data = foldl (\<lambda>sum b. push_bit 5 sum + sum + ucast b) 0 data"

definition wal_get_path :: "string \<Rightarrow> string" where
  "wal_get_path db_path = db_path @ ''-wal''"

definition sizeof_wal_header :: nat where
  "sizeof_wal_header = 40"

definition sizeof_entry_header :: nat where
  "sizeof_entry_header = 16"

definition wal_verify_magic :: "fdesc \<Rightarrow> int \<times> fdesc" where
  "wal_verify_magic f =
     (case sys_lseek 0 f of
        (False, f) \<Rightarrow> (- 1, f)
      | (True, f) \<Rightarrow>
          (case read_exact sizeof_wal_header f of
             (None, f) \<Rightarrow> (- 1, f)
           | (Some bs, f) \<Rightarrow> (if wh_magic (wal_header_of bs) = WAL_MAGIC then 0 else - 1, f)))"

section \<open>Opening and closing\<close>

record WAL =
  wl_fd :: fdesc
  wl_path :: string
  wl_db_path :: string
  wl_log_offset :: u64
  wl_last_checkpoint :: u64
  wl_frame_count :: u32
  wl_current_tx_id :: u64
  wl_file_size :: nat
  wl_checkpoint_threshold :: nat
  wl_is_open :: bool

definition new_wal_header :: WALHeader where
  "new_wal_header =
     \<lparr>wh_magic = WAL_MAGIC, wh_version = WAL_FORMAT_VERSION, wh_start_offset = of_nat WAL_HEADER_SIZE,
      wh_end_offset = of_nat WAL_HEADER_SIZE, wh_frame_count = 0, wh_checksum_1 = 0, wh_checksum_2 = 0, wh_reserved = 0\<rparr>"

text \<open>The file descriptor with the offset of the log and the number of frames, from an existing or a new file.\<close>

definition wal_start :: "fdesc option \<Rightarrow> fdesc option \<Rightarrow> (fdesc \<times> u64 \<times> u32) option" where
  "wal_start existing created =
     (case existing of
        None \<Rightarrow>
          (case created of
             None \<Rightarrow> None
           | Some f \<Rightarrow>
               (case write_exact (wal_header_bytes new_wal_header) f of
                  (False, f) \<Rightarrow> None
                | (True, f) \<Rightarrow> Some (f, of_nat WAL_HEADER_SIZE, 0)))
      | Some f \<Rightarrow>
          (case read_exact sizeof_wal_header f of
             (None, f) \<Rightarrow> None
           | (Some bs, f) \<Rightarrow>
               let header = wal_header_of bs in
               if wh_magic header \<noteq> WAL_MAGIC then None
               else Some (f, wh_end_offset header, wh_frame_count header)))"

text \<open>
  The last two arguments are the results of \<^verbatim>\<open>open(path, O_RDWR)\<close> and, should that fail, of
  \<^verbatim>\<open>open(path, O_RDWR | O_CREAT | O_TRUNC)\<close>.
\<close>

definition wal_open :: "string option \<Rightarrow> fdesc option \<Rightarrow> fdesc option \<Rightarrow> WAL option" where
  "wal_open db_path existing created =
     (case db_path of
        None \<Rightarrow> None
      | Some path \<Rightarrow>
          let wal_path = wal_get_path path in
          (case wal_start existing created of
             None \<Rightarrow> None
           | Some (f, log_offset, frame_count) \<Rightarrow>
               (case sys_fstat f of
                  (None, f) \<Rightarrow> None
                | (Some st_size, f) \<Rightarrow>
                    Some \<lparr>wl_fd = f, wl_path = wal_path, wl_db_path = path, wl_log_offset = log_offset,
                          wl_last_checkpoint = 0, wl_frame_count = frame_count, wl_current_tx_id = 0,
                          wl_file_size = st_size, wl_checkpoint_threshold = WAL_AUTOCHECKPOINT_THRESHOLD,
                          wl_is_open = True\<rparr>)))"

text \<open>Closing leaves the file behind; the result of \<^verbatim>\<open>fsync\<close> is ignored.\<close>

definition wal_close :: "WAL \<Rightarrow> fdesc" where
  "wal_close wal = (if wl_is_open wal then snd (sys_fsync (wl_fd wal)) else wl_fd wal)"

definition wal_flush :: "WAL \<Rightarrow> int \<times> WAL" where
  "wal_flush wal =
     (case sys_fsync (wl_fd wal) of
        (False, f) \<Rightarrow> (code ERR_STORAGE_IO, wal\<lparr>wl_fd := f\<rparr>)
      | (True, f) \<Rightarrow> (code SUCCESS, wal\<lparr>wl_fd := f\<rparr>))"

section \<open>Entries\<close>

definition entry_header :: "WALEntryType \<Rightarrow> u64 \<Rightarrow> bytes \<Rightarrow> u32 \<Rightarrow> WALEntryHeader" where
  "entry_header ty tx_id payload sz =
     (let header = \<lparr>we_type = entry_type_code ty, we_flags = 0, we_size = ucast sz, we_checksum = 0, we_tx_id = tx_id\<rparr> in
      header\<lparr>we_checksum :=
        wal_checksum (entry_header_bytes header) XOR (if payload \<noteq> [] then wal_checksum payload else 0)\<rparr>)"

text \<open>The file size is taken over when it is known.\<close>

definition update_file_size :: "WAL \<Rightarrow> WAL" where
  "update_file_size wal =
     (case sys_fstat (wl_fd wal) of
        (None, f) \<Rightarrow> wal\<lparr>wl_fd := f\<rparr>
      | (Some st_size, f) \<Rightarrow> wal\<lparr>wl_fd := f, wl_file_size := st_size\<rparr>)"

text \<open>The bytes of the payload that are read, none when it is absent or the size is 0.\<close>

definition entry_payload :: "bytes option \<Rightarrow> u32 \<Rightarrow> bytes comp" where
  "entry_payload payload sz =
     (case payload of None \<Rightarrow> ret [] | Some p \<Rightarrow> if 0 < sz then mem_read p 0 (unat sz) else ret [])"

definition wal_append :: "WAL \<Rightarrow> WALEntryType \<Rightarrow> u64 \<Rightarrow> bytes option \<Rightarrow> u32 \<Rightarrow> (int \<times> WAL) comp" where
  "wal_append wal ty tx_id payload sz =
     (if \<not> wl_is_open wal then ret (code ERR_INTERNAL, wal)
      else
        bindc (entry_payload payload sz) (\<lambda>used.
        case write_exact (entry_header_bytes (entry_header ty tx_id used sz)) (wl_fd wal) of
          (False, f) \<Rightarrow> ret (code ERR_STORAGE_IO, wal\<lparr>wl_fd := f\<rparr>)
        | (True, f) \<Rightarrow>
            (case write_exact used f of
               (False, f) \<Rightarrow> ret (code ERR_STORAGE_IO, wal\<lparr>wl_fd := f\<rparr>)
             | (True, f) \<Rightarrow>
                 ret (code SUCCESS,
                      update_file_size (wal\<lparr>wl_fd := f,
                        wl_log_offset := wl_log_offset wal + of_nat sizeof_entry_header + ucast sz\<rparr>)))))"

definition wal_begin_tx :: "WAL \<Rightarrow> (int \<times> WAL) comp" where
  "wal_begin_tx wal =
     (let wal = wal\<lparr>wl_current_tx_id := wl_current_tx_id wal + 1\<rparr> in
      wal_append wal WAL_ENTRY_BEGIN (wl_current_tx_id wal) None 0)"

definition wal_commit_tx :: "WAL \<Rightarrow> (int \<times> WAL) comp" where
  "wal_commit_tx wal = wal_append wal WAL_ENTRY_COMMIT (wl_current_tx_id wal) None 0"

definition wal_rollback_tx :: "WAL \<Rightarrow> (int \<times> WAL) comp" where
  "wal_rollback_tx wal = wal_append wal WAL_ENTRY_ROLLBACK (wl_current_tx_id wal) None 0"

text \<open>
  A frame; \<open>junk\<close> is what the array held at each index that is not filled before the checksum is taken.
  Indices 16 to 31 are never filled and reach the file.
\<close>

definition frame_bytes :: "(nat \<Rightarrow> byte) \<Rightarrow> u32 \<Rightarrow> bytes \<Rightarrow> bytes" where
  "frame_bytes junk page_num page_data =
     (let frame = le_bytes 4 page_num @ le_bytes 4 (of_nat PAGE_SIZE :: u32) @
                    map junk [8..<WAL_FRAME_HEADER_SIZE] @ page_data;
          checksum = wal_checksum frame in
      put_at 8 (le_bytes 4 checksum @ le_bytes 4 (checksum XOR 0xFFFFFFFF)) frame)"

definition wal_write_page :: "(nat \<Rightarrow> byte) \<Rightarrow> WAL \<Rightarrow> u64 \<Rightarrow> u32 \<Rightarrow> bytes option \<Rightarrow> (int \<times> WAL) comp" where
  "wal_write_page junk wal tx_id page_num page_data =
     (case page_data of
        None \<Rightarrow> ret (code ERR_INTERNAL, wal)
      | Some d \<Rightarrow>
          bindc (mem_read d 0 PAGE_SIZE) (\<lambda>d.
          case write_exact (frame_bytes junk page_num d) (wl_fd wal) of
            (False, f) \<Rightarrow> ret (code ERR_STORAGE_IO, wal\<lparr>wl_fd := f\<rparr>)
          | (True, f) \<Rightarrow>
              ret (code SUCCESS,
                   update_file_size (wal\<lparr>wl_fd := f,
                     wl_log_offset := wl_log_offset wal + of_nat (WAL_FRAME_HEADER_SIZE + PAGE_SIZE),
                     wl_frame_count := wl_frame_count wal + 1\<rparr>))))"

section \<open>Recovery\<close>

record WALRecoveryInfo =
  wr_start_offset :: u64
  wr_end_offset :: u64
  wr_last_tx_id :: u64
  wr_frame_count :: u32
  wr_has_checkpoint :: bool
  wr_checkpoint_offset :: u64

record recovery =
  rc_info :: WALRecoveryInfo
  rc_tx_id :: u64
  rc_in_tx :: bool

text \<open>What one entry changes.\<close>

definition recover_entry :: "nat \<Rightarrow> WALEntryHeader \<Rightarrow> recovery \<Rightarrow> recovery" where
  "recover_entry offset header r =
     (if we_type header = entry_type_code WAL_ENTRY_BEGIN then r\<lparr>rc_tx_id := we_tx_id header, rc_in_tx := True\<rparr>
      else if we_type header = entry_type_code WAL_ENTRY_COMMIT then
        (if rc_in_tx r \<and> we_tx_id header = rc_tx_id r
         then r\<lparr>rc_info := (rc_info r)\<lparr>wr_last_tx_id := we_tx_id header\<rparr>, rc_in_tx := False\<rparr> else r)
      else if we_type header = entry_type_code WAL_ENTRY_ROLLBACK then r\<lparr>rc_in_tx := False\<rparr>
      else if we_type header = entry_type_code WAL_ENTRY_PAGE_MODIFY then
        r\<lparr>rc_info := (rc_info r)\<lparr>wr_frame_count := wr_frame_count (rc_info r) + 1\<rparr>\<rparr>
      else if we_type header = entry_type_code WAL_ENTRY_CHECKPOINT then
        r\<lparr>rc_info := (rc_info r)\<lparr>wr_has_checkpoint := True, wr_checkpoint_offset := of_nat offset\<rparr>\<rparr>
      else r)"

function recover_loop :: "nat \<Rightarrow> nat \<Rightarrow> recovery \<Rightarrow> fdesc \<Rightarrow> recovery \<times> fdesc" where
  "recover_loop file_size offset r f =
     (if offset < file_size then
        case sys_lseek offset f of
          (False, f) \<Rightarrow> (r, f)
        | (True, f) \<Rightarrow>
            (case read_exact sizeof_entry_header f of
               (None, f) \<Rightarrow> (r, f)
             | (Some bs, f) \<Rightarrow>
                 let header = entry_header_of bs in
                 recover_loop file_size (offset + sizeof_entry_header + unat (we_size header))
                   (recover_entry offset header r) f)
      else (r, f))"
  by pat_completeness auto
termination
  by (relation "measure (\<lambda>(file_size, offset, r, f). file_size - offset)") (auto simp: sizeof_entry_header_def)

declare recover_loop.simps [simp del]

definition no_info :: WALRecoveryInfo where
  "no_info = \<lparr>wr_start_offset = 0, wr_end_offset = 0, wr_last_tx_id = 0, wr_frame_count = 0, wr_has_checkpoint = False,
     wr_checkpoint_offset = 0\<rparr>"

definition wal_recovery_info :: "WAL \<Rightarrow> WALRecoveryInfo \<times> WAL" where
  "wal_recovery_info wal =
     (case recover_loop (wl_file_size wal) WAL_HEADER_SIZE \<lparr>rc_info = no_info, rc_tx_id = 0, rc_in_tx = False\<rparr> (wl_fd wal) of
        (r, f) \<Rightarrow>
          ((rc_info r)\<lparr>wr_start_offset := of_nat WAL_HEADER_SIZE, wr_end_offset := wl_log_offset wal,
                       wr_frame_count := wl_frame_count wal\<rparr>, wal\<lparr>wl_fd := f\<rparr>))"

definition wal_replay :: "WAL \<Rightarrow> string \<Rightarrow> int" where
  "wal_replay wal db_path = code SUCCESS"

text \<open>The offset becomes a signed \<^verbatim>\<open>off_t\<close>; a negative length is refused.\<close>

definition wal_truncate :: "WAL \<Rightarrow> u64 \<Rightarrow> int \<times> WAL" where
  "wal_truncate wal checkpoint_offset =
     (case (if 2 ^ 63 \<le> unat checkpoint_offset then (False, wl_fd wal)
            else sys_ftruncate (unat checkpoint_offset) (wl_fd wal)) of
        (False, f) \<Rightarrow> (code ERR_STORAGE_IO, wal\<lparr>wl_fd := f\<rparr>)
      | (True, f) \<Rightarrow>
          let wal = wal\<lparr>wl_log_offset := checkpoint_offset\<rparr> in
          (case sys_lseek 0 f of
             (False, f) \<Rightarrow> (code ERR_STORAGE_IO, wal\<lparr>wl_fd := f\<rparr>)
           | (True, f) \<Rightarrow>
               (case read_exact sizeof_wal_header f of
                  (None, f) \<Rightarrow> (code ERR_STORAGE_IO, wal\<lparr>wl_fd := f\<rparr>)
                | (Some bs, f) \<Rightarrow>
                    let header = (wal_header_of bs)\<lparr>wh_end_offset := checkpoint_offset, wh_frame_count := 0\<rparr> in
                    (case sys_lseek 0 f of
                       (False, f) \<Rightarrow> (code ERR_STORAGE_IO, wal\<lparr>wl_fd := f\<rparr>)
                     | (True, f) \<Rightarrow>
                         (case write_exact (wal_header_bytes header) f of
                            (False, f) \<Rightarrow> (code ERR_STORAGE_IO, wal\<lparr>wl_fd := f\<rparr>)
                          | (True, f) \<Rightarrow> (code SUCCESS, wal\<lparr>wl_fd := snd (sys_fsync f)\<rparr>))))))"

section \<open>Checkpoints\<close>

definition wal_checkpoint :: "WAL \<Rightarrow> (int \<times> WAL) comp" where
  "wal_checkpoint wal = wal_append wal WAL_ENTRY_CHECKPOINT (wl_current_tx_id wal) None 0"

definition wal_checkpoint_full :: "WAL \<Rightarrow> string \<Rightarrow> int" where
  "wal_checkpoint_full wal db_path = code SUCCESS"

definition wal_needs_checkpoint :: "WAL \<Rightarrow> bool" where
  "wal_needs_checkpoint wal \<longleftrightarrow> wl_checkpoint_threshold wal \<le> wl_file_size wal"

section \<open>Encodings\<close>

lemma wal_header_roundtrip: "wal_header_of (wal_header_bytes h) = h"
  by (simp add: wal_header_of_def wal_header_bytes_def get_at_def enc_simps)

lemma entry_header_roundtrip: "entry_header_of (entry_header_bytes e) = e"
proof -
  have "[we_type e, we_flags e] = le_bytes 1 (we_type e) @ le_bytes 1 (we_flags e)" by simp
  then show ?thesis
    by (simp add: entry_header_of_def entry_header_bytes_def get_at_def enc_simps)
qed

lemma wal_lengths [simp]:
  "length (wal_header_bytes h) = sizeof_wal_header"
  "length (entry_header_bytes e) = sizeof_entry_header"
  by (simp_all add: wal_header_bytes_def entry_header_bytes_def sizeof_wal_header_def sizeof_entry_header_def)

lemma wal_bytes_neq [simp]: "wal_header_bytes h \<noteq> []" "entry_header_bytes e \<noteq> []"
  using wal_lengths(1)[of h] wal_lengths(2)[of e]
  by (auto simp: sizeof_wal_header_def sizeof_entry_header_def simp del: wal_lengths)

section \<open>Appending\<close>

text \<open>A log that is open for writing, under any schedule without an error.\<close>

definition wal_ready :: "WAL \<Rightarrow> bool" where
  "wal_ready wal \<longleftrightarrow> wl_is_open wal \<and> nofail (wl_fd wal) \<and> fwritable (wl_fd wal)"

lemma update_file_size_ok:
  assumes "nofail (wl_fd wal)"
  obtains f where "update_file_size wal = wal\<lparr>wl_fd := f, wl_file_size := length (fbytes (wl_fd wal))\<rparr>"
    "fpos f = fpos (wl_fd wal)" "fbytes f = fbytes (wl_fd wal)" "same_env (wl_fd wal) f"
  using sys_fstat_ok[OF assms] by (auto simp: update_file_size_def)

definition entry_bytes :: "WALEntryType \<Rightarrow> u64 \<Rightarrow> bytes \<Rightarrow> bytes" where
  "entry_bytes ty tx_id p = entry_header_bytes (entry_header ty tx_id p (of_nat (length p))) @ p"

lemma entry_payload_all:
  assumes "length p < 2 ^ 32"
  shows "entry_payload (Some p) (of_nat (length p)) = ret p"
proof -
  have u: "unat (of_nat (length p) :: u32) = length p" using assms by (simp add: unat_of_nat take_bit_nat_eq_self)
  then have "p \<noteq> [] \<Longrightarrow> 0 < (of_nat (length p) :: u32)" by (simp add: word_less_nat_alt)
  then show ?thesis by (cases "p = []") (simp_all add: entry_payload_def mem_read_def u)
qed

lemma wal_append_eval:
  assumes R: "wal_ready wal" and p: "length p < 2 ^ 32"
  obtains f where "wal_append wal ty tx_id (Some p) (of_nat (length p)) =
      ret (code SUCCESS, wal\<lparr>wl_fd := f, wl_file_size := length (fbytes f),
        wl_log_offset := wl_log_offset wal + 16 + of_nat (length p)\<rparr>)"
    "wal_append wal ty tx_id None 0 = wal_append wal ty tx_id (Some []) 0"
    "fbytes f = put_at (fpos (wl_fd wal)) (entry_bytes ty tx_id p) (fbytes (wl_fd wal))"
    "fpos f = fpos (wl_fd wal) + 16 + length p" "same_env (wl_fd wal) f"
proof -
  let ?h = "entry_header_bytes (entry_header ty tx_id p (of_nat (length p)))"
  have n: "nofail (wl_fd wal)" "fwritable (wl_fd wal)" "wl_is_open wal" using R by (simp_all add: wal_ready_def)
  obtain g where g: "write_exact ?h (wl_fd wal) = (True, g)" "fpos g = fpos (wl_fd wal) + sizeof_entry_header"
    "fbytes g = put_at (fpos (wl_fd wal)) ?h (fbytes (wl_fd wal))" "same_env (wl_fd wal) g"
    using write_exact_ok[OF n(1,2), of ?h] by auto
  have ng: "nofail g" "fwritable g" using g(4) n same_env_nofail same_env_writable by auto
  obtain k where k: "write_exact p g = (True, k)" "fpos k = fpos g + length p"
    "fbytes k = (if p = [] then fbytes g else put_at (fpos g) p (fbytes g))" "same_env g k"
    using write_exact_ok[OF ng, of p] by auto
  have b: "fbytes k = put_at (fpos (wl_fd wal)) (entry_bytes ty tx_id p) (fbytes (wl_fd wal))"
    using k(3) g(2,3) put_at_put_at_append[of "fpos (wl_fd wal)" ?h p] by (auto simp: entry_bytes_def)
  let ?w = "wal\<lparr>wl_fd := k, wl_log_offset := wl_log_offset wal + of_nat sizeof_entry_header + ucast (of_nat (length p) :: u32)\<rparr>"
  have "nofail (wl_fd ?w)" using same_env_nofail[OF k(4) ng(1)] by simp
  then obtain f where f: "update_file_size ?w = ?w\<lparr>wl_fd := f, wl_file_size := length (fbytes k)\<rparr>"
    "fpos f = fpos k" "fbytes f = fbytes k" "same_env k f"
    by (rule update_file_size_ok) auto
  have c: "ucast (of_nat (length p) :: u32) = (of_nat (length p) :: u64)"
    using p by (simp add: unsigned_of_nat take_bit_nat_eq_self)
  show thesis
  proof (rule that)
    show "wal_append wal ty tx_id (Some p) (of_nat (length p)) =
      ret (code SUCCESS, wal\<lparr>wl_fd := f, wl_file_size := length (fbytes f),
        wl_log_offset := wl_log_offset wal + 16 + of_nat (length p)\<rparr>)"
      using n(3) g(1) k(1) f(1,3) c entry_payload_all[OF p] by (simp add: wal_append_def sizeof_entry_header_def)
    show "wal_append wal ty tx_id None 0 = wal_append wal ty tx_id (Some []) 0"
      by (simp add: wal_append_def entry_payload_def)
    show "same_env (wl_fd wal) f" using g(4) k(4) f(4) by (blast intro: same_env_trans)
  qed (use b f g(2) k(2) in \<open>simp_all add: sizeof_entry_header_def\<close>)
qed

section \<open>Opening\<close>

lemma wal_open_new:
  assumes f: "nofail f" "fwritable f" "fbytes f = []" "fpos f = 0"
  obtains wal where "wal_open (Some path) None (Some f) = Some wal" "wal_ready wal"
    "fbytes (wl_fd wal) = wal_header_bytes new_wal_header" "fpos (wl_fd wal) = 40"
    "wl_log_offset wal = 32" "wl_current_tx_id wal = 0"
proof -
  let ?h = "wal_header_bytes new_wal_header"
  obtain g where g: "write_exact ?h f = (True, g)" "fpos g = 40" "fbytes g = ?h" "same_env f g"
    using write_exact_ok[OF f(1,2), of ?h] f(3,4) put_at_end[of "[]" ?h] by (auto simp: sizeof_wal_header_def)
  have n: "nofail g" "fwritable g" using g(4) f same_env_nofail same_env_writable by auto
  from sys_fstat_ok[OF n(1)] obtain k where k: "sys_fstat g = (Some (length (fbytes g)), k)" "fpos k = fpos g"
    "fbytes k = fbytes g" "same_env g k" by blast
  have "nofail k" "fwritable k" using k(4) n same_env_nofail same_env_writable by auto
  then show thesis
    using g k n by (intro that) (auto simp: wal_open_def wal_start_def wal_ready_def WAL_HEADER_SIZE_def Let_def)
qed

lemma wal_open_existing:
  assumes f: "nofail f" "fwritable f" "fpos f = 0" and l: "40 \<le> length (fbytes f)"
    and m: "wh_magic (wal_header_of (take 40 (fbytes f))) = WAL_MAGIC"
  obtains wal where "wal_open (Some path) (Some f) created = Some wal" "wal_ready wal"
    "fbytes (wl_fd wal) = fbytes f" "fpos (wl_fd wal) = 40"
    "wl_log_offset wal = wh_end_offset (wal_header_of (take 40 (fbytes f)))" "same_env f (wl_fd wal)"
    "wl_frame_count wal = wh_frame_count (wal_header_of (take 40 (fbytes f)))"
proof -
  obtain g where g: "read_exact 40 f = (Some (take 40 (fbytes f)), g)" "fpos g = 40" "fbytes g = fbytes f" "same_env f g"
    using read_exact_ok[OF f(1), of 40] f(3) l by (auto simp: get_at_def)
  have n: "nofail g" "fwritable g" using g(4) f same_env_nofail same_env_writable by auto
  from sys_fstat_ok[OF n(1)] obtain k where k: "sys_fstat g = (Some (length (fbytes g)), k)" "fpos k = fpos g"
    "fbytes k = fbytes g" "same_env g k" by blast
  have "nofail k" "fwritable k" using k(4) n same_env_nofail same_env_writable by auto
  then show thesis
    using g k n m same_env_trans[OF g(4) k(4)] by (intro that) (auto simp: wal_open_def wal_start_def wal_ready_def sizeof_wal_header_def Let_def)
qed

section \<open>Scanning\<close>

text \<open>A run of entries, and what a scan that starts at the first of them computes.\<close>

type_synonym entry = "WALEntryType \<times> u64 \<times> bytes"

fun entries_bytes :: "entry list \<Rightarrow> bytes" where
  "entries_bytes [] = []"
| "entries_bytes ((ty, tx_id, p) # es) = entry_bytes ty tx_id p @ entries_bytes es"

fun scan_entries :: "nat \<Rightarrow> entry list \<Rightarrow> recovery \<Rightarrow> recovery" where
  "scan_entries offset [] r = r"
| "scan_entries offset ((ty, tx_id, p) # es) r =
     scan_entries (offset + 16 + length p) es (recover_entry offset (entry_header ty tx_id p (of_nat (length p))) r)"

lemma entry_header_size:
  "length p < 2 ^ 32 \<Longrightarrow> unat (we_size (entry_header ty tx_id p (of_nat (length p)))) = length p mod 65536"
  by (simp add: entry_header_def Let_def unsigned_of_nat unat_of_nat take_bit_nat_eq_self take_bit_eq_mod)

lemma recover_loop_step:
  assumes "nofail f" "offset + 16 \<le> length (fbytes f)" "length (fbytes f) = n"
    and h: "entry_header_of (get_at offset 16 (fbytes f)) = h"
  obtains g where "recover_loop n offset r f = recover_loop n (offset + 16 + unat (we_size h)) (recover_entry offset h r) g"
    "fbytes g = fbytes f" "same_env f g"
proof -
  obtain g0 g where "sys_lseek offset f = (True, g0)" "read_exact 16 g0 = (Some (get_at offset 16 (fbytes f)), g)"
    "fbytes g = fbytes f" "same_env f g"
    by (rule seek_read_ok[OF assms(1,2)])
  then show thesis
    using assms by (intro that[of g]) (simp_all add: recover_loop.simps[of n offset] sizeof_entry_header_def)
qed

lemma recover_loop_entries:
  assumes "nofail f" "fbytes f = pre @ entries_bytes es" "\<forall>(ty, tx_id, p) \<in> set es. length p < 65536"
  shows "fst (recover_loop (length (fbytes f)) (length pre) r f) = scan_entries (length pre) es r"
  using assms
proof (induction es arbitrary: pre r f)
  case Nil
  then show ?case by (simp add: recover_loop.simps)
next
  case (Cons e es)
  obtain ty tx_id p where e: "e = (ty, tx_id, p)" by (cases e)
  let ?h = "entry_header ty tx_id p (of_nat (length p))"
  have p: "length p < 65536" using Cons.prems(3) e by simp
  have b: "fbytes f = (pre @ entry_bytes ty tx_id p) @ entries_bytes es" using Cons.prems(2) e by simp
  have l: "length (entry_bytes ty tx_id p) = 16 + length p" by (simp add: entry_bytes_def sizeof_entry_header_def)
  have h: "entry_header_of (get_at (length pre) 16 (fbytes f)) = ?h"
    by (simp add: b get_at_def entry_bytes_def sizeof_entry_header_def entry_header_roundtrip)
  have s: "unat (we_size ?h) = length p" using entry_header_size[of p ty tx_id] p by simp
  obtain g where g: "recover_loop (length (fbytes f)) (length pre) r f =
      recover_loop (length (fbytes f)) (length pre + 16 + length p) (recover_entry (length pre) ?h r) g"
    "fbytes g = fbytes f" "same_env f g"
    by (rule recover_loop_step[OF Cons.prems(1) _ refl h, of r]) (use b l s in auto)
  have "fst (recover_loop (length (fbytes g)) (length (pre @ entry_bytes ty tx_id p)) (recover_entry (length pre) ?h r) g) =
      scan_entries (length (pre @ entry_bytes ty tx_id p)) es (recover_entry (length pre) ?h r)"
    by (rule Cons.IH) (use Cons.prems g b same_env_nofail in auto)
  then show ?case using g e l by (simp add: add.assoc)
qed

section \<open>Properties\<close>

text \<open>
  C35: On an open log, under any schedule of short and interrupted writes without an error, appending an entry with a
  payload succeeds: its header and payload are stored at the file position, the offset of the log moves by their length,
  the recorded file size is that of the file, and the log can be appended to again.  The size that the stored header
  gives is the length of the payload modulo 65536.
\<close>

theorem wal_append_exact:
  assumes "wal_ready wal" "length p < 2 ^ 32"
  shows "\<exists>wal'. wal_append wal ty tx_id (Some p) (of_nat (length p)) = ret (code SUCCESS, wal') \<and> wal_ready wal' \<and>
    fbytes (wl_fd wal') = put_at (fpos (wl_fd wal)) (entry_bytes ty tx_id p) (fbytes (wl_fd wal)) \<and>
    fpos (wl_fd wal') = fpos (wl_fd wal) + 16 + length p \<and>
    wl_log_offset wal' = wl_log_offset wal + 16 + of_nat (length p) \<and>
    wl_file_size wal' = length (fbytes (wl_fd wal')) \<and>
    unat (we_size (entry_header_of (get_at (fpos (wl_fd wal)) 16 (fbytes (wl_fd wal'))))) = length p mod 65536"
proof -
  obtain f where f: "wal_append wal ty tx_id (Some p) (of_nat (length p)) =
      ret (code SUCCESS, wal\<lparr>wl_fd := f, wl_file_size := length (fbytes f),
        wl_log_offset := wl_log_offset wal + 16 + of_nat (length p)\<rparr>)"
    "fbytes f = put_at (fpos (wl_fd wal)) (entry_bytes ty tx_id p) (fbytes (wl_fd wal))"
    "fpos f = fpos (wl_fd wal) + 16 + length p" "same_env (wl_fd wal) f"
    by (rule wal_append_eval[OF assms])
  have "get_at (fpos (wl_fd wal) + 0) 16 (fbytes f) = get_at 0 16 (entry_bytes ty tx_id p)"
    unfolding f(2) by (rule get_at_put_at_inside) (simp add: entry_bytes_def sizeof_entry_header_def)
  then have "entry_header_of (get_at (fpos (wl_fd wal)) 16 (fbytes f)) = entry_header ty tx_id p (of_nat (length p))"
    by (simp add: entry_bytes_def get_at_def sizeof_entry_header_def entry_header_roundtrip)
  moreover have "nofail f" "fwritable f"
    using f(4) assms(1) same_env_nofail same_env_writable by (auto simp: wal_ready_def)
  ultimately show ?thesis
    using f assms(1) entry_header_size[OF assms(2), of ty tx_id] by (simp add: wal_ready_def)
qed

text \<open>The transaction markers are entries without payload.\<close>

lemma marker_eval:
  assumes "wal_ready wal"
  obtains wal' where "wal_append wal ty tx_id None 0 = ret (code SUCCESS, wal')" "wal_ready wal'"
    "fbytes (wl_fd wal') = put_at (fpos (wl_fd wal)) (entry_bytes ty tx_id []) (fbytes (wl_fd wal))"
    "fpos (wl_fd wal') = fpos (wl_fd wal) + 16" "wl_file_size wal' = length (fbytes (wl_fd wal'))"
    "wl_log_offset wal' = wl_log_offset wal + 16" "wl_current_tx_id wal' = wl_current_tx_id wal"
proof -
  have l: "length ([] :: bytes) < 2 ^ 32" by simp
  obtain f where f: "wal_append wal ty tx_id (Some []) (of_nat (length ([] :: bytes))) =
      ret (code SUCCESS, wal\<lparr>wl_fd := f, wl_file_size := length (fbytes f),
        wl_log_offset := wl_log_offset wal + 16 + of_nat (length ([] :: bytes))\<rparr>)"
    "wal_append wal ty tx_id None 0 = wal_append wal ty tx_id (Some []) 0"
    "fbytes f = put_at (fpos (wl_fd wal)) (entry_bytes ty tx_id []) (fbytes (wl_fd wal))"
    "fpos f = fpos (wl_fd wal) + 16 + length ([] :: bytes)" "same_env (wl_fd wal) f"
    by (rule wal_append_eval[OF assms l])
  have "nofail f" "fwritable f"
    using f(5) assms same_env_nofail same_env_writable by (auto simp: wal_ready_def)
  then show thesis
    using f assms by (intro that[of "wal\<lparr>wl_fd := f, wl_file_size := length (fbytes f),
      wl_log_offset := wl_log_offset wal + 16\<rparr>"]) (simp_all add: wal_ready_def)
qed

text \<open>
  C36: A log that is opened again is not appended to: the first transaction begun on it is written over the entry that
  follows the header, whatever the file held there, while the offset of the log moves on from its recorded end.
\<close>

theorem wal_reopen_overwrites:
  assumes "nofail f" "fwritable f" "fpos f = 0" "56 \<le> length (fbytes f)"
    and "wh_magic (wal_header_of (take 40 (fbytes f))) = WAL_MAGIC"
  shows "\<exists>wal wal'. wal_open (Some path) (Some f) created = Some wal \<and> wal_begin_tx wal = ret (code SUCCESS, wal') \<and>
    fbytes (wl_fd wal') = take 40 (fbytes f) @ entry_bytes WAL_ENTRY_BEGIN (wl_current_tx_id wal + 1) [] @ drop 56 (fbytes f) \<and>
    wl_log_offset wal' = wh_end_offset (wal_header_of (take 40 (fbytes f))) + 16"
proof -
  have l: "40 \<le> length (fbytes f)" using assms(4) by simp
  obtain wal where w: "wal_open (Some path) (Some f) created = Some wal" "wal_ready wal"
    "fbytes (wl_fd wal) = fbytes f" "fpos (wl_fd wal) = 40"
    "wl_log_offset wal = wh_end_offset (wal_header_of (take 40 (fbytes f)))"
    by (rule wal_open_existing[OF assms(1-3) l assms(5)])
  let ?w = "wal\<lparr>wl_current_tx_id := wl_current_tx_id wal + 1\<rparr>"
  have "wal_ready ?w" using w(2) by (simp add: wal_ready_def)
  then obtain wal' where "wal_append ?w WAL_ENTRY_BEGIN (wl_current_tx_id wal + 1) None 0 = ret (code SUCCESS, wal')"
    "fbytes (wl_fd wal') = put_at 40 (entry_bytes WAL_ENTRY_BEGIN (wl_current_tx_id wal + 1) []) (fbytes f)"
    "wl_log_offset wal' = wl_log_offset wal + 16"
    by (rule marker_eval) (use w in auto)
  moreover have "length (entry_bytes WAL_ENTRY_BEGIN (wl_current_tx_id wal + 1) []) = 16"
    by (simp add: entry_bytes_def sizeof_entry_header_def)
  ultimately show ?thesis
    using w assms(4) by (simp add: wal_begin_tx_def put_at_within)
qed

text \<open>The three headers a scan from offset 32 meets after one committed transaction.\<close>

definition one_tx :: bytes where
  "one_tx = wal_header_bytes new_wal_header @ entries_bytes [(WAL_ENTRY_BEGIN, 1, []), (WAL_ENTRY_COMMIT, 1, [])]"

lemma one_tx_length: "length one_tx = 72"
  by (simp add: one_tx_def entry_bytes_def sizeof_wal_header_def sizeof_entry_header_def)

lemma one_tx_misread:
  "we_type (entry_header_of (get_at 32 16 one_tx)) = 0" "we_size (entry_header_of (get_at 32 16 one_tx)) = 0"
  "we_type (entry_header_of (get_at 48 16 one_tx)) = 1" "we_size (entry_header_of (get_at 48 16 one_tx)) = 0"
  by (simp_all add: one_tx_def entry_header_of_def wal_header_bytes_def new_wal_header_def entry_bytes_def
      entry_header_bytes_def entry_header_def get_at_def Let_def eval_nat_numeral)

lemma recover_one_tx:
  assumes "nofail f" "fbytes f = one_tx" "rc_info r = no_info"
  shows "wr_last_tx_id (rc_info (fst (recover_loop 72 32 r f))) = 0"
proof -
  let ?h = "\<lambda>i. entry_header_of (get_at i 16 one_tx)"
  obtain g where g: "recover_loop 72 32 r f = recover_loop 72 48 (recover_entry 32 (?h 32) r) g"
    "fbytes g = one_tx" "same_env f g"
    by (rule recover_loop_step[of f 32 72 "?h 32" r]) (use assms one_tx_length one_tx_misread in auto)
  have ng: "nofail g" using same_env_nofail[OF g(3) assms(1)] .
  obtain k where k: "recover_loop 72 48 (recover_entry 32 (?h 32) r) g =
      recover_loop 72 64 (recover_entry 48 (?h 48) (recover_entry 32 (?h 32) r)) k"
    "fbytes k = one_tx" "same_env g k"
    by (rule recover_loop_step[of g 48 72 "?h 48" "recover_entry 32 (?h 32) r"])
      (use ng g(2) one_tx_length one_tx_misread in auto)
  obtain m where m: "sys_lseek 64 k = (True, m)" "fpos m = 64" "fbytes m = one_tx"
    using sys_lseek_ok[OF same_env_nofail[OF k(3) ng], of 64] k(2) by auto
  have "fst (read_exact 16 m) = None" by (rule read_exact_eof) (simp_all add: m one_tx_length)
  then have "fst (recover_loop 72 64 r' k) = r'" for r'
    by (cases "read_exact 16 m") (simp add: recover_loop.simps[of 72 64] m(1) sizeof_entry_header_def)
  then show ?thesis
    using g(1) k(1) one_tx_misread assms(3) by (simp add: recover_entry_def no_info_def)
qed

text \<open>
  C37: On a newly created log, a transaction that is begun and committed is not found by recovery: the last committed
  transaction it reports is 0.  Its scan starts at offset 32 while the first entry is at 40; the same scan started at 40
  reports transaction 1.
\<close>

theorem recovery_misses_commit:
  assumes f: "nofail f" "fwritable f" "fbytes f = []" "fpos f = 0"
  shows "\<exists>w0 w1 w2. wal_open (Some path) None (Some f) = Some w0 \<and> wal_begin_tx w0 = ret (code SUCCESS, w1) \<and>
    wal_commit_tx w1 = ret (code SUCCESS, w2) \<and> wr_last_tx_id (fst (wal_recovery_info w2)) = 0 \<and>
    wr_last_tx_id (rc_info (fst (recover_loop (wl_file_size w2) sizeof_wal_header
      \<lparr>rc_info = no_info, rc_tx_id = 0, rc_in_tx = False\<rparr> (wl_fd w2)))) = 1"
proof -
  let ?h = "wal_header_bytes new_wal_header" and ?r = "\<lparr>rc_info = no_info, rc_tx_id = 0, rc_in_tx = False\<rparr>"
  let ?es = "[(WAL_ENTRY_BEGIN, 1 :: u64, [] :: bytes), (WAL_ENTRY_COMMIT, 1, [])]"
  obtain w0 where w0: "wal_open (Some path) None (Some f) = Some w0" "wal_ready w0" "fbytes (wl_fd w0) = ?h"
    "fpos (wl_fd w0) = 40" "wl_log_offset w0 = 32" "wl_current_tx_id w0 = 0"
    by (rule wal_open_new[OF f])
  let ?w = "w0\<lparr>wl_current_tx_id := 1\<rparr>"
  have "wal_ready ?w" using w0(2) by (simp add: wal_ready_def)
  then obtain w1 where w1: "wal_append ?w WAL_ENTRY_BEGIN 1 None 0 = ret (code SUCCESS, w1)" "wal_ready w1"
    "fbytes (wl_fd w1) = put_at 40 (entry_bytes WAL_ENTRY_BEGIN 1 []) ?h" "fpos (wl_fd w1) = 56" "wl_current_tx_id w1 = 1"
    by (rule marker_eval) (use w0 in auto)
  obtain w2 where w2: "wal_append w1 WAL_ENTRY_COMMIT 1 None 0 = ret (code SUCCESS, w2)" "wal_ready w2"
    "fbytes (wl_fd w2) = put_at 56 (entry_bytes WAL_ENTRY_COMMIT 1 []) (fbytes (wl_fd w1))"
    "wl_file_size w2 = length (fbytes (wl_fd w2))"
    by (rule marker_eval[OF w1(2), of WAL_ENTRY_COMMIT 1]) (use w1 in auto)
  have b1: "fbytes (wl_fd w1) = ?h @ entry_bytes WAL_ENTRY_BEGIN 1 []"
    using w1(3) put_at_end[of ?h] by (simp add: sizeof_wal_header_def)
  have "length (fbytes (wl_fd w1)) = 56" by (simp add: b1 entry_bytes_def sizeof_wal_header_def sizeof_entry_header_def)
  then have b2: "fbytes (wl_fd w2) = one_tx"
    using w2(3) b1 put_at_end[of "fbytes (wl_fd w1)"] by (simp add: one_tx_def)
  have n: "nofail (wl_fd w2)" using w2(2) by (simp add: wal_ready_def)
  have "wr_last_tx_id (rc_info (fst (recover_loop 72 32 ?r (wl_fd w2)))) = 0"
    by (rule recover_one_tx[OF n b2]) simp
  then have "wr_last_tx_id (fst (wal_recovery_info w2)) = 0"
    using w2(4) by (auto simp: wal_recovery_info_def b2 one_tx_length WAL_HEADER_SIZE_def split: prod.split)
  moreover have "fst (recover_loop (length (fbytes (wl_fd w2))) (length ?h) ?r (wl_fd w2)) = scan_entries (length ?h) ?es ?r"
    by (rule recover_loop_entries[OF n]) (simp_all add: b2 one_tx_def)
  then have "wr_last_tx_id (rc_info (fst (recover_loop (wl_file_size w2) sizeof_wal_header ?r (wl_fd w2)))) = 1"
    using w2(4) by (simp add: recover_entry_def entry_header_def Let_def)
  ultimately show ?thesis
    using w0 w1 w2 by (simp add: wal_begin_tx_def wal_commit_tx_def)
qed

text \<open>An empty file under short and interrupted calls.\<close>

definition empty_log :: fdesc where
  "empty_log = \<lparr>fbytes = [], fpos = 0, fwritable = True, fsched = [SysShort 5, SysIntr, SysShort 9]\<rparr>"

lemma empty_log_ok: "nofail empty_log" "fwritable empty_log" "fbytes empty_log = []" "fpos empty_log = 0"
  by (simp_all add: empty_log_def nofail_def)

theorem recovery_misses_commit_witness:
  "\<exists>w0 w1 w2. wal_open (Some ''db'') None (Some empty_log) = Some w0 \<and> wal_begin_tx w0 = ret (code SUCCESS, w1) \<and>
    wal_commit_tx w1 = ret (code SUCCESS, w2) \<and> wr_last_tx_id (fst (wal_recovery_info w2)) = 0"
  using recovery_misses_commit[OF empty_log_ok, of "''db''"] by blast

theorem wal_append_exact_witness:
  "\<exists>wal wal'. wal_open (Some ''db'') None (Some empty_log) = Some wal \<and>
    wal_append wal WAL_ENTRY_PAGE_MODIFY 7 (Some [1, 2, 3]) 3 = ret (code SUCCESS, wal') \<and>
    wl_log_offset wal' = wl_log_offset wal + 19"
proof -
  obtain wal where w: "wal_open (Some ''db'') None (Some empty_log) = Some wal" "wal_ready wal"
    by (rule wal_open_new[OF empty_log_ok])
  show ?thesis using wal_append_exact[OF w(2), of "[1, 2, 3]" WAL_ENTRY_PAGE_MODIFY 7] w(1) by auto
qed

text \<open>A log with one committed transaction, opened again.\<close>

definition old_log :: fdesc where
  "old_log = empty_log\<lparr>fbytes := one_tx\<rparr>"

lemma take_one_tx: "wal_header_of (take 40 one_tx) = new_wal_header"
  using wal_lengths(1)[of new_wal_header] by (simp add: one_tx_def sizeof_wal_header_def wal_header_roundtrip del: wal_lengths)

theorem wal_reopen_overwrites_witness:
  "\<exists>wal wal'. wal_open (Some ''db'') (Some old_log) None = Some wal \<and> wal_begin_tx wal = ret (code SUCCESS, wal') \<and>
    wl_log_offset wal' = 48"
proof -
  have "nofail old_log" "fwritable old_log" "fpos old_log = 0" "56 \<le> length (fbytes old_log)"
    "wh_magic (wal_header_of (take 40 (fbytes old_log))) = WAL_MAGIC"
    by (simp_all add: old_log_def empty_log_def nofail_def one_tx_length take_one_tx new_wal_header_def)
  note wal_reopen_overwrites[OF this, of "''db''" None]
  then show ?thesis by (auto simp: old_log_def take_one_tx new_wal_header_def WAL_HEADER_SIZE_def)
qed

lemma wal_truncate_eval:
  assumes R: "wal_ready wal" "calm (wl_fd wal)" and c: "40 \<le> unat c" "unat c \<le> length (fbytes (wl_fd wal))" "unat c < 2 ^ 63"
  obtains f where "wal_truncate wal c = (code SUCCESS, wal\<lparr>wl_log_offset := c, wl_fd := f\<rparr>)" "same_env (wl_fd wal) f"
    "fbytes f = wal_header_bytes ((wal_header_of (take 40 (fbytes (wl_fd wal))))\<lparr>wh_end_offset := c, wh_frame_count := 0\<rparr>) @
       get_at 40 (unat c - 40) (fbytes (wl_fd wal))"
proof -
  let ?bs = "take (unat c) (fbytes (wl_fd wal))"
  define h where "h = (wal_header_of (take 40 (fbytes (wl_fd wal))))\<lparr>wh_end_offset := c, wh_frame_count := 0\<rparr>"
  have t: "get_at 0 40 ?bs = take 40 (fbytes (wl_fd wal))" using c(1) by (simp add: get_at_def min_def)
  obtain f where f: "sys_ftruncate (unat c) (wl_fd wal) = (True, f)" "fbytes f = ?bs" "same_env (wl_fd wal) f"
    using sys_ftruncate_ok[OF R(2), of "unat c"] R(1) c(2) by (auto simp: wal_ready_def)
  have nf: "calm f" "fwritable f" using f(3) R same_env_calm same_env_writable by (auto simp: wal_ready_def)
  have "0 + 40 \<le> length (fbytes f)" using c f(2) by simp
  then obtain g0 g where g: "sys_lseek 0 f = (True, g0)" "read_exact 40 g0 = (Some (get_at 0 40 (fbytes f)), g)"
    "fbytes g = fbytes f" "same_env f g"
    by (rule seek_read_ok[OF calm_nofail[OF nf(1)]])
  have ng: "calm g" "fwritable g" using g(4) nf same_env_calm same_env_writable by auto
  obtain k0 k where k: "sys_lseek 0 g = (True, k0)" "write_exact (wal_header_bytes h) k0 = (True, k)"
    "fbytes k = put_at 0 (wal_header_bytes h) (fbytes g)" "same_env g k"
    by (rule seek_write_ok[OF calm_nofail[OF ng(1)] ng(2) wal_bytes_neq(1)])
  obtain e where e: "sys_fsync k = (True, e)" "fbytes e = fbytes k" "same_env k e"
    using sys_fsync_ok[OF same_env_calm[OF k(4) ng(1)]] by blast
  have neg: "\<not> 2 ^ 63 \<le> unat c" using c(3) by (simp only: not_le)
  have "wal_truncate wal c = (code SUCCESS, wal\<lparr>wl_log_offset := c, wl_fd := e\<rparr>)"
    unfolding wal_truncate_def if_not_P[OF neg]
    by (simp add: f(1,2) g(1,2) t k(1) k(2)[unfolded h_def] e(1) sizeof_wal_header_def Let_def)
  moreover have "same_env (wl_fd wal) e" using f(3) g(4) k(4) e(3) by (blast intro: same_env_trans)
  moreover have "fbytes e = wal_header_bytes h @ get_at 40 (unat c - 40) (fbytes (wl_fd wal))"
    using c(1,2) by (simp add: e(2) k(3) g(3) f(2) put_at_within sizeof_wal_header_def get_at_def drop_take)
  ultimately show thesis unfolding h_def by (rule that)
qed

text \<open>
  C38: Truncating a log to an offset behind its header, when no call fails, keeps the entries in front of the offset and
  records it in the header, so that the log opened again ends there and has no frame.  The log at hand keeps its frame
  count and file size, so a checkpoint that was due before is still due.
\<close>

theorem wal_truncate_open:
  assumes "wal_ready wal" "calm (wl_fd wal)" "40 \<le> unat c" "unat c \<le> length (fbytes (wl_fd wal))" "unat c < 2 ^ 63"
    and m: "wh_magic (wal_header_of (take 40 (fbytes (wl_fd wal)))) = WAL_MAGIC"
  shows "\<exists>wal' wal''. wal_truncate wal c = (code SUCCESS, wal') \<and> wl_log_offset wal' = c \<and>
    drop 40 (fbytes (wl_fd wal')) = get_at 40 (unat c - 40) (fbytes (wl_fd wal)) \<and>
    wl_frame_count wal' = wl_frame_count wal \<and> wal_needs_checkpoint wal' = wal_needs_checkpoint wal \<and>
    wal_open (Some path) (Some ((wl_fd wal')\<lparr>fpos := 0\<rparr>)) created = Some wal'' \<and>
    wl_log_offset wal'' = c \<and> wl_frame_count wal'' = 0"
proof -
  let ?h = "(wal_header_of (take 40 (fbytes (wl_fd wal))))\<lparr>wh_end_offset := c, wh_frame_count := 0\<rparr>"
  obtain f where f: "wal_truncate wal c = (code SUCCESS, wal\<lparr>wl_log_offset := c, wl_fd := f\<rparr>)" "same_env (wl_fd wal) f"
    "fbytes f = wal_header_bytes ?h @ get_at 40 (unat c - 40) (fbytes (wl_fd wal))"
    by (rule wal_truncate_eval[OF assms(1-5)])
  let ?f = "f\<lparr>fpos := 0\<rparr>"
  have h: "wal_header_of (take 40 (fbytes ?f)) = ?h" by (simp add: f(3) sizeof_wal_header_def wal_header_roundtrip)
  have n: "nofail ?f" "fwritable ?f" using f(2) assms(1) by (auto simp: nofail_def same_env_def wal_ready_def)
  have r: "fpos ?f = 0" "40 \<le> length (fbytes ?f)" "wh_magic (wal_header_of (take 40 (fbytes ?f))) = WAL_MAGIC"
    using m by (simp_all only: h) (simp_all add: f(3) sizeof_wal_header_def)
  obtain wal'' where "wal_open (Some path) (Some ?f) created = Some wal''" "wl_log_offset wal'' = c" "wl_frame_count wal'' = 0"
    by (rule wal_open_existing[OF n r, of path created]) (use h in auto)
  then show ?thesis using f(1,3) by (simp add: wal_needs_checkpoint_def sizeof_wal_header_def)
qed

theorem wal_truncate_open_witness:
  "\<exists>wal wal'. wal_open (Some ''db'') (Some (old_log\<lparr>fsched := []\<rparr>)) None = Some wal \<and>
    wal_truncate wal 56 = (code SUCCESS, wal') \<and> wl_log_offset wal' = 56"
proof -
  let ?f = "old_log\<lparr>fsched := []\<rparr>"
  have f: "nofail ?f" "fwritable ?f" "fpos ?f = 0" "40 \<le> length (fbytes ?f)"
    "wh_magic (wal_header_of (take 40 (fbytes ?f))) = WAL_MAGIC"
    by (simp_all add: old_log_def empty_log_def nofail_def one_tx_length take_one_tx new_wal_header_def)
  obtain wal where w: "wal_open (Some ''db'') (Some ?f) None = Some wal" "wal_ready wal" "fbytes (wl_fd wal) = fbytes ?f"
    "same_env ?f (wl_fd wal)"
    by (rule wal_open_existing[OF f, of "''db''" None])
  have "calm ?f" by (simp add: calm_def)
  then have "calm (wl_fd wal)" by (rule same_env_calm[OF w(4)])
  from wal_truncate_open[OF w(2) this, of 56 "''db''" None] show ?thesis
    using w(1,3) f(5) by (auto simp: old_log_def one_tx_length)
qed

end
