(* ===== verification/Stats.thy ===== *)
theory Stats
  imports Float64
begin

text \<open>
  The statistics (\<^verbatim>\<open>observability/stats.c\<close>).  The static variables of the file are one record.  The table entries in
  use are a list; the entries behind them are always zero, because they are cleared whenever their number is reset.
  The counters are updated atomically, so a sequence of updates stands for any interleaving of them.  The handler of
  \<^verbatim>\<open>SIGUSR1\<close> is a call of \<open>stats_dump\<close>.
\<close>

section \<open>State\<close>

record Statistics =
  connections_total :: u64
  connections_failed :: u64
  connections_active :: u64
  queries_total :: u64
  queries_select :: u64
  queries_insert :: u64
  queries_update :: u64
  queries_delete :: u64
  queries_failed :: u64
  transactions_total :: u64
  transactions_committed :: u64
  transactions_rolled_back :: u64
  pages_read :: u64
  pages_written :: u64
  pages_cache_hit :: u64
  pages_cache_miss :: u64
  wal_entries_written :: u64
  wal_checkpoints :: u64
  query_time_us :: u64
  cache_evictions :: u64
  fsync_calls :: u64
  errors_storage :: u64
  errors_protocol :: u64
  errors_internal :: u64

record TableStats =
  ts_table_name :: string
  ts_row_count :: u64
  ts_pages_used :: u64
  ts_index_size :: u64
  ts_total_scans :: u64
  ts_range_scans :: u64
  ts_point_lookups :: u64
  ts_inserts :: u64
  ts_updates :: u64
  ts_deletes :: u64

record Stats_State =
  g_stats :: Statistics
  g_stats_initialized :: bool
  g_table_stats :: "TableStats list"

definition MAX_TRACKED_TABLES :: nat where
  "MAX_TRACKED_TABLES = 64"

definition zero_stats :: Statistics where
  "zero_stats =
     \<lparr>connections_total = 0, connections_failed = 0, connections_active = 0, queries_total = 0,
      queries_select = 0, queries_insert = 0, queries_update = 0, queries_delete = 0,
      queries_failed = 0, transactions_total = 0, transactions_committed = 0, transactions_rolled_back = 0,
      pages_read = 0, pages_written = 0, pages_cache_hit = 0, pages_cache_miss = 0,
      wal_entries_written = 0, wal_checkpoints = 0, query_time_us = 0, cache_evictions = 0,
      fsync_calls = 0, errors_storage = 0, errors_protocol = 0, errors_internal = 0\<rparr>"

definition zero_table :: TableStats where
  "zero_table =
     \<lparr>ts_table_name = [], ts_row_count = 0, ts_pages_used = 0, ts_index_size = 0, ts_total_scans = 0, ts_range_scans = 0,
      ts_point_lookups = 0, ts_inserts = 0, ts_updates = 0, ts_deletes = 0\<rparr>"

text \<open>The variables at the start of the process.\<close>

definition stats_start :: Stats_State where
  "stats_start = \<lparr>g_stats = zero_stats, g_stats_initialized = False, g_table_stats = []\<rparr>"

definition stats_init :: "Stats_State \<Rightarrow> Stats_State" where
  "stats_init s =
     (if g_stats_initialized s then s
      else \<lparr>g_stats = zero_stats, g_stats_initialized = True, g_table_stats = []\<rparr>)"

definition stats_destroy :: "Stats_State \<Rightarrow> Stats_State" where
  "stats_destroy s = s\<lparr>g_stats_initialized := False\<rparr>"

definition stats_reset :: "Stats_State \<Rightarrow> Stats_State" where
  "stats_reset s = (if \<not> g_stats_initialized s then s else s\<lparr>g_stats := zero_stats, g_table_stats := []\<rparr>)"

section \<open>Counters\<close>

definition add_counter :: "string \<Rightarrow> u64 \<Rightarrow> Statistics \<Rightarrow> Statistics" where
  "add_counter counter v g =
     (if counter = ''connections_total'' then g\<lparr>connections_total := connections_total g + v\<rparr>
      else if counter = ''connections_failed'' then g\<lparr>connections_failed := connections_failed g + v\<rparr>
      else if counter = ''connections_active'' then g\<lparr>connections_active := connections_active g + v\<rparr>
      else if counter = ''queries_total'' then g\<lparr>queries_total := queries_total g + v\<rparr>
      else if counter = ''queries_select'' then g\<lparr>queries_select := queries_select g + v\<rparr>
      else if counter = ''queries_insert'' then g\<lparr>queries_insert := queries_insert g + v\<rparr>
      else if counter = ''queries_update'' then g\<lparr>queries_update := queries_update g + v\<rparr>
      else if counter = ''queries_delete'' then g\<lparr>queries_delete := queries_delete g + v\<rparr>
      else if counter = ''queries_failed'' then g\<lparr>queries_failed := queries_failed g + v\<rparr>
      else if counter = ''transactions_total'' then g\<lparr>transactions_total := transactions_total g + v\<rparr>
      else if counter = ''transactions_committed'' then g\<lparr>transactions_committed := transactions_committed g + v\<rparr>
      else if counter = ''transactions_rolled_back'' then g\<lparr>transactions_rolled_back := transactions_rolled_back g + v\<rparr>
      else if counter = ''pages_read'' then g\<lparr>pages_read := pages_read g + v\<rparr>
      else if counter = ''pages_written'' then g\<lparr>pages_written := pages_written g + v\<rparr>
      else if counter = ''pages_cache_hit'' then g\<lparr>pages_cache_hit := pages_cache_hit g + v\<rparr>
      else if counter = ''pages_cache_miss'' then g\<lparr>pages_cache_miss := pages_cache_miss g + v\<rparr>
      else if counter = ''wal_entries_written'' then g\<lparr>wal_entries_written := wal_entries_written g + v\<rparr>
      else if counter = ''wal_checkpoints'' then g\<lparr>wal_checkpoints := wal_checkpoints g + v\<rparr>
      else if counter = ''query_time_us'' then g\<lparr>query_time_us := query_time_us g + v\<rparr>
      else if counter = ''cache_evictions'' then g\<lparr>cache_evictions := cache_evictions g + v\<rparr>
      else if counter = ''fsync_calls'' then g\<lparr>fsync_calls := fsync_calls g + v\<rparr>
      else if counter = ''errors_storage'' then g\<lparr>errors_storage := errors_storage g + v\<rparr>
      else if counter = ''errors_protocol'' then g\<lparr>errors_protocol := errors_protocol g + v\<rparr>
      else if counter = ''errors_internal'' then g\<lparr>errors_internal := errors_internal g + v\<rparr>
      else g)"

definition stats_increment_by :: "string option \<Rightarrow> u64 \<Rightarrow> Stats_State \<Rightarrow> Stats_State" where
  "stats_increment_by counter v s =
     (case counter of
        None \<Rightarrow> s
      | Some c \<Rightarrow> if \<not> g_stats_initialized s then s else s\<lparr>g_stats := add_counter c v (g_stats s)\<rparr>)"

definition stats_increment :: "string option \<Rightarrow> Stats_State \<Rightarrow> Stats_State" where
  "stats_increment counter = stats_increment_by counter 1"

definition stats_gauge_set :: "string option \<Rightarrow> u64 \<Rightarrow> Stats_State \<Rightarrow> Stats_State" where
  "stats_gauge_set gauge v s =
     (if gauge = None \<or> \<not> g_stats_initialized s then s
      else if gauge = Some ''connections_active'' then s\<lparr>g_stats := (g_stats s)\<lparr>connections_active := v\<rparr>\<rparr>
      else s)"

definition stats_get :: "string option \<Rightarrow> Stats_State \<Rightarrow> u64" where
  "stats_get counter s =
     (if counter = None \<or> \<not> g_stats_initialized s then 0
      else if counter = Some ''connections_total'' then connections_total (g_stats s)
      else if counter = Some ''connections_failed'' then connections_failed (g_stats s)
      else if counter = Some ''connections_active'' then connections_active (g_stats s)
      else if counter = Some ''queries_total'' then queries_total (g_stats s)
      else if counter = Some ''queries_failed'' then queries_failed (g_stats s)
      else 0)"

definition stats_inc_connections_total :: "Stats_State \<Rightarrow> Stats_State" where
  "stats_inc_connections_total = stats_increment (Some ''connections_total'')"

definition stats_inc_connections_failed :: "Stats_State \<Rightarrow> Stats_State" where
  "stats_inc_connections_failed = stats_increment (Some ''connections_failed'')"

definition stats_inc_queries_total :: "Stats_State \<Rightarrow> Stats_State" where
  "stats_inc_queries_total = stats_increment (Some ''queries_total'')"

definition stats_inc_queries_select :: "Stats_State \<Rightarrow> Stats_State" where
  "stats_inc_queries_select = stats_increment (Some ''queries_select'')"

definition stats_inc_queries_insert :: "Stats_State \<Rightarrow> Stats_State" where
  "stats_inc_queries_insert = stats_increment (Some ''queries_insert'')"

definition stats_inc_queries_update :: "Stats_State \<Rightarrow> Stats_State" where
  "stats_inc_queries_update = stats_increment (Some ''queries_update'')"

definition stats_inc_queries_delete :: "Stats_State \<Rightarrow> Stats_State" where
  "stats_inc_queries_delete = stats_increment (Some ''queries_delete'')"

definition stats_inc_transactions_committed :: "Stats_State \<Rightarrow> Stats_State" where
  "stats_inc_transactions_committed = stats_increment (Some ''transactions_committed'')"

definition stats_inc_transactions_rolled_back :: "Stats_State \<Rightarrow> Stats_State" where
  "stats_inc_transactions_rolled_back = stats_increment (Some ''transactions_rolled_back'')"

definition stats_inc_pages_read :: "Stats_State \<Rightarrow> Stats_State" where
  "stats_inc_pages_read = stats_increment (Some ''pages_read'')"

definition stats_inc_pages_written :: "Stats_State \<Rightarrow> Stats_State" where
  "stats_inc_pages_written = stats_increment (Some ''pages_written'')"

definition stats_inc_cache_hit :: "Stats_State \<Rightarrow> Stats_State" where
  "stats_inc_cache_hit = stats_increment (Some ''pages_cache_hit'')"

definition stats_inc_cache_miss :: "Stats_State \<Rightarrow> Stats_State" where
  "stats_inc_cache_miss = stats_increment (Some ''pages_cache_miss'')"

definition stats_add_query_time :: "u64 \<Rightarrow> Stats_State \<Rightarrow> Stats_State" where
  "stats_add_query_time us = stats_increment_by (Some ''query_time_us'') us"

definition stats_get_global :: "Stats_State \<Rightarrow> Statistics" where
  "stats_get_global s = g_stats s"

section \<open>Tables\<close>

fun find_table_stats :: "string \<Rightarrow> TableStats list \<Rightarrow> nat option" where
  "find_table_stats name [] = None"
| "find_table_stats name (t # ts) =
     (if ts_table_name t = name then Some 0 else map_option Suc (find_table_stats name ts))"

definition table_operation :: "int \<Rightarrow> u64 \<Rightarrow> TableStats \<Rightarrow> TableStats" where
  "table_operation operation delta t =
     (if operation = 0 then t\<lparr>ts_total_scans := ts_total_scans t + 1\<rparr>
      else if operation = 1 then t\<lparr>ts_inserts := ts_inserts t + 1, ts_row_count := ts_row_count t + delta\<rparr>
      else if operation = 2 then t\<lparr>ts_updates := ts_updates t + 1\<rparr>
      else if operation = 3 then t\<lparr>ts_deletes := ts_deletes t + 1, ts_row_count := ts_row_count t - delta\<rparr>
      else t)"

text \<open>A new entry keeps the first 63 characters of the name.\<close>

definition new_table :: "string \<Rightarrow> TableStats" where
  "new_table name = zero_table\<lparr>ts_table_name := take 63 name\<rparr>"

definition stats_update_table_stats :: "string option \<Rightarrow> int \<Rightarrow> u64 \<Rightarrow> Stats_State \<Rightarrow> Stats_State" where
  "stats_update_table_stats table_name operation delta s =
     (case table_name of
        None \<Rightarrow> s
      | Some name \<Rightarrow>
          if \<not> g_stats_initialized s then s
          else
            let ts = g_table_stats s in
            case find_table_stats name ts of
              Some i \<Rightarrow> s\<lparr>g_table_stats := ts[i := table_operation operation delta (ts ! i)]\<rparr>
            | None \<Rightarrow>
                if length ts < MAX_TRACKED_TABLES
                then s\<lparr>g_table_stats := ts @ [table_operation operation delta (new_table name)]\<rparr>
                else s)"

definition stats_get_table_stats :: "string option \<Rightarrow> Stats_State \<Rightarrow> TableStats option" where
  "stats_get_table_stats table_name s =
     (case table_name of
        None \<Rightarrow> None
      | Some name \<Rightarrow>
          if \<not> g_stats_initialized s then None
          else map_option (\<lambda>i. g_table_stats s ! i) (find_table_stats name (g_table_stats s)))"

section \<open>Output\<close>

definition fmt_lu :: "u64 \<Rightarrow> string" where
  "fmt_lu v = dec_digits (unat v)"

definition table_line :: "TableStats \<Rightarrow> string" where
  "table_line t =
     ''  '' @ ts_table_name t @ '': rows='' @ fmt_lu (ts_row_count t) @ '' scans='' @ fmt_lu (ts_total_scans t) @
     '' inserts='' @ fmt_lu (ts_inserts t) @ '' updates='' @ fmt_lu (ts_updates t) @
     '' deletes='' @ fmt_lu (ts_deletes t) @ [CHR 0x0A]"

definition counters_text :: "Statistics \<Rightarrow> string" where
  "counters_text g =
     ''=== TinyDB Statistics ==='' @ [CHR 0x0A] @
     ''Connections:   total='' @ fmt_lu (connections_total g) @ '' failed='' @ fmt_lu (connections_failed g) @
     '' active='' @ fmt_lu (connections_active g) @ [CHR 0x0A] @
     ''Queries:       total='' @ fmt_lu (queries_total g) @ '' select='' @ fmt_lu (queries_select g) @
     '' insert='' @ fmt_lu (queries_insert g) @ '' update='' @ fmt_lu (queries_update g) @
     '' delete='' @ fmt_lu (queries_delete g) @ '' failed='' @ fmt_lu (queries_failed g) @ [CHR 0x0A] @
     ''Transactions:  total='' @ fmt_lu (transactions_total g) @ '' committed='' @ fmt_lu (transactions_committed g) @
     '' rolled_back='' @ fmt_lu (transactions_rolled_back g) @ [CHR 0x0A] @
     ''Storage:       pages_read='' @ fmt_lu (pages_read g) @ '' pages_written='' @ fmt_lu (pages_written g) @ [CHR 0x0A] @
     ''Cache:         hits='' @ fmt_lu (pages_cache_hit g) @ '' misses='' @ fmt_lu (pages_cache_miss g) @
     '' evictions='' @ fmt_lu (cache_evictions g) @ [CHR 0x0A] @
     ''WAL:           entries='' @ fmt_lu (wal_entries_written g) @ '' checkpoints='' @ fmt_lu (wal_checkpoints g) @ [CHR 0x0A] @
     ''Performance:   query_time_us='' @ fmt_lu (query_time_us g) @ '' fsync_calls='' @ fmt_lu (fsync_calls g) @ [CHR 0x0A] @
     ''Errors:        storage='' @ fmt_lu (errors_storage g) @ '' protocol='' @ fmt_lu (errors_protocol g) @
     '' internal='' @ fmt_lu (errors_internal g) @ [CHR 0x0A]"

text \<open>What is printed to \<^verbatim>\<open>stderr\<close>, with the state afterwards.\<close>

definition stats_dump :: "Stats_State \<Rightarrow> string \<times> Stats_State" where
  "stats_dump s =
     (let s = stats_init s in
      (counters_text (g_stats s) @
       (if g_table_stats s \<noteq> []
        then [CHR 0x0A] @ ''Table Statistics:'' @ [CHR 0x0A] @ concat (map table_line (g_table_stats s)) else []) @
       ''========================'' @ [CHR 0x0A], s))"

section \<open>Counting\<close>

text \<open>The counters by their names.\<close>

definition counter_fields :: "(string \<times> (Statistics \<Rightarrow> u64)) list" where
  "counter_fields =
     [(''connections_total'', connections_total), (''connections_failed'', connections_failed), (''connections_active'', connections_active),
      (''queries_total'', queries_total), (''queries_select'', queries_select), (''queries_insert'', queries_insert),
      (''queries_update'', queries_update), (''queries_delete'', queries_delete), (''queries_failed'', queries_failed),
      (''transactions_total'', transactions_total), (''transactions_committed'', transactions_committed), (''transactions_rolled_back'', transactions_rolled_back),
      (''pages_read'', pages_read), (''pages_written'', pages_written), (''pages_cache_hit'', pages_cache_hit),
      (''pages_cache_miss'', pages_cache_miss), (''wal_entries_written'', wal_entries_written), (''wal_checkpoints'', wal_checkpoints),
      (''query_time_us'', query_time_us), (''cache_evictions'', cache_evictions), (''fsync_calls'', fsync_calls),
      (''errors_storage'', errors_storage), (''errors_protocol'', errors_protocol), (''errors_internal'', errors_internal)]"

definition counter_value :: "string \<Rightarrow> Statistics \<Rightarrow> u64" where
  "counter_value name g = (case map_of counter_fields name of Some f \<Rightarrow> f g | None \<Rightarrow> 0)"

lemma add_counter_fields:
  "connections_total (add_counter c v g) = (if c = ''connections_total'' then connections_total g + v else connections_total g)"
  "connections_failed (add_counter c v g) = (if c = ''connections_failed'' then connections_failed g + v else connections_failed g)"
  "connections_active (add_counter c v g) = (if c = ''connections_active'' then connections_active g + v else connections_active g)"
  "queries_total (add_counter c v g) = (if c = ''queries_total'' then queries_total g + v else queries_total g)"
  "queries_select (add_counter c v g) = (if c = ''queries_select'' then queries_select g + v else queries_select g)"
  "queries_insert (add_counter c v g) = (if c = ''queries_insert'' then queries_insert g + v else queries_insert g)"
  "queries_update (add_counter c v g) = (if c = ''queries_update'' then queries_update g + v else queries_update g)"
  "queries_delete (add_counter c v g) = (if c = ''queries_delete'' then queries_delete g + v else queries_delete g)"
  "queries_failed (add_counter c v g) = (if c = ''queries_failed'' then queries_failed g + v else queries_failed g)"
  "transactions_total (add_counter c v g) = (if c = ''transactions_total'' then transactions_total g + v else transactions_total g)"
  "transactions_committed (add_counter c v g) = (if c = ''transactions_committed'' then transactions_committed g + v else transactions_committed g)"
  "transactions_rolled_back (add_counter c v g) = (if c = ''transactions_rolled_back'' then transactions_rolled_back g + v else transactions_rolled_back g)"
  "pages_read (add_counter c v g) = (if c = ''pages_read'' then pages_read g + v else pages_read g)"
  "pages_written (add_counter c v g) = (if c = ''pages_written'' then pages_written g + v else pages_written g)"
  "pages_cache_hit (add_counter c v g) = (if c = ''pages_cache_hit'' then pages_cache_hit g + v else pages_cache_hit g)"
  "pages_cache_miss (add_counter c v g) = (if c = ''pages_cache_miss'' then pages_cache_miss g + v else pages_cache_miss g)"
  "wal_entries_written (add_counter c v g) = (if c = ''wal_entries_written'' then wal_entries_written g + v else wal_entries_written g)"
  "wal_checkpoints (add_counter c v g) = (if c = ''wal_checkpoints'' then wal_checkpoints g + v else wal_checkpoints g)"
  "query_time_us (add_counter c v g) = (if c = ''query_time_us'' then query_time_us g + v else query_time_us g)"
  "cache_evictions (add_counter c v g) = (if c = ''cache_evictions'' then cache_evictions g + v else cache_evictions g)"
  "fsync_calls (add_counter c v g) = (if c = ''fsync_calls'' then fsync_calls g + v else fsync_calls g)"
  "errors_storage (add_counter c v g) = (if c = ''errors_storage'' then errors_storage g + v else errors_storage g)"
  "errors_protocol (add_counter c v g) = (if c = ''errors_protocol'' then errors_protocol g + v else errors_protocol g)"
  "errors_internal (add_counter c v g) = (if c = ''errors_internal'' then errors_internal g + v else errors_internal g)"
  by (simp_all add: add_counter_def)

lemma add_counter_value:
  "counter_value name (add_counter c v g) =
     counter_value name g + (if c = name \<and> name \<in> fst ` set counter_fields then v else 0)"
proof (cases "name \<in> fst ` set counter_fields")
  case True
  then show ?thesis
    unfolding counter_fields_def list.set image_insert image_empty fst_conv
    by (elim insertE emptyE) (simp_all add: counter_value_def counter_fields_def add_counter_fields)
next
  case False
  then have "map_of counter_fields name = None" by (simp add: map_of_eq_None_iff)
  with False show ?thesis by (simp add: counter_value_def)
qed

fun count_all :: "(string \<times> u64) list \<Rightarrow> Stats_State \<Rightarrow> Stats_State" where
  "count_all [] s = s"
| "count_all ((c, v) # cs) s = count_all cs (stats_increment_by (Some c) v s)"

text \<open>
  After any sequence of increments on initialised statistics, every counter has grown by the sum of the increments
  that name it, modulo \<open>2 ^ 64\<close>, and no increment with another name changes anything.
\<close>

theorem counters_add_up:
  assumes "g_stats_initialized s"
  shows "counter_value name (stats_get_global (count_all cs s)) = counter_value name (stats_get_global s) +
    (if name \<in> fst ` set counter_fields then sum_list (map snd (filter (\<lambda>(c, v). c = name) cs)) else 0)"
  using assms
proof (induction cs arbitrary: s)
  case Nil
  then show ?case by simp
next
  case (Cons e cs)
  obtain c v where e: "e = (c, v)" by (cases e)
  let ?s = "stats_increment_by (Some c) v s"
  have s: "g_stats_initialized ?s" "g_stats ?s = add_counter c v (g_stats s)"
    using Cons.prems by (simp_all add: stats_increment_by_def)
  show ?case using Cons.IH[OF s(1)] by (simp add: e s(2) stats_get_global_def add_counter_value ac_simps)
qed

theorem counters_add_up_witness:
  "counter_value ''pages_read'' (stats_get_global (count_all [(''pages_read'', 2), (''pages_written'', 5), (''pages_read'', 3)]
     (stats_init stats_start))) = 5"
proof -
  have "g_stats_initialized (stats_init stats_start)" by (simp add: stats_init_def)
  from counters_add_up[OF this, of "''pages_read''" "[(''pages_read'', 2), (''pages_written'', 5), (''pages_read'', 3)]"]
  show ?thesis
    by (simp add: counter_fields_def counter_value_def stats_get_global_def stats_init_def stats_start_def zero_stats_def)
qed

text \<open>Reading by name knows five of the counters.\<close>

lemma stats_get_value:
  "g_stats_initialized s \<Longrightarrow> stats_get (Some name) s =
     (if name \<in> {''connections_total'', ''connections_failed'', ''connections_active'', ''queries_total'', ''queries_failed''}
      then counter_value name (stats_get_global s) else 0)"
  by (auto simp: stats_get_def counter_value_def counter_fields_def stats_get_global_def)

section \<open>Tracking tables\<close>

definition tables_ok :: "Stats_State \<Rightarrow> bool" where
  "tables_ok s \<longleftrightarrow> g_stats_initialized s \<and> length (g_table_stats s) \<le> MAX_TRACKED_TABLES \<and>
     (\<forall>t \<in> set (g_table_stats s). length (ts_table_name t) \<le> 63)"

lemma table_operation_name [simp]: "ts_table_name (table_operation operation delta t) = ts_table_name t"
  by (simp add: table_operation_def)

lemma find_table_Some:
  "find_table_stats name ts = Some i \<Longrightarrow> i < length ts \<and> ts_table_name (ts ! i) = name"
  by (induction ts arbitrary: i) (auto split: if_splits)

lemma find_table_None: "find_table_stats name ts = None \<longleftrightarrow> name \<notin> ts_table_name ` set ts"
  by (induction ts) auto

lemma find_table_update:
  assumes "i < length ts" "ts_table_name t = ts_table_name (ts ! i)"
  shows "find_table_stats name (ts[i := t]) = find_table_stats name ts"
  using assms by (induction ts arbitrary: i) (auto split: nat.splits)

lemma find_table_append:
  "find_table_stats name (ts @ [t]) =
     (case find_table_stats name ts of Some i \<Rightarrow> Some i | None \<Rightarrow> if ts_table_name t = name then Some (length ts) else None)"
  by (induction ts) (auto split: option.splits)

lemma tables_ok_init: "tables_ok (stats_init stats_start)"
  by (simp add: tables_ok_def stats_init_def stats_start_def)

lemma tables_ok_update:
  assumes "tables_ok s"
  shows "tables_ok (stats_update_table_stats name operation delta s)"
  using assms
  by (auto simp: tables_ok_def stats_update_table_stats_def Let_def new_table_def MAX_TRACKED_TABLES_def
      dest!: find_table_Some set_update_subset_insert[THEN subsetD] split: option.splits)

text \<open>
  C39: The table statistics are a map from names to entries: an update of a table whose name has at most 63 characters
  changes its entry as the operation says, starting from an empty one, and no other, as long as the table is tracked or
  fewer than 64 tables are.
\<close>

theorem table_stats_update:
  assumes "tables_ok s" "length name \<le> 63"
    and "stats_get_table_stats (Some name) s \<noteq> None \<or> length (g_table_stats s) < MAX_TRACKED_TABLES"
  shows "stats_get_table_stats (Some other) (stats_update_table_stats (Some name) operation delta s) =
    (if other = name
     then Some (table_operation operation delta
       (case stats_get_table_stats (Some name) s of Some t \<Rightarrow> t | None \<Rightarrow> zero_table\<lparr>ts_table_name := name\<rparr>))
     else stats_get_table_stats (Some other) s)"
proof (cases "find_table_stats name (g_table_stats s)")
  case None
  then show ?thesis
    using assms by (auto simp: stats_update_table_stats_def stats_get_table_stats_def tables_ok_def Let_def
      find_table_append new_table_def nth_append dest: find_table_Some split: option.splits)
next
  case (Some i)
  then show ?thesis
    using assms(1) find_table_Some[OF Some]
    by (cases "find_table_stats other (g_table_stats s)") (auto simp: stats_update_table_stats_def stats_get_table_stats_def tables_ok_def Let_def find_table_update
      nth_list_update dest: find_table_Some split: option.splits)
qed

theorem table_stats_update_witness:
  "map_option ts_row_count (stats_get_table_stats (Some ''t'')
     (stats_update_table_stats (Some ''t'') 1 4 (stats_init stats_start))) = Some 4"
  using table_stats_update[OF tables_ok_init, of "''t''" "''t''" 1 4]
  by (simp add: stats_get_table_stats_def stats_init_def stats_start_def MAX_TRACKED_TABLES_def table_operation_def zero_table_def)

lemma long_name_step:
  assumes "tables_ok s" "63 < length name"
  shows "find_table_stats name (g_table_stats s) = None"
    and "length (g_table_stats (stats_update_table_stats (Some name) operation delta s)) =
      min MAX_TRACKED_TABLES (length (g_table_stats s) + 1)"
proof -
  show n: "find_table_stats name (g_table_stats s) = None"
    using assms by (fastforce simp: find_table_None tables_ok_def)
  show "length (g_table_stats (stats_update_table_stats (Some name) operation delta s)) =
      min MAX_TRACKED_TABLES (length (g_table_stats s) + 1)"
    using assms(1) by (auto simp: stats_update_table_stats_def tables_ok_def n Let_def)
qed

text \<open>
  A table whose name has more than 63 characters is never found again: each update adds one more entry for it until
  64 are in use, and asking for its statistics gives none.
\<close>

theorem long_name_fills_tables:
  assumes "tables_ok s" "63 < length name"
  shows "length (g_table_stats ((stats_update_table_stats (Some name) operation delta ^^ n) s)) =
      min MAX_TRACKED_TABLES (length (g_table_stats s) + n) \<and>
    stats_get_table_stats (Some name) ((stats_update_table_stats (Some name) operation delta ^^ n) s) = None"
proof -
  let ?s = "\<lambda>n. (stats_update_table_stats (Some name) operation delta ^^ n) s"
  have ok: "tables_ok (?s n)" for n by (induction n) (simp_all add: assms(1) tables_ok_update)
  have "length (g_table_stats (?s n)) = min MAX_TRACKED_TABLES (length (g_table_stats s) + n)"
  proof (induction n)
    case 0
    then show ?case using assms(1) by (simp add: tables_ok_def)
  next
    case (Suc n)
    then show ?case using long_name_step(2)[OF ok[of n] assms(2), of operation delta] by simp
  qed
  then show ?thesis using long_name_step(1)[OF ok assms(2)] by (simp add: stats_get_table_stats_def)
qed

theorem long_name_fills_tables_witness:
  "length (g_table_stats ((stats_update_table_stats (Some (replicate 64 CHR ''t'')) 1 1 ^^ 100) (stats_init stats_start))) = 64"
  using long_name_fills_tables[OF tables_ok_init, where name = "replicate 64 CHR ''t''" and n = 100 and operation = 1 and delta = 1]
  by (simp add: stats_init_def stats_start_def MAX_TRACKED_TABLES_def)

end
