(* ===== verification/Logger.thy ===== *)
theory Logger
  imports Float64
begin

text \<open>
  The logger (\<^verbatim>\<open>observability/log.c\<close>).  An open stream is \<^verbatim>\<open>stderr\<close> or a file opened for appending, by its path; the
  texts written so far are a function of the stream.  The text of the time and the formatted message are arguments, and
  so is which paths \<^verbatim>\<open>fopen\<close> can open.
\<close>

section \<open>State\<close>

datatype LogDestination = LOG_DEST_STDERR | LOG_DEST_SYSLOG | LOG_DEST_FILE | LOG_DEST_JOURNALD

datatype stream = Stderr | File string

type_synonym texts = "stream \<Rightarrow> string"

record Logger =
  lg_level :: int
  lg_dest :: LogDestination
  lg_file :: "stream option"
  lg_categories_enabled :: u32
  lg_use_colors :: bool

definition LOG_CAT_COUNT :: int where
  "LOG_CAT_COUNT = 5"

definition category_to_string :: "int \<Rightarrow> string" where
  "category_to_string cat =
     (if cat = 0 then ''general'' else if cat = 1 then ''storage'' else if cat = 2 then ''sql''
      else if cat = 3 then ''protocol'' else if cat = 4 then ''security'' else ''unknown'')"

definition level_color :: "int \<Rightarrow> string" where
  "level_color level =
     [CHR 0x1B] @ (if level = 0 then ''[31m'' else if level = 1 then ''[33m'' else if level = 2 then ''[32m''
      else if level = 3 then ''[34m'' else ''[0m'')"

definition fmt_d :: "int \<Rightarrow> string" where
  "fmt_d i = (if i < 0 then ''-'' @ dec_digits (nat (- i)) else dec_digits (nat i))"

section \<open>Writing\<close>

definition log_line :: "int \<Rightarrow> int \<Rightarrow> string \<Rightarrow> int \<Rightarrow> string \<Rightarrow> string \<Rightarrow> bool \<Rightarrow> string" where
  "log_line level cat path line timestamp message use_colors =
     (let color = level_color level; cat_str = category_to_string cat; reset = [CHR 0x1B] @ ''[0m'' in
      if use_colors
      then color @ timestamp @ reset @ '' ['' @ cat_str @ ''] '' @ path @ '':'' @ fmt_d line @ '' '' @ message @ reset @ [CHR 0x0A]
      else timestamp @ '' ['' @ cat_str @ ''] '' @ path @ '':'' @ fmt_d line @ '' '' @ message @ [CHR 0x0A])"

definition put_text :: "stream \<Rightarrow> string \<Rightarrow> texts \<Rightarrow> texts" where
  "put_text st s w = w(st := w st @ s)"

definition write_to_stream :: "int \<Rightarrow> int \<Rightarrow> string \<Rightarrow> int \<Rightarrow> string \<Rightarrow> string \<Rightarrow> bool \<Rightarrow> texts \<Rightarrow> texts" where
  "write_to_stream level cat path line timestamp message use_colors =
     put_text Stderr (log_line level cat path line timestamp message use_colors)"

definition write_to_file :: "stream option \<Rightarrow> int \<Rightarrow> int \<Rightarrow> string \<Rightarrow> int \<Rightarrow> string \<Rightarrow> string \<Rightarrow> bool \<Rightarrow> texts \<Rightarrow> texts" where
  "write_to_file f level cat path line timestamp message use_colors w =
     (case f of None \<Rightarrow> w | Some st \<Rightarrow> put_text st (log_line level cat path line timestamp message use_colors) w)"

text \<open>The category is a bit of the mask; the message is cut to the 1024 bytes of its buffer.\<close>

definition category_enabled :: "int \<Rightarrow> Logger \<Rightarrow> bool" where
  "category_enabled cat lg \<longleftrightarrow>
     \<not> (cat < 0 \<or> LOG_CAT_COUNT \<le> cat \<or> lg_categories_enabled lg AND push_bit (nat cat) 1 = 0)"

definition log_write :: "Logger \<Rightarrow> int \<Rightarrow> int \<Rightarrow> string \<Rightarrow> int \<Rightarrow> string \<Rightarrow> string \<Rightarrow> texts \<Rightarrow> texts" where
  "log_write lg cat level path line timestamp formatted w =
     (if lg_level lg < level then w
      else if \<not> category_enabled cat lg then w
      else
        let message = take 1023 formatted in
        case lg_dest lg of
          LOG_DEST_STDERR \<Rightarrow> write_to_stream level cat path line timestamp message (lg_use_colors lg) w
        | LOG_DEST_FILE \<Rightarrow>
            (if lg_file lg \<noteq> None
             then write_to_file (lg_file lg) level cat path line timestamp message (lg_use_colors lg) w
             else write_to_stream level cat path line timestamp message (lg_use_colors lg) w)
        | LOG_DEST_SYSLOG \<Rightarrow> write_to_stream level cat path line timestamp message (lg_use_colors lg) w
        | LOG_DEST_JOURNALD \<Rightarrow> write_to_stream level cat path line timestamp message (lg_use_colors lg) w)"

section \<open>Configuration\<close>

definition log_init :: "LogDestination \<Rightarrow> int \<Rightarrow> Logger" where
  "log_init dest level =
     \<lparr>lg_level = level, lg_dest = dest, lg_file = None,
      lg_categories_enabled = push_bit (nat LOG_CAT_COUNT) 1 - 1, lg_use_colors = True\<rparr>"

definition log_destroy :: "Logger \<Rightarrow> Logger" where
  "log_destroy lg = (if lg_file lg \<noteq> None \<and> lg_file lg \<noteq> Some Stderr then lg\<lparr>lg_file := None\<rparr> else lg)"

definition log_set_level :: "int \<Rightarrow> Logger \<Rightarrow> Logger" where
  "log_set_level level lg = lg\<lparr>lg_level := level\<rparr>"

definition log_enable_category :: "int \<Rightarrow> Logger \<Rightarrow> Logger" where
  "log_enable_category cat lg =
     (if 0 \<le> cat \<and> cat < LOG_CAT_COUNT
      then lg\<lparr>lg_categories_enabled := lg_categories_enabled lg OR push_bit (nat cat) 1\<rparr> else lg)"

definition log_disable_category :: "int \<Rightarrow> Logger \<Rightarrow> Logger" where
  "log_disable_category cat lg =
     (if 0 \<le> cat \<and> cat < LOG_CAT_COUNT
      then lg\<lparr>lg_categories_enabled := lg_categories_enabled lg AND NOT (push_bit (nat cat) 1)\<rparr> else lg)"

definition log_set_file :: "(string \<Rightarrow> bool) \<Rightarrow> string \<Rightarrow> Logger \<Rightarrow> int \<times> Logger" where
  "log_set_file fopen path lg =
     (if fopen path then (0, lg\<lparr>lg_file := Some (File path), lg_dest := LOG_DEST_FILE\<rparr>) else (- 1, lg))"

definition log_rotate :: "(string \<Rightarrow> bool) \<Rightarrow> Logger \<Rightarrow> Logger" where
  "log_rotate fopen lg =
     (if lg_file lg = None \<or> lg_file lg = Some Stderr then lg
      else if fopen ''/dev/null'' then lg\<lparr>lg_file := Some (File ''/dev/null'')\<rparr> else lg)"

section \<open>Which messages are written\<close>

lemma category_enabled_bit:
  "category_enabled cat lg \<longleftrightarrow> 0 \<le> cat \<and> cat < LOG_CAT_COUNT \<and> bit (lg_categories_enabled lg) (nat cat)"
proof -
  have "w AND push_bit n 1 = 0 \<longleftrightarrow> \<not> bit w n" if "n < 32" for w :: u32 and n
    using that unfolding bit_eq_iff[of "w AND push_bit n 1"] by (auto simp: bit_simps)
  then have "lg_categories_enabled lg AND push_bit (nat cat) 1 = 0 \<longleftrightarrow> \<not> bit (lg_categories_enabled lg) (nat cat)" if "cat < 5"
    using that by (simp del: push_bit_of_1)
  then show ?thesis unfolding category_enabled_def LOG_CAT_COUNT_def by (meson not_le)
qed

lemma category_init: "category_enabled cat (log_init dest level) \<longleftrightarrow> 0 \<le> cat \<and> cat < LOG_CAT_COUNT"
proof -
  have "nat cat \<in> {0, 1, 2, 3, 4}" if "0 \<le> cat" "cat < 5" using that by auto
  then show ?thesis by (auto simp: category_enabled_bit log_init_def LOG_CAT_COUNT_def)
qed

lemma category_switch:
  "category_enabled cat (log_enable_category c lg) \<longleftrightarrow> (cat = c \<and> 0 \<le> c \<and> c < LOG_CAT_COUNT) \<or> category_enabled cat lg"
  "category_enabled cat (log_disable_category c lg) \<longleftrightarrow> cat \<noteq> c \<and> category_enabled cat lg"
  by (auto simp: category_enabled_bit log_enable_category_def log_disable_category_def LOG_CAT_COUNT_def bit_simps
      nat_eq_iff2 eq_nat_nat_iff)

fun switch_all :: "(bool \<times> int) list \<Rightarrow> Logger \<Rightarrow> Logger" where
  "switch_all [] lg = lg"
| "switch_all ((on, c) # cs) lg = switch_all cs (if on then log_enable_category c lg else log_disable_category c lg)"

text \<open>The last switch of a category decides, and all are on at the beginning.\<close>

fun switched_on :: "int \<Rightarrow> (bool \<times> int) list \<Rightarrow> bool \<Rightarrow> bool" where
  "switched_on cat [] b = b"
| "switched_on cat ((on, c) # cs) b = switched_on cat cs (if c = cat then on else b)"

lemma switch_all_enabled:
  "category_enabled cat (switch_all cs lg) \<longleftrightarrow> 0 \<le> cat \<and> cat < LOG_CAT_COUNT \<and> switched_on cat cs (category_enabled cat lg)"
proof (induction cs arbitrary: lg)
  case Nil
  then show ?case by (auto simp: category_enabled_bit)
next
  case (Cons e cs)
  then show ?case by (cases e) (auto simp: category_switch)
qed

lemma switch_all_keeps:
  "lg_level (switch_all cs lg) = lg_level lg" "lg_dest (switch_all cs lg) = lg_dest lg"
  "lg_file (switch_all cs lg) = lg_file lg"
  by (induction cs lg rule: switch_all.induct) (simp_all add: log_enable_category_def log_disable_category_def)

text \<open>
  After any sequence of switching categories on and off, a message is written exactly if its level is at most that of
  the logger and its category is one of the five and was not switched off last; it is then one line on the error stream.
\<close>

theorem log_filter:
  "log_write (switch_all cs (log_init LOG_DEST_STDERR l)) cat level path line ts msg w =
     (if level \<le> l \<and> 0 \<le> cat \<and> cat < LOG_CAT_COUNT \<and> switched_on cat cs True
      then w(Stderr := w Stderr @ log_line level cat path line ts (take 1023 msg)
        (lg_use_colors (switch_all cs (log_init LOG_DEST_STDERR l)))) else w)"
proof -
  let ?lg = "switch_all cs (log_init LOG_DEST_STDERR l)"
  have k: "lg_level ?lg = l" "lg_dest ?lg = LOG_DEST_STDERR" by (simp_all add: switch_all_keeps log_init_def)
  have e: "category_enabled cat ?lg \<longleftrightarrow> 0 \<le> cat \<and> cat < LOG_CAT_COUNT \<and> switched_on cat cs True"
    by (auto simp: switch_all_enabled category_init)
  show ?thesis by (auto simp: log_write_def k e write_to_stream_def put_text_def Let_def)
qed

text \<open>
  Rotating the log of a logger that writes to a file sends every later message to the null device: the file itself
  is not written to again.
\<close>

theorem log_rotate_discards:
  assumes "fopen ''/dev/null''" "log_set_file fopen path lg = (0, lg')" "path \<noteq> ''/dev/null''"
  shows "fold (\<lambda>(cat, level, src, line, ts, msg). log_write (log_rotate fopen lg') cat level src line ts msg) msgs w (File path) =
    w (File path)"
proof -
  have "log_write (log_rotate fopen lg') cat level src line ts msg u (File path) = u (File path)" for cat level src line ts msg u
    using assms by (auto simp: log_set_file_def log_rotate_def log_write_def write_to_file_def write_to_stream_def
      put_text_def Let_def split: if_splits)
  then show ?thesis by (induction msgs arbitrary: w) auto
qed

theorem log_rotate_discards_witness:
  "fold (\<lambda>(cat, level, src, line, ts, msg). log_write (log_rotate (\<lambda>p. True)
       (snd (log_set_file (\<lambda>p. True) ''log'' (log_init LOG_DEST_STDERR 2)))) cat level src line ts msg)
     [(0, 0, ''a.c'', 1, ''now'', ''lost'')] (\<lambda>st. []) (File ''log'') = []"
  using log_rotate_discards[of "\<lambda>p. True" "''log''" "log_init LOG_DEST_STDERR 2" _ "[(0, 0, ''a.c'', 1, ''now'', ''lost'')]" "\<lambda>st. []"]
  by (simp add: log_set_file_def)

end
