(* ===== verification/Commands.thy ===== *)
theory Commands
  imports Cli
begin

text \<open>
  The rest of the command line client: the printed forms of a result (\<^verbatim>\<open>cli/commands.c\<close> and \<open>cli_display_result\<close> of
  \<^verbatim>\<open>cli/cli.c\<close>) and its main function (\<^verbatim>\<open>cli/main.c\<close>).  A result is an array of \<open>rows * cols\<close> texts, row by row, and an
  array of \<open>cols\<close> headers; a missing text is a null pointer.  The numbers of rows and columns are not negative, and lengths fit into an \<^verbatim>\<open>int\<close>.
\<close>

section \<open>Shortcuts\<close>

definition cli_execute_command :: "string \<Rightarrow> int" where
  "cli_execute_command cmd = 0"

definition cli_execute_query ::
    "(string \<Rightarrow> bool) \<Rightarrow> (string \<Rightarrow> string list option) \<Rightarrow> string \<Rightarrow> Session \<Rightarrow> (int \<times> Session) comp" where
  "cli_execute_query reach peer sql = cli_execute_sql reach peer sql"

definition cli_begin_transaction ::
    "(string \<Rightarrow> bool) \<Rightarrow> (string \<Rightarrow> string list option) \<Rightarrow> Session \<Rightarrow> (int \<times> Session) comp" where
  "cli_begin_transaction reach peer = cli_execute_sql reach peer ''BEGIN''"

definition cli_commit_transaction ::
    "(string \<Rightarrow> bool) \<Rightarrow> (string \<Rightarrow> string list option) \<Rightarrow> Session \<Rightarrow> (int \<times> Session) comp" where
  "cli_commit_transaction reach peer = cli_execute_sql reach peer ''COMMIT''"

definition cli_rollback_transaction ::
    "(string \<Rightarrow> bool) \<Rightarrow> (string \<Rightarrow> string list option) \<Rightarrow> Session \<Rightarrow> (int \<times> Session) comp" where
  "cli_rollback_transaction reach peer = cli_execute_sql reach peer ''ROLLBACK''"

section \<open>Results\<close>

definition shown :: "string option \<Rightarrow> string" where
  "shown t = (case t of None \<Rightarrow> [] | Some s \<Rightarrow> s)"

definition text_at :: "string option list \<Rightarrow> nat \<Rightarrow> string" where
  "text_at data k = shown (data ! k)"

text \<open>An array that is too short is read outside its bounds.\<close>

definition within :: "nat \<Rightarrow> 'a list \<Rightarrow> 'b \<Rightarrow> 'b comp" where
  "within n xs r = (if n \<le> length xs then ret r else undef)"

fun widest :: "nat \<Rightarrow> string list \<Rightarrow> nat" where
  "widest w [] = w"
| "widest w (s # ss) = widest (if w < length s then length s else w) ss"

definition column_width :: "nat \<Rightarrow> nat \<Rightarrow> string option list \<Rightarrow> string option list \<Rightarrow> nat \<Rightarrow> nat" where
  "column_width rows cols data headers j =
     widest (length (text_at headers j)) (map (\<lambda>i. text_at data (i * cols + j)) [0..<rows])"

definition total_width :: "nat list \<Rightarrow> nat" where
  "total_width widths = foldl (\<lambda>t w. t + (w + 3)) 1 widths"

definition box_rule :: "nat list \<Rightarrow> string" where
  "box_rule widths = ''+'' @ concat (map (\<lambda>w. replicate (w + 2) CHR ''-'' @ ''+'') widths)"

text \<open>\<^verbatim>\<open>printf(" %-*s |")\<close>: the text on the left of a field of the given width.\<close>

definition box_cell :: "nat \<Rightarrow> string \<Rightarrow> string" where
  "box_cell w s = '' '' @ s @ replicate (w - length s) CHR '' '' @ '' |''"

definition box_line :: "nat list \<Rightarrow> (nat \<Rightarrow> string) \<Rightarrow> string" where
  "box_line widths f = ''|'' @ concat (map (\<lambda>j. box_cell (widths ! j) (f j)) [0..<length widths])"

definition cli_format_result_box :: "nat \<Rightarrow> nat \<Rightarrow> string option list \<Rightarrow> string option list \<Rightarrow> string comp" where
  "cli_format_result_box rows cols data headers =
     (if rows = 0 then ret (''No rows returned.'' @ nl)
      else bindc (within cols headers ()) (\<lambda>_. within (rows * cols) data (
        let widths = map (column_width rows cols data headers) [0..<cols] in
        box_rule widths @ nl @ box_line widths (text_at headers) @ nl @ box_rule widths @ nl @
        concat (map (\<lambda>i. box_line widths (\<lambda>j. text_at data (i * cols + j)) @ nl) [0..<rows]) @
        box_rule widths @ nl)))"

fun csv_quoted :: "string \<Rightarrow> string" where
  "csv_quoted [] = []"
| "csv_quoted (c # s) = (if c = CHR 0x22 then [CHR 0x22, CHR 0x22] else [c]) @ csv_quoted s"

definition csv_value :: "string option \<Rightarrow> string" where
  "csv_value v =
     (if v = None \<or> v = Some [] then [CHR 0x22, CHR 0x22]
      else
        let s = shown v in
        if CHR '','' \<in> set s \<or> CHR 0x22 \<in> set s \<or> CHR 0x0A \<in> set s
        then [CHR 0x22] @ csv_quoted s @ [CHR 0x22] else s)"

definition separated :: "string \<Rightarrow> nat \<Rightarrow> (nat \<Rightarrow> string) \<Rightarrow> string" where
  "separated sep cols f = concat (map (\<lambda>j. (if 0 < j then sep else []) @ f j) [0..<cols])"

definition cli_format_result_csv :: "nat \<Rightarrow> nat \<Rightarrow> string option list \<Rightarrow> string comp" where
  "cli_format_result_csv rows cols data =
     within (rows * cols) data
       (concat (map (\<lambda>i. separated '','' cols (\<lambda>j. csv_value (data ! (i * cols + j))) @ nl) [0..<rows]))"

definition cli_format_result_line :: "nat \<Rightarrow> nat \<Rightarrow> string option list \<Rightarrow> string option list \<Rightarrow> string comp" where
  "cli_format_result_line rows cols data headers =
     (if rows = 0 then ret []
      else bindc (within cols headers ()) (\<lambda>_. within (rows * cols) data
        (concat (map (\<lambda>i. concat (map (\<lambda>j. text_at headers j @ '' = '' @ text_at data (i * cols + j) @ nl) [0..<cols]) @
          (if i < rows - 1 then nl else [])) [0..<rows]))))"

definition cli_format_result_list :: "nat \<Rightarrow> nat \<Rightarrow> string option list \<Rightarrow> string option list \<Rightarrow> string comp" where
  "cli_format_result_list rows cols data headers =
     (if rows = 0 then ret []
      else bindc (within cols headers ()) (\<lambda>_. within (rows * cols) data
        (concat (map (\<lambda>i. separated [CHR 0x09] cols
          (\<lambda>j. text_at headers j @ [CHR 0x09] @ text_at data (i * cols + j)) @ nl) [0..<rows]))))"

definition cli_display_result :: "nat \<Rightarrow> nat \<Rightarrow> string option list \<Rightarrow> string comp" where
  "cli_display_result rows cols data =
     within (rows * cols) data
       (concat (map (\<lambda>i. separated [CHR 0x09] cols (\<lambda>j. text_at data (i * cols + j)) @ nl) [0..<rows]))"

definition cli_display_error :: "string option \<Rightarrow> Session \<Rightarrow> Session" where
  "cli_display_error err ses = (case err of None \<Rightarrow> ses | Some e \<Rightarrow> print_err (''ERROR: '' @ e @ nl) ses)"

section \<open>The main function\<close>

definition cli_batch_mode :: "nat \<Rightarrow> (string \<Rightarrow> bool) \<Rightarrow> (string \<Rightarrow> string list option) \<Rightarrow>
    (string \<Rightarrow> string option) \<Rightarrow> string \<Rightarrow> Session \<Rightarrow> (int \<times> Session) comp" where
  "cli_batch_mode n reach peer files filepath ses = cli_execute_file n reach peer files filepath ses"

definition cli_shutdown :: "Session \<Rightarrow> Session" where
  "cli_shutdown ses =
     (if connected (ses_cli ses) \<or> 0 \<le> socket_fd (ses_cli ses) then cli_disconnect ses else ses)"

text \<open>The loop over the lines of an input that is no terminal; the results of the calls are ignored.\<close>

fun main_lines :: "nat \<Rightarrow> (string \<Rightarrow> bool) \<Rightarrow> (string \<Rightarrow> string list option) \<Rightarrow> (string \<Rightarrow> string option) \<Rightarrow>
    string list \<Rightarrow> Session \<Rightarrow> Session comp" where
  "main_lines n reach peer files [] ses = ret ses"
| "main_lines n reach peer files (raw # lines) ses =
     (let line = chomp (cstr raw) in
      if line = [] then main_lines n reach peer files lines ses
      else if hd line = CHR ''.'' then
        bindc (cli_handle_meta_command n reach peer files line ses) (\<lambda>(r, ses). main_lines n reach peer files lines ses)
      else
        bindc (cli_single_query reach peer line ses) (\<lambda>(r, ses). main_lines n reach peer files lines ses))"

definition banner :: string where
  "banner = ''TinyDB CLI v2.0.0'' @ nl @ ''Type '' @ [CHR 0x22] @ ''.help'' @ [CHR 0x22] @ '' for help.'' @ nl @ nl"

text \<open>\<open>args\<close> are the arguments behind the name of the program; \<open>tty\<close> says whether the input is a terminal.\<close>

definition cli_main :: "nat \<Rightarrow> (string \<Rightarrow> bool) \<Rightarrow> (string \<Rightarrow> string list option) \<Rightarrow> (string \<Rightarrow> string option) \<Rightarrow>
    string option \<Rightarrow> bool \<Rightarrow> string \<Rightarrow> string list \<Rightarrow> (int \<times> Session) comp" where
  "cli_main n reach peer files env tty stdin args =
     bindc (cli_parse_args n reach peer files args
         \<lparr>ses_cli = cli_init, ses_inbox = [], ses_out = [], ses_err = [], ses_shell = []\<rparr>) (\<lambda>(r, ses).
       if r \<noteq> 0 then ret (0, cli_shutdown ses)
       else
         let ses = (if \<not> quiet (ses_cli ses) \<and> \<not> executed_command (ses_cli ses) \<and> tty then print banner ses else ses) in
         if tty
         then bindc (cli_interactive_loop n reach peer files env stdin ses) (\<lambda>(rest, ses). ret (0, cli_shutdown ses))
         else bindc (main_lines n reach peer files (fgets_lines 4095 [] stdin) ses) (\<lambda>ses. ret (0, cli_shutdown ses)))"

section \<open>The box is aligned\<close>

lemma widest_ge: "w \<le> widest w ss" "s \<in> set ss \<Longrightarrow> length s \<le> widest w ss"
proof (induction ss arbitrary: w)
  case (Cons t ts)
  {
    case 1
    show ?case using Cons(1)[of "if w < length t then length t else w"] by (auto split: if_splits)
  next
    case 2
    then show ?case using Cons(1,2)[of "if w < length t then length t else w"] by (auto split: if_splits)
  }
qed simp_all

lemma total_width_sum: "total_width ws = 1 + sum_list (map (\<lambda>w. w + 3) ws)"
proof -
  have "foldl (\<lambda>t w. t + (w + 3)) a ws = a + sum_list (map (\<lambda>w. w + 3) ws)" for a
    by (induction ws arbitrary: a) simp_all
  then show ?thesis by (simp add: total_width_def)
qed

lemma length_box_rule: "length (box_rule ws) = total_width ws"
  by (simp add: box_rule_def total_width_sum length_concat comp_def numeral_3_eq_3)

lemma length_box_line:
  assumes "\<And>j. j < length ws \<Longrightarrow> length (f j) \<le> ws ! j"
  shows "length (box_line ws f) = total_width ws"
proof -
  have "map (\<lambda>j. length (box_cell (ws ! j) (f j))) [0..<length ws] = map (\<lambda>w. w + 3) ws"
    using assms by (intro nth_equalityI) (simp_all add: box_cell_def)
  then show ?thesis by (simp add: box_line_def total_width_sum length_concat comp_def)
qed

lemma column_width_ge:
  "length (text_at headers j) \<le> column_width rows cols data headers j"
  "i < rows \<Longrightarrow> length (text_at data (i * cols + j)) \<le> column_width rows cols data headers j"
  by (auto simp: column_width_def intro: widest_ge)

text \<open>
  A result with rows is printed as a box of \<open>rows + 4\<close> lines that all have the same length, one more than the sum of
  the columns' widths with three characters added to each.
\<close>

theorem box_aligned:
  assumes "0 < rows" "cols \<le> length headers" "rows * cols \<le> length data"
  shows "\<exists>ls. cli_format_result_box rows cols data headers = ret (concat (map (\<lambda>l. l @ nl) ls)) \<and> length ls = rows + 4 \<and>
    (\<forall>l \<in> set ls. length l = total_width (map (column_width rows cols data headers) [0..<cols]))"
proof -
  let ?ws = "map (column_width rows cols data headers) [0..<cols]"
  let ?ls = "[box_rule ?ws, box_line ?ws (text_at headers), box_rule ?ws] @
    map (\<lambda>i. box_line ?ws (\<lambda>j. text_at data (i * cols + j))) [0..<rows] @ [box_rule ?ws]"
  have "cli_format_result_box rows cols data headers = ret (concat (map (\<lambda>l. l @ nl) ?ls))"
    using assms by (simp add: cli_format_result_box_def within_def comp_def Let_def)
  moreover have "length (box_line ?ws (text_at headers)) = total_width ?ws"
    by (rule length_box_line) (simp add: column_width_ge)
  moreover have "length (box_line ?ws (\<lambda>j. text_at data (i * cols + j))) = total_width ?ws" if "i < rows" for i
    by (rule length_box_line) (simp add: column_width_ge that)
  ultimately show ?thesis by (intro exI[of _ ?ls]) (auto simp: length_box_rule)
qed

theorem box_aligned_witness:
  "\<exists>ls. cli_format_result_box 1 2 [Some ''1'', None] [Some ''id'', Some ''name''] = ret (concat (map (\<lambda>l. l @ nl) ls)) \<and>
    length ls = 5"
  using box_aligned[of 1 2 "[Some ''id'', Some ''name'']" "[Some ''1'', None]"] by auto

section \<open>The comma-separated form can be read back\<close>

text \<open>A reader for it: a value in quotes, with doubled quotes inside, or up to the next comma or line feed.\<close>

fun read_quoted :: "string \<Rightarrow> (string \<times> string) option" where
  "read_quoted [] = None"
| "read_quoted [c] = (if c = CHR 0x22 then Some ([], []) else None)"
| "read_quoted (c # d # s) =
     (if c \<noteq> CHR 0x22 then map_option (apfst (Cons c)) (read_quoted (d # s))
      else if d = CHR 0x22 then map_option (apfst (Cons c)) (read_quoted s)
      else Some ([], d # s))"

definition plain :: "char \<Rightarrow> bool" where
  "plain c \<longleftrightarrow> c \<noteq> CHR '','' \<and> c \<noteq> CHR 0x0A"

definition read_value :: "string \<Rightarrow> (string \<times> string) option" where
  "read_value s =
     (if s \<noteq> [] \<and> hd s = CHR 0x22 then read_quoted (tl s) else Some (takeWhile plain s, dropWhile plain s))"

definition skip :: "char \<Rightarrow> string \<Rightarrow> string option" where
  "skip c s = (if s \<noteq> [] \<and> hd s = c then Some (tl s) else None)"

fun read_row :: "bool \<Rightarrow> nat \<Rightarrow> string \<Rightarrow> (string list \<times> string) option" where
  "read_row first 0 s = map_option (Pair []) (skip (CHR 0x0A) s)"
| "read_row first (Suc k) s =
     Option.bind (if first then Some s else skip (CHR '','') s) (\<lambda>s.
     Option.bind (read_value s) (\<lambda>(v, s). map_option (apfst (Cons v)) (read_row False k s)))"

fun read_rows :: "nat \<Rightarrow> nat \<Rightarrow> string \<Rightarrow> string list list option" where
  "read_rows 0 cols s = (if s = [] then Some [] else None)"
| "read_rows (Suc n) cols s =
     Option.bind (read_row True cols s) (\<lambda>(r, s). map_option (Cons r) (read_rows n cols s))"

lemma read_csv_quoted:
  assumes "t \<noteq> []" "hd t \<noteq> CHR 0x22"
  shows "read_quoted (csv_quoted s @ CHR 0x22 # t) = Some (s, t)"
proof (induction s)
  case Nil
  then show ?case using assms by (cases t) auto
next
  case (Cons c s)
  obtain d r where "csv_quoted s @ CHR 0x22 # t = d # r" by (cases "csv_quoted s @ CHR 0x22 # t") auto
  with Cons show ?case by auto
qed

lemma read_csv_value:
  assumes "t \<noteq> []" "\<not> plain (hd t)"
  shows "read_value (csv_value v @ t) = Some (shown v, t)"
proof -
  have q: "hd t \<noteq> CHR 0x22" using assms(2) by (auto simp: plain_def)
  note r = read_csv_quoted[OF assms(1) q]
  have t: "takeWhile plain t = []" "dropWhile plain t = t" using assms by (cases t; simp)+
  show ?thesis
  proof (cases "v = None \<or> v = Some []")
    case True
    then show ?thesis using r[of "[]"] by (auto simp: csv_value_def read_value_def shown_def)
  next
    case False
    then obtain s where s: "v = Some s" "s \<noteq> []" by (cases v) auto
    show ?thesis
    proof (cases "CHR '','' \<in> set s \<or> CHR 0x22 \<in> set s \<or> CHR 0x0A \<in> set s")
      case True
      then show ?thesis using r[of s] s by (simp add: csv_value_def read_value_def shown_def)
    next
      case no: False
      then have "\<forall>c \<in> set s. plain c" "hd s \<noteq> CHR 0x22" using s(2) by (auto simp: plain_def dest: hd_in_set)
      then show ?thesis using no s t by (simp add: csv_value_def read_value_def shown_def takeWhile_append2 dropWhile_append2)
    qed
  qed
qed

lemma read_csv_row:
  "read_row (m = 0) k (concat (map (\<lambda>j. (if 0 < j then '','' else []) @ csv_value (f j)) [m..<m + k]) @ nl @ t) =
     Some (map (\<lambda>j. shown (f j)) [m..<m + k], t)"
proof (induction k arbitrary: m)
  case 0
  then show ?case by (simp add: skip_def)
next
  case (Suc k)
  let ?rest = "concat (map (\<lambda>j. (if 0 < j then '','' else []) @ csv_value (f j)) [Suc m..<Suc m + k]) @ nl @ t"
  have "?rest \<noteq> []" by simp
  moreover have "\<not> plain (hd ?rest)" by (cases k) (simp_all add: plain_def upt_conv_Cons del: upt_Suc)
  ultimately have v: "read_value (csv_value (f m) @ ?rest) = Some (shown (f m), ?rest)" by (rule read_csv_value)
  have u: "[m..<m + Suc k] = m # [Suc m..<Suc m + k]" by (simp add: upt_conv_Cons del: upt_Suc)
  show ?case using Suc.IH[of "Suc m"] v unfolding u by (cases "m = 0") (simp_all add: skip_def del: upt_Suc)
qed

text \<open>
  C40: The comma-separated form of a result gives back its values, an absent value as the empty text, whatever commas,
  quotes and line feeds they contain.
\<close>

theorem csv_roundtrip:
  assumes "rows * cols \<le> length data"
  shows "\<exists>out. cli_format_result_csv rows cols data = ret out \<and>
    read_rows rows cols out = Some (map (\<lambda>i. map (\<lambda>j. shown (data ! (i * cols + j))) [0..<cols]) [0..<rows])"
proof -
  let ?row = "\<lambda>i. separated '','' cols (\<lambda>j. csv_value (data ! (i * cols + j))) @ nl"
  have "read_rows k cols (concat (map ?row [m..<m + k])) =
      Some (map (\<lambda>i. map (\<lambda>j. shown (data ! (i * cols + j))) [0..<cols]) [m..<m + k])" for m k
  proof (induction k arbitrary: m)
    case (Suc k)
    have u: "[m..<m + Suc k] = m # [Suc m..<Suc m + k]" by (simp add: upt_conv_Cons del: upt_Suc)
    show ?case
      using Suc.IH[of "Suc m"] read_csv_row[of 0 cols "\<lambda>j. data ! (m * cols + j)" "concat (map ?row [Suc m..<Suc m + k])"]
      unfolding u by (simp add: separated_def del: upt_Suc)
  qed simp
  from this[of rows 0] show ?thesis using assms by (simp add: cli_format_result_csv_def within_def)
qed

theorem csv_roundtrip_witness:
  "\<exists>out. cli_format_result_csv 1 2 [Some ''a,b'', None] = ret out \<and> read_rows 1 2 out = Some [[''a,b'', []]]"
  using csv_roundtrip[of 1 2 "[Some ''a,b'', None]"] by (simp add: shown_def upt_rec)

section \<open>Input from a pipe\<close>

text \<open>
  A line \<^verbatim>\<open>.quit\<close> or \<^verbatim>\<open>.exit\<close> in an input that is no terminal is skipped: the lines behind it are still executed.
\<close>

theorem piped_quit_ignored:
  "cmd \<in> {''.quit'', ''.exit''} \<Longrightarrow>
     main_lines (Suc n) reach peer files ((cmd @ nl) # lines) ses = main_lines (Suc n) reach peer files lines ses"
  by (auto simp: cstr_def chomp_def)

theorem piped_quit_ignored_witness:
  "main_lines 1 (\<lambda>p. False) (\<lambda>q. None) (\<lambda>f. None) [''.quit'' @ nl, ''.timer on'' @ nl]
     \<lparr>ses_cli = cli_init, ses_inbox = [], ses_out = [], ses_err = [], ses_shell = []\<rparr> =
   main_lines 1 (\<lambda>p. False) (\<lambda>q. None) (\<lambda>f. None) [''.timer on'' @ nl]
     \<lparr>ses_cli = cli_init, ses_inbox = [], ses_out = [], ses_err = [], ses_shell = []\<rparr>"
  using piped_quit_ignored[of "''.quit''" 0 "\<lambda>p. False" "\<lambda>q. None" "\<lambda>f. None" "[''.timer on'' @ nl]"
    "\<lparr>ses_cli = cli_init, ses_inbox = [], ses_out = [], ses_err = [], ses_shell = []\<rparr>"] by simp

end
